(* ===== verification/Prelude.thy ===== *)
theory Prelude
  imports Main "HOL-Library.Word"
begin

text \<open>
  Shared vocabulary of the development: the type of computations that may stop the process,
  C++ vector access, byte strings, and the generic list lemmas the components use.

  A C++ \<^verbatim>\<open>char\<close> is a \<^typ>\<open>char\<close> (both have 256 values), so \<^verbatim>\<open>std::string\<close>, \<^verbatim>\<open>std::string_view\<close>
  and byte buffers are all \<^typ>\<open>string\<close>.  A computation that can fail a \<^verbatim>\<open>CHECK\<close>, reach
  \<^verbatim>\<open>LOG(FATAL)\<close>, call \<^verbatim>\<open>exit\<close> or touch memory out of range returns a value of type \<open>run\<close>; the
  reason is kept, so that a theorem can say which of them is excluded.
\<close>

unbundle bit_operations_syntax

named_theorems run_simps \<open>equations of the run type\<close>
named_theorems wire_simps \<open>equations of the wire formats\<close>

type_synonym u32 = "32 word"

section \<open>Computations that may stop the process\<close>

datatype stop =
    CheckFailed      \<comment> \<open>a \<^verbatim>\<open>CHECK\<close> macro\<close>
  | LogFatal         \<comment> \<open>\<^verbatim>\<open>LOG(FATAL)\<close>\<close>
  | ProcessExit      \<comment> \<open>\<^verbatim>\<open>exit(0)\<close>\<close>
  | OutOfRange       \<comment> \<open>an index past the end of a vector, a string or a buffer\<close>
  | BadAccess        \<comment> \<open>a dangling or null pointer\<close>
  | Uncaught         \<comment> \<open>a C++ exception: \<^verbatim>\<open>std::length_error\<close>, \<^verbatim>\<open>std::out_of_range\<close>, a failed allocation\<close>
  | OutOfFuel        \<comment> \<open>the bound of a model recursion, shown unreachable where it is used\<close>

datatype 'a run = Done 'a | Stop stop

primrec bindR :: "'a run \<Rightarrow> ('a \<Rightarrow> 'b run) \<Rightarrow> 'b run" where
  "bindR (Done x) f = f x"
| "bindR (Stop e) f = Stop e"

definition checkR :: "bool \<Rightarrow> unit run" where
  "checkR b = (if b then Done () else Stop CheckFailed)"

lemma bindR_cong [fundef_cong]:
  "m = m' \<Longrightarrow> (\<And>x. m' = Done x \<Longrightarrow> f x = g x) \<Longrightarrow> bindR m f = bindR m' g"
  by (cases m') auto

lemma bindR_Done_iff [simp]: "bindR m f = Done y \<longleftrightarrow> (\<exists>x. m = Done x \<and> f x = Done y)"
  by (cases m) auto

lemma bindR_Stop_iff: "bindR m f = Stop e \<longleftrightarrow> m = Stop e \<or> (\<exists>x. m = Done x \<and> f x = Stop e)"
  by (cases m) auto

lemma bindR_assoc: "bindR (bindR m f) g = bindR m (\<lambda>x. bindR (f x) g)"
  by (cases m) auto

lemma checkR_Done [simp]: "checkR b = Done u \<longleftrightarrow> b"
  by (simp add: checkR_def)

lemma checkR_True [simp]: "checkR True = Done ()"
  by (simp add: checkR_def)

text \<open>Hoare-style total statement: the computation ends normally and the result satisfies \<open>P\<close>.\<close>

definition ends :: "'a run \<Rightarrow> ('a \<Rightarrow> bool) \<Rightarrow> bool" where
  "ends m P \<longleftrightarrow> (\<exists>x. m = Done x \<and> P x)"

lemma ends_Done [simp]: "ends (Done x) P \<longleftrightarrow> P x"
  by (simp add: ends_def)

lemma ends_Stop [simp]: "\<not> ends (Stop e) P"
  by (simp add: ends_def)

lemma ends_bind: "ends m Q \<Longrightarrow> (\<And>x. Q x \<Longrightarrow> ends (f x) P) \<Longrightarrow> ends (bindR m f) P"
  by (auto simp: ends_def)

lemma ends_mono: "ends m Q \<Longrightarrow> (\<And>x. Q x \<Longrightarrow> P x) \<Longrightarrow> ends m P"
  by (auto simp: ends_def)

section \<open>Vector access\<close>

text \<open>\<^verbatim>\<open>v[i]\<close> of a \<^verbatim>\<open>std::vector\<close>: past the end it is undefined behaviour, here \<^const>\<open>OutOfRange\<close>.\<close>

definition at :: "'a list \<Rightarrow> nat \<Rightarrow> 'a run" where
  "at xs i = (if i < length xs then Done (xs ! i) else Stop OutOfRange)"

lemma at_Done [simp]: "at xs i = Done x \<longleftrightarrow> i < length xs \<and> xs ! i = x"
  by (auto simp: at_def)

lemma at_in [simp]: "i < length xs \<Longrightarrow> at xs i = Done (xs ! i)"
  by (simp add: at_def)

text \<open>
  A \<^verbatim>\<open>char\<close> of fresh, uninitialised memory (\<^verbatim>\<open>new char[n]\<close> without parentheses): some fixed
  value about which nothing can be proved.
\<close>

definition indeterminate :: char where
  "indeterminate = undefined"

text \<open>\<^verbatim>\<open>memcpy\<close>, \<^verbatim>\<open>memmove\<close> and \<^verbatim>\<open>std::copy\<close> of \<open>xs\<close> to offset \<open>off\<close> of a buffer.\<close>

definition store_at :: "string \<Rightarrow> nat \<Rightarrow> string \<Rightarrow> string run" where
  "store_at buf off xs =
     (if off + length xs \<le> length buf
      then Done (take off buf @ xs @ drop (off + length xs) buf) else Stop OutOfRange)"

section \<open>Lists\<close>

lemma drop_Cons_nth: "i < length xs \<Longrightarrow> drop i xs = xs ! i # drop (Suc i) xs"
  by (simp add: Cons_nth_drop_Suc)

lemma drop_update_swap_le: "i < n \<Longrightarrow> drop n (xs[i := x]) = drop n xs"
  by (rule nth_equalityI) auto

lemma concat_map_eq_Nil: "concat (map f xs) = [] \<longleftrightarrow> (\<forall>x \<in> set xs. f x = [])"
  by auto

end
