(* ===== verification/C_Text.thy ===== *)
theory C_Text
  imports Prelude "HOL-Library.Sublist"
begin

text \<open>
  The part of the C library that adb uses to turn numbers into text and back: \<^verbatim>\<open>%x\<close>, \<^verbatim>\<open>%04x\<close>,
  \<^verbatim>\<open>%d\<close>, \<^verbatim>\<open>%u\<close> and \<^verbatim>\<open>%s\<close> conversions, \<^verbatim>\<open>strtoul\<close> and its relatives, C strings, and the
  little-endian memory image of a \<^verbatim>\<open>uint32_t\<close>.
\<close>

section \<open>Digits\<close>

definition digit_char :: "nat \<Rightarrow> char" where
  "digit_char n = (if n < 10 then char_of (48 + n) else char_of (87 + n))"

text \<open>The value of a digit or letter in a base up to 36; 36 stands for any other character.\<close>

definition digit_value :: "char \<Rightarrow> nat" where
  "digit_value c =
     (let n = of_char c in
      if 48 \<le> n \<and> n \<le> 57 then n - 48
      else if 97 \<le> n \<and> n \<le> 122 then n - 87
      else if 65 \<le> n \<and> n \<le> 90 then n - 55
      else 36)"

definition is_digit_in :: "nat \<Rightarrow> char \<Rightarrow> bool" where
  "is_digit_in b c \<longleftrightarrow> digit_value c < b"

fun to_base :: "nat \<Rightarrow> nat \<Rightarrow> string" where
  "to_base b n = (if n < b \<or> b < 2 then [digit_char n] else to_base b (n div b) @ [digit_char (n mod b)])"

declare to_base.simps [simp del]

definition of_base :: "nat \<Rightarrow> string \<Rightarrow> nat" where
  "of_base b s = foldl (\<lambda>v c. v * b + digit_value c) 0 s"

definition pad0 :: "nat \<Rightarrow> string \<Rightarrow> string" where
  "pad0 w s = replicate (w - length s) CHR ''0'' @ s"

text \<open>\<^verbatim>\<open>%04x\<close> and \<^verbatim>\<open>%d\<close> of a non-negative number.\<close>

definition hex04 :: "nat \<Rightarrow> string" where
  "hex04 n = pad0 4 (to_base 16 n)"

definition dec :: "nat \<Rightarrow> string" where
  "dec n = to_base 10 n"

definition dec_int :: "int \<Rightarrow> string" where
  "dec_int i = (if i < 0 then CHR ''-'' # dec (nat (- i)) else dec (nat i))"

section \<open>C strings and strtoul\<close>

text \<open>The C string in a buffer: everything before the first NUL.\<close>

definition c_str :: "string \<Rightarrow> string" where
  "c_str s = takeWhile (\<lambda>c. c \<noteq> CHR 0x00) s"

definition is_space :: "char \<Rightarrow> bool" where
  "is_space c \<longleftrightarrow> c \<in> {CHR '' '', CHR 0x09, CHR 0x0A, CHR 0x0B, CHR 0x0C, CHR 0x0D}"

text \<open>
  What the \<^verbatim>\<open>strto*\<close> functions scan: blanks, a sign, a \<^verbatim>\<open>0x\<close> prefix in base 16 if a hex digit
  follows it, then digits.  The result is the sign, the digits, and the text the end pointer
  points to; with no digits the end pointer is the whole string.
\<close>

definition skip_prefix :: "nat \<Rightarrow> string \<Rightarrow> string" where
  "skip_prefix b s =
     (case s of
        c0 # x # d # r \<Rightarrow>
          if b = 16 \<and> c0 = CHR ''0'' \<and> (x = CHR ''x'' \<or> x = CHR ''X'') \<and> is_digit_in 16 d then d # r else s
      | _ \<Rightarrow> s)"

definition strto_scan :: "nat \<Rightarrow> string \<Rightarrow> bool \<times> string \<times> string" where
  "strto_scan b s =
     (let s1 = dropWhile is_space (c_str s);
          neg = (case s1 of c # _ \<Rightarrow> c = CHR ''-'' | [] \<Rightarrow> False);
          s2 = (case s1 of c # r \<Rightarrow> if c = CHR ''-'' \<or> c = CHR ''+'' then r else s1 | [] \<Rightarrow> []);
          s3 = skip_prefix b s2;
          ds = takeWhile (is_digit_in b) s3
      in if ds = [] then (False, [], c_str s) else (neg, ds, dropWhile (is_digit_in b) s3))"

text \<open>\<^verbatim>\<open>strtoul(s, nullptr, b)\<close> on a 64-bit \<^verbatim>\<open>unsigned long\<close>.\<close>

definition strtoul :: "nat \<Rightarrow> string \<Rightarrow> nat" where
  "strtoul b s =
     (case strto_scan b s of (neg, ds, rest) \<Rightarrow>
        let v = of_base b ds in
        if v \<ge> 2 ^ 64 then 2 ^ 64 - 1 else if neg then (2 ^ 64 - v) mod 2 ^ 64 else v)"

section \<open>Little-endian words\<close>

definition le32 :: "u32 \<Rightarrow> string" where
  "le32 w = map (\<lambda>i. char_of (unat (drop_bit (8 * i) w))) [0, 1, 2, 3]"

definition of_le32 :: "string \<Rightarrow> u32" where
  "of_le32 s = (case s of [a, b, c, d] \<Rightarrow>
     word_of_nat (of_char a + 256 * of_char b + 65536 * of_char c + 16777216 * of_char d) | _ \<Rightarrow> 0)"

section \<open>Lemmas\<close>

lemma digit_value_digit_char [simp]: "n < 16 \<Longrightarrow> digit_value (digit_char n) = n"
  by (auto simp: digit_value_def digit_char_def Let_def)

lemma of_base_append: "of_base b (s @ t) = foldl (\<lambda>v c. v * b + digit_value c) (of_base b s) t"
  by (simp add: of_base_def)

lemma of_base_snoc [simp]: "of_base b (s @ [c]) = of_base b s * b + digit_value c"
  by (simp add: of_base_append)

lemma of_base_to_base: "2 \<le> b \<Longrightarrow> b \<le> 16 \<Longrightarrow> of_base b (to_base b n) = n"
proof (induction b n rule: to_base.induct)
  case (1 b n)
  have "n mod b < 16" using "1.prems" by (meson mod_less_divisor less_le_trans order_less_le_trans zero_less_numeral)
  with 1 show ?case
    by (cases "n < b") (auto simp: to_base.simps [of b n], auto simp: of_base_def)
qed

lemma to_base_digits: "2 \<le> b \<Longrightarrow> b \<le> 16 \<Longrightarrow> \<forall>c\<in>set (to_base b n). is_digit_in b c"
proof (induction b n rule: to_base.induct)
  case (1 b n)
  have "n mod b < b" using "1.prems" by simp
  moreover from this have "n mod b < 16" using "1.prems" by linarith
  ultimately have "digit_value (digit_char (n mod b)) < b" by simp
  with 1 show ?case
    by (auto simp: to_base.simps [of b n] is_digit_in_def)
qed

lemma to_base_nonempty [simp]: "to_base b n \<noteq> []"
  by (subst to_base.simps) simp

lemma length_to_base: "2 \<le> b \<Longrightarrow> 0 < k \<Longrightarrow> length (to_base b n) \<le> k \<longleftrightarrow> n < b ^ k"
proof (induction b n arbitrary: k rule: to_base.induct)
  case (1 b n)
  show ?case
  proof (cases "n < b")
    case True
    moreover have "b \<le> b ^ k" using "1.prems" by (simp add: self_le_power)
    ultimately show ?thesis using "1.prems" by (simp add: to_base.simps [of b n])
  next
    case False
    show ?thesis
    proof (cases "k = 1")
      case True
      with False show ?thesis using "1.prems" by (simp add: to_base.simps [of b n] Suc_le_eq)
    next
      case k: False
      then obtain j where j: "k = Suc j" "0 < j" using "1.prems" by (cases k) auto
      have "length (to_base b (n div b)) \<le> j \<longleftrightarrow> n div b < b ^ j"
        using "1.IH" False "1.prems" j by simp
      also have "\<dots> \<longleftrightarrow> n < b ^ j * b" using "1.prems" by (simp add: div_less_iff_less_mult)
      finally show ?thesis using False "1.prems" j by (simp add: to_base.simps [of b n] mult.commute)
    qed
  qed
qed

lemma of_base_pad0 [simp]: "of_base b (pad0 w s) = of_base b s"
proof -
  have "of_base b (replicate k CHR ''0'') = 0" for k
    by (induction k) (simp_all add: of_base_def digit_value_def)
  then show ?thesis by (simp add: pad0_def of_base_append) (simp add: of_base_def)
qed

lemma pad0_digits: "0 < b \<Longrightarrow> \<forall>c\<in>set s. is_digit_in b c \<Longrightarrow> \<forall>c\<in>set (pad0 w s). is_digit_in b c"
  by (auto simp: pad0_def is_digit_in_def digit_value_def)

lemma hex04_value [simp]: "of_base 16 (hex04 n) = n"
  by (simp add: hex04_def of_base_to_base)

lemma hex04_digits: "\<forall>c\<in>set (hex04 n). is_digit_in 16 c"
  unfolding hex04_def by (rule pad0_digits) (simp_all add: to_base_digits)

lemma length_hex04: "length (hex04 n) = (if n < 65536 then 4 else length (to_base 16 n))"
  and hex04_long: "65536 \<le> n \<Longrightarrow> 4 < length (hex04 n)"
  using length_to_base [of 16 4 n] by (auto simp: hex04_def pad0_def)

lemma digit_not_special:
  assumes "is_digit_in 16 c"
  shows "c \<noteq> CHR 0x00" "\<not> is_space c" "c \<noteq> CHR ''-''" "c \<noteq> CHR ''+''" "c \<noteq> CHR ''x''" "c \<noteq> CHR ''X''"
  using assms by (auto simp: is_digit_in_def digit_value_def is_space_def)

lemma c_str_id: "CHR 0x00 \<notin> set s \<Longrightarrow> c_str s = s"
  by (auto simp: c_str_def takeWhile_eq_all_conv)

lemma strto_scan_digits:
  assumes "\<forall>c\<in>set s. is_digit_in b c" "b \<le> 16" "s \<noteq> []"
  shows "strto_scan b s = (False, s, [])"
proof -
  from assms have d: "\<forall>c\<in>set s. is_digit_in 16 c" by (auto simp: is_digit_in_def)
  then have c: "c_str s = s" using digit_not_special(1) by (intro c_str_id) blast
  obtain c0 r where s: "s = c0 # r" using assms(3) by (cases s) auto
  have c0: "is_digit_in 16 c0" using d s by simp
  have p: "skip_prefix b s = s"
    unfolding skip_prefix_def s using d digit_not_special(5,6) by (auto simp: s split: list.splits)
  have "takeWhile (is_digit_in b) s = s" "dropWhile (is_digit_in b) s = []"
    using assms(1) by (simp_all add: takeWhile_eq_all_conv dropWhile_eq_Nil_conv)
  moreover have "dropWhile is_space s = s" using digit_not_special(2) [OF c0] by (simp add: s)
  ultimately show ?thesis using p c digit_not_special(3,4) [OF c0]
    by (simp add: strto_scan_def Let_def s)
qed

lemma hex04_nonempty [simp]: "hex04 n \<noteq> []"
  by (simp add: hex04_def pad0_def)

lemma strtoul_hex04: "n < 65536 \<Longrightarrow> strtoul 16 (hex04 n) = n"
  by (simp add: strtoul_def strto_scan_digits [OF hex04_digits])

lemma length_le32 [simp]: "length (le32 w) = 4"
  by (simp add: le32_def)

lemma base256_sum:
  assumes "n < 4294967296"
  shows "n mod 256 + 256 * (n div 256 mod 256) + 65536 * (n div 65536 mod 256)
      + 16777216 * (n div 16777216 mod 256) = (n :: nat)"
proof -
  have "n div 16777216 mod 256 = n div 16777216" using assms by simp
  moreover have "n mod 16777216 = 65536 * (n div 65536 mod 256) + n mod 65536"
    using mod_mult2_eq [of n 65536 256] by simp
  moreover have "n mod 65536 = 256 * (n div 256 mod 256) + n mod 256"
    using mod_mult2_eq [of n 256 256] by simp
  moreover have "16777216 * (n div 16777216) + n mod 16777216 = n"
    by (rule mult_div_mod_eq)
  ultimately show ?thesis by (simp only: ac_simps)
qed

lemma le32_bytes:
  "le32 w = [char_of (unat w), char_of (unat w div 256), char_of (unat w div 65536), char_of (unat w div 16777216)]"
proof -
  have "unat (drop_bit k w) = unat w div 2 ^ k" for k
    by (subst unat_drop_bit_eq) (rule drop_bit_eq_div)
  then show ?thesis by (simp only: le32_def list.map) simp
qed

lemma of_le32_bytes:
  "of_le32 [a, b, c, d] = word_of_nat (of_char a + 256 * of_char b + 65536 * of_char c + 16777216 * of_char d)"
  by (simp only: of_le32_def list.case)

lemma of_le32_le32 [simp]: "of_le32 (le32 w) = w"
proof -
  have "unat w < 4294967296" using unsigned_less [of w] by simp
  note sum = base256_sum [OF this]
  have "of_le32 (le32 w) = word_of_nat (unat w)"
    by (simp only: le32_bytes of_le32_bytes of_char_of sum)
  also have "\<dots> = w" by (rule word_nat_cases [of w]) simp
  finally show ?thesis .
qed

end
