(* ===== verification/Adb_IO.thy ===== *)
theory Adb_IO
  imports C_Text
begin

text \<open>
  File descriptors and \<^verbatim>\<open>adb/adb_io.cpp\<close>.  A descriptor is the script of what the kernel will
  answer: the chunks, end of file and errors that successive reads meet, and the short writes and
  errors that successive writes meet.  When the read script is used up there is nothing to read
  (\<^verbatim>\<open>EAGAIN\<close>); when the write script is used up the descriptor takes everything.  Theorems
  quantify over all scripts, so they hold for every way the kernel may cut the stream.
\<close>

section \<open>File descriptors\<close>

datatype errno = EAGAIN | EPIPE | EOTHER nat

datatype rd_event = Avail string | Closed | RdFails errno

datatype wr_event = Accept nat | WrFails errno

datatype rd_result = RdBytes string | RdErr errno

datatype wr_result = WrBytes nat | WrErr errno

text \<open>\<^verbatim>\<open>adb_read(fd, buf, n)\<close>: at most \<open>n\<close> bytes; no bytes for \<open>n > 0\<close> means end of file.\<close>

fun adb_read :: "rd_event list \<Rightarrow> nat \<Rightarrow> rd_result \<times> rd_event list" where
  "adb_read [] n = (RdErr EAGAIN, [])"
| "adb_read (Avail bs # es) n =
     (if bs = [] then adb_read es n
      else if length bs \<le> n then (RdBytes bs, es)
      else (RdBytes (take n bs), Avail (drop n bs) # es))"
| "adb_read (Closed # es) n = (RdBytes [], Closed # es)"
| "adb_read (RdFails e # es) n = (RdErr e, es)"

text \<open>\<^verbatim>\<open>adb_write(fd, p, len)\<close> and \<^verbatim>\<open>adb_writev\<close> on the concatenated ranges.\<close>

fun adb_write :: "wr_event list \<Rightarrow> string \<Rightarrow> wr_result \<times> wr_event list" where
  "adb_write [] p = (WrBytes (length p), [])"
| "adb_write (Accept k # es) p = (WrBytes (min k (length p)), es)"
| "adb_write (WrFails e # es) p = (WrErr e, es)"

text \<open>The bytes that can be read before an end of file, an error or a would-block.\<close>

fun readable :: "rd_event list \<Rightarrow> string" where
  "readable [] = []"
| "readable (Avail bs # es) = bs @ readable es"
| "readable (Closed # es) = []"
| "readable (RdFails e # es) = []"

lemma adb_read_readable:
  assumes "0 < n"
  shows "case adb_read es n of
      (RdBytes bs, es') \<Rightarrow> length bs \<le> n \<and> readable es = bs @ readable es' \<and> (bs = [] \<longrightarrow> readable es = [])
    | (RdErr e, es') \<Rightarrow> readable es = []"
  using assms by (induction es n rule: adb_read.induct) (auto split: rd_result.splits)

section \<open>Exact reads and writes\<close>

text \<open>
  \<^verbatim>\<open>ReadFdExactly\<close>: what it returns, the bytes it put at the start of the buffer (all \<open>len\<close> of
  them exactly when it returns true), and the rest of the script.
\<close>

function ReadFdExactly :: "rd_event list \<Rightarrow> nat \<Rightarrow> bool \<times> string \<times> rd_event list" where
  "ReadFdExactly es len =
     (if len > 0 then
        (case adb_read es len of
           (RdBytes bs, es') \<Rightarrow>
             if bs \<noteq> [] then
               (case ReadFdExactly es' (len - length bs) of (ok, more, es'') \<Rightarrow> (ok, bs @ more, es''))
             else (False, [], es')
         | (RdErr e, es') \<Rightarrow> (False, [], es'))
      else (True, [], es))"
  by pat_completeness auto
termination
  by (relation "measure (\<lambda>(es, len). len)") auto

declare ReadFdExactly.simps [simp del]

text \<open>
  \<^verbatim>\<open>WriteFdExactly\<close>: whether it returns true, the bytes that went out, and the rest of the
  script.  \<^verbatim>\<open>EAGAIN\<close> is retried, any other error ends the call.
\<close>

function WriteFdExactly :: "wr_event list \<Rightarrow> string \<Rightarrow> bool \<times> string \<times> wr_event list" where
  "WriteFdExactly es p =
     (if p \<noteq> [] then
        (case adb_write es p of
           (WrErr e, es') \<Rightarrow>
             if e = EAGAIN then WriteFdExactly es' p else (False, [], es')
         | (WrBytes r, es') \<Rightarrow>
             (case WriteFdExactly es' (drop r p) of (ok, out, es'') \<Rightarrow> (ok, take r p @ out, es'')))
      else (True, [], es))"
  by pat_completeness auto

termination
proof (relation "measure (\<lambda>(es, p). length es + length p)", goal_cases)
  case 2
  then show ?case by (auto elim!: adb_write.elims [OF sym])
next
  case 3
  then show ?case by (auto elim!: adb_write.elims [OF sym])
qed simp

declare WriteFdExactly.simps [simp del]

lemma ReadFdExactly_ok:
  "len \<le> length (readable es) \<Longrightarrow>
     \<exists>es'. ReadFdExactly es len = (True, take len (readable es), es')
       \<and> readable es' = drop len (readable es)"
proof (induction es len rule: ReadFdExactly.induct)
  case (1 es len)
  show ?case
  proof (cases "len = 0")
    case True
    then show ?thesis by (simp add: ReadFdExactly.simps)
  next
    case False
    then obtain r es' where r: "adb_read es len = (r, es')" by fastforce
    note spec = adb_read_readable [of len es]
    show ?thesis
    proof (cases r)
      case (RdBytes bs)
      with r spec False have bs: "length bs \<le> len" "readable es = bs @ readable es'" "bs \<noteq> []"
        using "1.prems" by auto
      moreover from this "1.prems" have "len - length bs \<le> length (readable es')" by simp
      ultimately obtain es'' where
        "ReadFdExactly es' (len - length bs) = (True, take (len - length bs) (readable es'), es'')"
        "readable es'' = drop (len - length bs) (readable es')"
        using "1.IH" [of r es' bs] False r RdBytes by auto
      with False r RdBytes bs show ?thesis by (simp add: ReadFdExactly.simps [of es len])
    next
      case (RdErr e)
      with r spec False "1.prems" show ?thesis by simp
    qed
  qed
qed

lemma ReadFdExactly_short:
  "length (readable es) < len \<Longrightarrow> \<exists>bs es'. ReadFdExactly es len = (False, bs, es') \<and> length bs \<le> len"
proof (induction es len rule: ReadFdExactly.induct)
  case (1 es len)
  obtain r es' where r: "adb_read es len = (r, es')" by fastforce
  note spec = adb_read_readable [of len es]
  show ?case
  proof (cases r)
    case (RdBytes bs)
    with r spec "1.prems" have bs: "length bs \<le> len" "readable es = bs @ readable es'" by auto
    show ?thesis
    proof (cases "bs = []")
      case False
      moreover from bs "1.prems" have "length (readable es') < len - length bs" by simp
      ultimately obtain more es'' where
        "ReadFdExactly es' (len - length bs) = (False, more, es'')" "length more \<le> len - length bs"
        using "1.IH" [of r es' bs] r RdBytes "1.prems" by auto
      with bs r RdBytes "1.prems" False show ?thesis by (auto simp: ReadFdExactly.simps [of es len])
    qed (use r RdBytes "1.prems" in \<open>simp add: ReadFdExactly.simps [of es len]\<close>)
  next
    case (RdErr e)
    with r "1.prems" show ?thesis by (simp add: ReadFdExactly.simps [of es len])
  qed
qed

text \<open>Everything goes out in order, unless the descriptor fails; then a prefix went out.\<close>

definition no_hard_error :: "wr_event list \<Rightarrow> bool" where
  "no_hard_error es \<longleftrightarrow> (\<forall>ev\<in>set es. case ev of WrFails e \<Rightarrow> e = EAGAIN | Accept k \<Rightarrow> True)"

lemma adb_write_no_hard_error:
  "adb_write es p = (r, es') \<Longrightarrow> no_hard_error es \<Longrightarrow> no_hard_error es' \<and> r \<noteq> WrErr EPIPE \<and> (\<forall>n. r \<noteq> WrErr (EOTHER n))"
  by (elim adb_write.elims) (auto simp: no_hard_error_def)

lemma WriteFdExactly_prefix:
  "WriteFdExactly es p = (ok, out, es') \<Longrightarrow> prefix out p \<and> (ok \<longrightarrow> out = p)"
proof (induction es p arbitrary: ok out es' rule: WriteFdExactly.induct)
  case (1 es p)
  show ?case
  proof (cases "p = []")
    case False
    obtain r es1 where r: "adb_write es p = (r, es1)" by fastforce
    show ?thesis
    proof (cases r)
      case (WrBytes n)
      obtain ok2 out2 es2 where rec: "WriteFdExactly es1 (drop n p) = (ok2, out2, es2)"
        by (metis prod_cases3)
      with "1.prems" False r WrBytes have eq: "ok = ok2" "out = take n p @ out2"
        by (simp_all add: WriteFdExactly.simps [of es p])
      from "1.IH" (1) [OF False r [symmetric] WrBytes rec] eq show ?thesis
        by (metis append_take_drop_id same_prefix_prefix)
    next
      case (WrErr e)
      with "1.prems" "1.IH" (2) [OF False r [symmetric], of e] r False show ?thesis
        by (auto simp: WriteFdExactly.simps [of es p] split: if_splits)
    qed
  qed (use "1.prems" in \<open>auto simp: WriteFdExactly.simps\<close>)
qed

lemma WriteFdExactly_complete:
  "no_hard_error es \<Longrightarrow> \<exists>es'. WriteFdExactly es p = (True, p, es') \<and> no_hard_error es'"
proof (induction es p rule: WriteFdExactly.induct)
  case (1 es p)
  show ?case
  proof (cases "p = []")
    case False
    obtain r es1 where r: "adb_write es p = (r, es1)" by fastforce
    with "1.prems" have ok: "no_hard_error es1" "r \<noteq> WrErr EPIPE" "\<And>n. r \<noteq> WrErr (EOTHER n)"
      using adb_write_no_hard_error by blast+
    show ?thesis
    proof (cases r)
      case (WrBytes n)
      from "1.IH" (1) [OF False r [symmetric] WrBytes ok(1)] False r WrBytes show ?thesis
        by (auto simp: WriteFdExactly.simps [of es p])
    next
      case (WrErr e)
      with ok have "e = EAGAIN" by (cases e) auto
      with "1.IH" (2) [OF False r [symmetric] WrErr _ ok(1)] False r WrErr show ?thesis
        by (auto simp: WriteFdExactly.simps [of es p])
    qed
  qed (use "1.prems" in \<open>auto simp: WriteFdExactly.simps\<close>)
qed

section \<open>Byte sources and framed messages\<close>

text \<open>
  What a receiver of messages relies on: an exact read that returns the next bytes of a stream,
  however the stream is cut into chunks, and fails when there are not enough.
\<close>

locale byte_source =
  fixes rd :: "'c \<Rightarrow> nat \<Rightarrow> bool \<times> string \<times> 'c"
    and stream :: "'c \<Rightarrow> string"
  assumes rd_ok: "n \<le> length (stream c) \<Longrightarrow>
      \<exists>c'. rd c n = (True, take n (stream c), c') \<and> stream c' = drop n (stream c)"
    and rd_short: "length (stream c) < n \<Longrightarrow> \<exists>bs c'. rd c n = (False, bs, c')"
begin

lemma rd_append:
  assumes "stream c = xs @ rest"
  shows "\<exists>c'. rd c (length xs) = (True, xs, c') \<and> stream c' = rest"
  using rd_ok [of "length xs" c] assms by simp

lemma rd_true:
  assumes "rd c n = (True, bs, c')"
  shows "stream c = bs @ stream c' \<and> length bs = n"
  using assms rd_ok [of n c] rd_short [of c n] by (cases "n \<le> length (stream c)") auto

end

text \<open>Calling a receiver \<open>n\<close> times, until it fails.\<close>

primrec recv_many :: "('c \<Rightarrow> 'm option \<times> 'c) \<Rightarrow> nat \<Rightarrow> 'c \<Rightarrow> 'm list \<times> 'c" where
  "recv_many recv 0 c = ([], c)"
| "recv_many recv (Suc n) c =
     (case recv c of
        (None, c') \<Rightarrow> ([], c')
      | (Some m, c') \<Rightarrow> (case recv_many recv n c' of (ms, c'') \<Rightarrow> (m # ms, c'')))"

text \<open>
  A message format: \<open>recv\<close> takes one encoded message off the stream and leaves the rest.  Then a
  whole sequence of messages is received as it was sent.
\<close>

locale framing =
  fixes stream :: "'c \<Rightarrow> string"
    and recv :: "'c \<Rightarrow> 'm option \<times> 'c"
    and enc :: "'m \<Rightarrow> string"
    and valid :: "'m \<Rightarrow> bool"
  assumes recv_enc: "valid m \<Longrightarrow> stream c = enc m @ rest \<Longrightarrow> \<exists>c'. recv c = (Some m, c') \<and> stream c' = rest"
begin

lemma recv_many_enc:
  "list_all valid ms \<Longrightarrow> stream c = concat (map enc ms) @ rest \<Longrightarrow>
     \<exists>c'. recv_many recv (length ms) c = (ms, c') \<and> stream c' = rest"
proof (induction ms arbitrary: c)
  case (Cons m ms)
  then obtain c1 where "recv c = (Some m, c1)" "stream c1 = concat (map enc ms) @ rest"
    using recv_enc [of m c "concat (map enc ms) @ rest"] by auto
  with Cons.IH [of c1] Cons.prems show ?case by auto
qed simp

end

interpretation fds: byte_source ReadFdExactly readable
proof
  show "\<exists>c'. ReadFdExactly c n = (True, take n (readable c), c') \<and> readable c' = drop n (readable c)"
    if "n \<le> length (readable c)" for n c
    using ReadFdExactly_ok [OF that] by blast
  show "\<exists>bs c'. ReadFdExactly c n = (False, bs, c')" if "length (readable c) < n" for n c
    using ReadFdExactly_short [OF that] by blast
qed

section \<open>Protocol strings\<close>

definition MAX_PAYLOAD :: nat where
  "MAX_PAYLOAD = 1024 * 1024"

text \<open>\<^verbatim>\<open>unsigned int length = s.size()\<close> keeps 32 bits.\<close>

definition SendProtocolString :: "wr_event list \<Rightarrow> string \<Rightarrow> bool \<times> string \<times> wr_event list" where
  "SendProtocolString es s =
     (let len = length s mod 2 ^ 32 in
      if len > MAX_PAYLOAD - 4 then (False, [], es)
      else WriteFdExactly es (hex04 len @ s))"

datatype protocol_fault = NoStatusLength | NoStatusMessage

text \<open>The largest size of a \<^verbatim>\<open>std::string\<close> (libstdc++, 64 bit); \<^verbatim>\<open>resize\<close> throws past it.\<close>

definition string_max_size :: nat where
  "string_max_size = 2 ^ 62 - 1"

text \<open>The fault if any, the string left in \<^verbatim>\<open>*s\<close> (\<open>s0\<close> is its old value), and the descriptor.\<close>

definition ReadProtocolString ::
    "rd_event list \<Rightarrow> string \<Rightarrow> (protocol_fault option \<times> string \<times> rd_event list) run" where
  "ReadProtocolString es s0 =
     (case ReadFdExactly es 4 of
        (False, _, es1) \<Rightarrow> Done (Some NoStatusLength, s0, es1)
      | (True, buf, es1) \<Rightarrow>
          let len = strtoul 16 (buf @ [CHR 0x00]) in
          if len > string_max_size then Stop Uncaught
          else (case ReadFdExactly es1 len of
                  (ok, bs, es2) \<Rightarrow>
                    Done (if ok then None else Some NoStatusMessage,
                          bs @ replicate (len - length bs) CHR 0x00, es2)))"

definition SendOkay :: "wr_event list \<Rightarrow> bool \<times> string \<times> wr_event list" where
  "SendOkay es = WriteFdExactly es ''OKAY''"

definition SendFail :: "wr_event list \<Rightarrow> string \<Rightarrow> bool \<times> string \<times> wr_event list" where
  "SendFail es reason =
     (case WriteFdExactly es ''FAIL'' of
        (False, out, es1) \<Rightarrow> (False, out, es1)
      | (True, out, es1) \<Rightarrow>
          (case SendProtocolString es1 reason of (ok, out2, es2) \<Rightarrow> (ok, out @ out2, es2)))"

text \<open>
  \<^verbatim>\<open>ReadOrderlyShutdown\<close>: what it returns, and whether it shut the socket down because data came.
\<close>

definition ReadOrderlyShutdown :: "rd_event list \<Rightarrow> (bool \<times> bool \<times> rd_event list) run" where
  "ReadOrderlyShutdown es =
     (case adb_read es 16 of
        (RdErr e, es') \<Rightarrow> bindR (checkR (e \<noteq> EAGAIN)) (\<lambda>_. Done (False, False, es'))
      | (RdBytes [], es') \<Rightarrow> Done (True, False, es')
      | (RdBytes (_ # _), es') \<Rightarrow> Done (False, True, es'))"

text \<open>The receiver of a protocol string as a client sees it.\<close>

definition recv_string :: "rd_event list \<Rightarrow> string option \<times> rd_event list" where
  "recv_string es =
     (case ReadProtocolString es [] of
        Done (None, s, es') \<Rightarrow> (Some s, es')
      | Done (Some _, _, es') \<Rightarrow> (None, es')
      | Stop _ \<Rightarrow> (None, es))"

definition protocol_string :: "string \<Rightarrow> string" where
  "protocol_string s = hex04 (length s) @ s"

definition fits_protocol_string :: "string \<Rightarrow> bool" where
  "fits_protocol_string s \<longleftrightarrow> length s < 65536"

lemma strtoul_terminated: "CHR 0x00 \<notin> set s \<Longrightarrow> strtoul b (s @ [CHR 0x00]) = strtoul b s"
proof -
  assume "CHR 0x00 \<notin> set s"
  then have "c_str (s @ [CHR 0x00]) = c_str s" by (simp add: c_str_def takeWhile_tail)
  then show ?thesis by (simp only: strtoul_def strto_scan_def)
qed

lemma hex04_no_nul: "CHR 0x00 \<notin> set (hex04 n)"
  using hex04_digits digit_not_special(1) by blast

lemma ReadProtocolString_ok:
  assumes "length s < 65536" "readable es = protocol_string s @ rest"
  shows "\<exists>es'. ReadProtocolString es s0 = Done (None, s, es') \<and> readable es' = rest"
proof -
  let ?n = "length s"
  have len4: "length (hex04 ?n) = 4" using assms(1) by (simp add: length_hex04)
  have "readable es = hex04 ?n @ (s @ rest)" using assms(2) by (simp add: protocol_string_def)
  from fds.rd_append [OF this] obtain es1 where
    r1: "ReadFdExactly es 4 = (True, hex04 ?n, es1)" "readable es1 = s @ rest" unfolding len4 by blast
  from fds.rd_append [OF r1(2)] obtain es2 where
    r2: "ReadFdExactly es1 ?n = (True, s, es2)" "readable es2 = rest" by blast
  have n: "strtoul 16 (hex04 ?n @ [CHR 0x00]) = ?n"
    using assms(1) by (simp only: strtoul_terminated [OF hex04_no_nul] strtoul_hex04)
  have "\<not> string_max_size < ?n" using assms(1) by (simp add: string_max_size_def)
  then have "ReadProtocolString es s0 = Done (None, s, es2)"
    by (simp add: ReadProtocolString_def r1(1) n r2(1))
  with r2(2) show ?thesis by blast
qed

interpretation pstr: framing readable recv_string protocol_string fits_protocol_string
proof
  fix s c rest
  assume "fits_protocol_string s" "readable c = protocol_string s @ rest"
  then show "\<exists>c'. recv_string c = (Some s, c') \<and> readable c' = rest"
    using ReadProtocolString_ok [of s c rest "[]"] by (auto simp: recv_string_def fits_protocol_string_def)
qed

lemma SendProtocolString_bytes:
  assumes "length s \<le> MAX_PAYLOAD - 4" "no_hard_error es"
  shows "\<exists>es'. SendProtocolString es s = (True, protocol_string s, es') \<and> no_hard_error es'"
  using assms WriteFdExactly_complete [of es "hex04 (length s) @ s"]
  by (simp add: SendProtocolString_def protocol_string_def MAX_PAYLOAD_def)

lemma SendFail_bytes:
  assumes "length s \<le> MAX_PAYLOAD - 4" "no_hard_error es"
  shows "\<exists>es'. SendFail es s = (True, ''FAIL'' @ protocol_string s, es') \<and> no_hard_error es'"
proof -
  obtain es1 where 1: "WriteFdExactly es ''FAIL'' = (True, ''FAIL'', es1)" "no_hard_error es1"
    using WriteFdExactly_complete [OF assms(2)] by blast
  with SendProtocolString_bytes [OF assms(1) 1(2)] show ?thesis by (auto simp: SendFail_def)
qed

text \<open>The bytes a sequence of \<^const>\<open>SendProtocolString\<close> calls puts on the wire, each with its own script.\<close>

definition sent_strings :: "(wr_event list \<times> string) list \<Rightarrow> string" where
  "sent_strings calls = concat (map (\<lambda>(es, s). fst (snd (SendProtocolString es s))) calls)"

lemma sent_strings_eq:
  assumes "\<forall>(es, s)\<in>set calls. no_hard_error es \<and> length s \<le> MAX_PAYLOAD - 4"
  shows "sent_strings calls = concat (map protocol_string (map snd calls))"
proof -
  have "fst (snd (SendProtocolString es s)) = protocol_string s" if "(es, s) \<in> set calls" for es s
    using assms that SendProtocolString_bytes [of s es] by fastforce
  then have "map (\<lambda>(es, s). fst (snd (SendProtocolString es s))) calls = map protocol_string (map snd calls)"
    by auto
  then show ?thesis by (simp only: sent_strings_def)
qed

section \<open>Properties\<close>

text \<open>C24: \<^verbatim>\<open>ReadFdExactly\<close> does not depend on how the stream is cut into chunks: it returns true
  with the next \<open>len\<close> bytes, and leaves the stream right after them, when that many come before an
  end of file, error or would-block, and returns false otherwise.\<close>

theorem ReadFdExactly_exact:
  "if len \<le> length (readable es)
   then \<exists>es'. ReadFdExactly es len = (True, take len (readable es), es') \<and> readable es' = drop len (readable es)
   else fst (ReadFdExactly es len) = False"
  using ReadFdExactly_ok [of len es] ReadFdExactly_short [of es len] by auto


text \<open>C26: strings of at most 65535 bytes survive the round trip through \<^verbatim>\<open>SendProtocolString\<close> and
  \<^verbatim>\<open>ReadProtocolString\<close>, one after the other, with any short writes and any chunking of reads.\<close>

theorem protocol_strings_round_trip:
  assumes "\<forall>(ws, s)\<in>set calls. no_hard_error ws \<and> length s < 65536"
    and "readable es = sent_strings calls @ rest"
  shows "\<exists>es'. recv_many recv_string (length calls) es = (map snd calls, es') \<and> readable es' = rest"
proof -
  have "\<forall>(ws, s)\<in>set calls. no_hard_error ws \<and> length s \<le> MAX_PAYLOAD - 4"
    using assms(1) by (auto simp: MAX_PAYLOAD_def)
  from sent_strings_eq [OF this] assms(2)
  have "readable es = concat (map protocol_string (map snd calls)) @ rest" by simp
  moreover have "list_all fits_protocol_string (map snd calls)"
    using assms(1) by (auto simp: list_all_iff fits_protocol_string_def)
  ultimately show ?thesis using pstr.recv_many_enc [of "map snd calls" es rest] by simp
qed

lemma hex04_examples: "hex04 0 = ''0000''" "hex04 (Suc (Suc 0)) = ''0002''"
  by code_simp+

theorem protocol_strings_round_trip_witness:
  "\<exists>es'. recv_many recv_string 2 [Avail ''00'', Avail ''02o'', Avail ''k0000x''] = ([''ok'', []], es')
     \<and> readable es' = ''x''"
proof -
  let ?calls = "[([Accept 1, WrFails EAGAIN], ''ok''), ([], [])]"
  have "sent_strings ?calls = ''0002ok0000''"
    by (simp add: sent_strings_def SendProtocolString_def MAX_PAYLOAD_def WriteFdExactly.simps hex04_examples)
  then show ?thesis
    using protocol_strings_round_trip [of ?calls "[Avail ''00'', Avail ''02o'', Avail ''k0000x'']" "''x''"]
    by (simp add: no_hard_error_def numeral_2_eq_2)
qed

lemma hex04_five:
  assumes "65536 \<le> n" "n < 1048576"
  shows "hex04 n = hex04 (n div 16) @ [digit_char (n mod 16)]" "length (hex04 (n div 16)) = 4"
proof -
  have "length (to_base 16 (n div 16)) = 4"
    using assms length_to_base [of 16 4 "n div 16"] length_to_base [of 16 3 "n div 16"] by auto
  then show "length (hex04 (n div 16)) = 4" "hex04 n = hex04 (n div 16) @ [digit_char (n mod 16)]"
    using assms by (simp_all add: hex04_def pad0_def to_base.simps [of 16 n])
qed

text \<open>C35: \<^verbatim>\<open>SendProtocolString\<close> accepts strings of 65536 bytes and more (up to \<^verbatim>\<open>MAX_PAYLOAD - 4\<close>) and
  reports success, but the length then takes five digits while \<^verbatim>\<open>ReadProtocolString\<close> takes four: the
  receiver gets a string a sixteenth as long, and the rest stays in the stream.\<close>

theorem long_protocol_string_garbled:
  assumes "65536 \<le> length s" "length s \<le> MAX_PAYLOAD - 4" "no_hard_error ws"
    and "readable es = fst (snd (SendProtocolString ws s)) @ rest"
  shows "fst (SendProtocolString ws s) \<and>
    (\<exists>t es'. recv_string es = (Some t, es') \<and> length t = length s div 16 \<and> t \<noteq> s)"
proof -
  let ?n = "length s" and ?m = "length s div 16" and ?d = "digit_char (length s mod 16)"
  have n: "65536 \<le> ?n" "?n < 1048576" "?m < 65536" using assms by (simp_all add: MAX_PAYLOAD_def)
  obtain ws' where w: "SendProtocolString ws s = (True, protocol_string s, ws')"
    using SendProtocolString_bytes assms by blast
  have "readable es = hex04 ?m @ ?d # s @ rest"
    using assms(4) w hex04_five [OF n(1,2)] by (simp add: protocol_string_def)
  also have "\<dots> = protocol_string (take ?m (?d # s)) @ drop ?m (?d # s) @ rest"
  proof -
    have "length (take ?m (?d # s)) = ?m" by simp
    then have "protocol_string (take ?m (?d # s)) = hex04 ?m @ take ?m (?d # s)"
      by (simp only: protocol_string_def)
    moreover have "?d # s @ rest = take ?m (?d # s) @ drop ?m (?d # s) @ rest"
      by (metis append_Cons append_assoc append_take_drop_id)
    ultimately show ?thesis by (simp only: append_assoc)
  qed
  finally have "readable es = protocol_string (take ?m (?d # s)) @ drop ?m (?d # s) @ rest" .
  from ReadProtocolString_ok [OF _ this, of "[]"] n obtain es' where
    r: "ReadProtocolString es [] = Done (None, take ?m (?d # s), es')" by auto
  have "length (take ?m (?d # s)) = ?m" by simp
  moreover from this n have "take ?m (?d # s) \<noteq> s" by force
  ultimately show ?thesis using r w by (auto simp: recv_string_def)
qed

theorem long_protocol_string_garbled_witness:
  "\<exists>t es'. recv_string [Avail (protocol_string (replicate 70000 CHR ''a''))] = (Some t, es')
     \<and> length t = 4375 \<and> t \<noteq> replicate 70000 CHR ''a''"
proof -
  let ?s = "replicate 70000 CHR ''a''"
  have ok: "no_hard_error []" by (simp add: no_hard_error_def)
  obtain ws' where "SendProtocolString [] ?s = (True, protocol_string ?s, ws')"
    using SendProtocolString_bytes [of ?s "[]"] ok by (auto simp: MAX_PAYLOAD_def)
  with long_protocol_string_garbled [of ?s "[]" "[Avail (protocol_string ?s)]" "[]"] ok
  show ?thesis by (simp add: MAX_PAYLOAD_def)
qed

end
