(* ===== verification/Shell_Protocol.thy ===== *)
theory Shell_Protocol
  imports Adb_IO
begin

text \<open>
  The shell protocol (\<^verbatim>\<open>adb/shell_protocol.h\<close>, \<^verbatim>\<open>adb/shell_service_protocol.cpp\<close>): packets of an id
  byte, a 32-bit length and data.  The receiver's buffer may be smaller than a packet; \<^verbatim>\<open>Read\<close> then
  hands it out in pieces.
\<close>

section \<open>State and operations\<close>

datatype shell_id = kIdStdin | kIdStdout | kIdStderr | kIdExit | kIdCloseStdin | kIdWindowSizeChange | kIdInvalid

primrec id_byte :: "shell_id \<Rightarrow> char" where
  "id_byte kIdStdin = CHR 0x00"
| "id_byte kIdStdout = CHR 0x01"
| "id_byte kIdStderr = CHR 0x02"
| "id_byte kIdExit = CHR 0x03"
| "id_byte kIdCloseStdin = CHR 0x04"
| "id_byte kIdWindowSizeChange = CHR 0x05"
| "id_byte kIdInvalid = CHR 0xFF"

text \<open>
  \<open>sp_buffer\<close> is \<^verbatim>\<open>buffer_\<close>, \<open>sp_end\<close> the offset of \<^verbatim>\<open>buffer_end_\<close> in it; \<^verbatim>\<open>kHeaderSize\<close> is 5.
\<close>

record shell_protocol =
  sp_buffer :: string
  sp_end :: nat
  sp_data_length :: nat
  sp_bytes_left :: nat

definition ShellProtocol_new :: shell_protocol where
  "ShellProtocol_new = \<lparr>sp_buffer = id_byte kIdInvalid # replicate (MAX_PAYLOAD - 1) indeterminate,
     sp_end = MAX_PAYLOAD, sp_data_length = 0, sp_bytes_left = 0\<rparr>"

definition data_capacity :: "shell_protocol \<Rightarrow> nat" where
  "data_capacity sp = sp_end sp - 5"

text \<open>\<^verbatim>\<open>id()\<close> and the \<^verbatim>\<open>data_length()\<close> bytes at \<^verbatim>\<open>data()\<close>.\<close>

definition sp_id :: "shell_protocol \<Rightarrow> char" where
  "sp_id sp = hd (sp_buffer sp)"

definition sp_data :: "shell_protocol \<Rightarrow> string" where
  "sp_data sp = take (sp_data_length sp) (drop 5 (sp_buffer sp))"

text \<open>
  \<^verbatim>\<open>ShellProtocol::Read\<close>.  The bytes a failing read has already taken are in the buffer as well.
\<close>

definition read_body :: "shell_protocol \<Rightarrow> rd_event list \<Rightarrow> (bool \<times> shell_protocol \<times> rd_event list) run" where
  "read_body sp es =
     (let read_length = min (sp_bytes_left sp) (data_capacity sp) in
      case (if read_length \<noteq> 0 then ReadFdExactly es read_length else (True, [], es)) of
        (ok, bs, es') \<Rightarrow>
          bindR (store_at (sp_buffer sp) 5 bs) (\<lambda>buf.
            if ok then Done (True, sp\<lparr>sp_buffer := buf, sp_bytes_left := sp_bytes_left sp - read_length,
                                     sp_data_length := read_length\<rparr>, es')
            else Done (False, sp\<lparr>sp_buffer := buf\<rparr>, es')))"

definition ShellProtocol_Read :: "shell_protocol \<Rightarrow> rd_event list \<Rightarrow> (bool \<times> shell_protocol \<times> rd_event list) run" where
  "ShellProtocol_Read sp es =
     (if sp_bytes_left sp = 0 then
        (case ReadFdExactly es 5 of (ok, bs, es1) \<Rightarrow>
           bindR (store_at (sp_buffer sp) 0 bs) (\<lambda>buf.
             if \<not> ok then Done (False, sp\<lparr>sp_buffer := buf\<rparr>, es1)
             else read_body (sp\<lparr>sp_buffer := buf, sp_bytes_left := unat (of_le32 (take 4 (drop 1 buf))),
                               sp_data_length := 0\<rparr>) es1))
      else read_body sp es)"

text \<open>
  \<^verbatim>\<open>ShellProtocol::Write\<close>: header into the buffer, with the length cut to 32 bits, then header and
  data to the descriptor.
\<close>

definition ShellProtocol_Write ::
    "shell_protocol \<Rightarrow> wr_event list \<Rightarrow> shell_id \<Rightarrow> nat \<Rightarrow> (bool \<times> string \<times> shell_protocol \<times> wr_event list) run" where
  "ShellProtocol_Write sp ws i len =
     bindR (store_at (sp_buffer sp) 0 (id_byte i # le32 (word_of_nat len))) (\<lambda>buf.
       if 5 + len > length buf then Stop OutOfRange
       else (case WriteFdExactly ws (take (5 + len) buf) of
               (ok, out, ws') \<Rightarrow> Done (ok, out, sp\<lparr>sp_buffer := buf\<rparr>, ws')))"

text \<open>Up to \<open>n\<close> successful reads, with the id and data the caller sees after each.\<close>

primrec shell_reads ::
    "nat \<Rightarrow> shell_protocol \<Rightarrow> rd_event list \<Rightarrow> ((char \<times> string) list \<times> shell_protocol \<times> rd_event list) run" where
  "shell_reads 0 sp es = Done ([], sp, es)"
| "shell_reads (Suc n) sp es =
     bindR (ShellProtocol_Read sp es) (\<lambda>(ok, sp1, es1).
       if ok then bindR (shell_reads n sp1 es1) (\<lambda>(l, sp2, es2). Done ((sp_id sp1, sp_data sp1) # l, sp2, es2))
       else Done ([], sp1, es1))"

section \<open>Lemmas\<close>

definition sp_ok :: "shell_protocol \<Rightarrow> bool" where
  "sp_ok sp \<longleftrightarrow> 5 < sp_end sp \<and> sp_end sp \<le> length (sp_buffer sp)"

definition shell_packet :: "char \<Rightarrow> string \<Rightarrow> string" where
  "shell_packet i d = i # le32 (word_of_nat (length d)) @ d"

lemma read_body_ok:
  assumes "sp_ok sp" "readable es = d @ rest" "length d = sp_bytes_left sp"
  defines "n \<equiv> min (length d) (data_capacity sp)"
  shows "\<exists>sp' es'. read_body sp es = Done (True, sp', es') \<and> sp_ok sp' \<and> sp_id sp' = sp_id sp
    \<and> sp_end sp' = sp_end sp \<and> sp_data sp' = take n d \<and> sp_bytes_left sp' = length d - n
    \<and> readable es' = drop n d @ rest"
proof -
  have n: "n \<le> length d" "n + 5 \<le> length (sp_buffer sp)"
    using assms(1) by (auto simp: n_def data_capacity_def sp_ok_def)
  obtain es' where r: "(if n \<noteq> 0 then ReadFdExactly es n else (True, [], es)) = (True, take n d, es')"
      "readable es' = drop n d @ rest"
    using fds.rd_ok [of n es] assms(2) n by (cases "n = 0") auto
  let ?buf = "take 5 (sp_buffer sp) @ take n d @ drop (5 + n) (sp_buffer sp)"
  have st: "store_at (sp_buffer sp) 5 (take n d) = Done ?buf" using n by (simp add: store_at_def)
  let ?sp = "sp\<lparr>sp_buffer := ?buf, sp_bytes_left := sp_bytes_left sp - n, sp_data_length := n\<rparr>"
  have "read_body sp es = Done (True, ?sp, es')"
  proof -
    have "min (sp_bytes_left sp) (data_capacity sp) = n" using assms(3) by (simp add: n_def)
    then show ?thesis unfolding read_body_def Let_def by (simp only: r(1) prod.case st bindR.simps if_True)
  qed
  moreover have "length ?buf = length (sp_buffer sp)" "sp_buffer sp \<noteq> []" using n by auto
  ultimately show ?thesis using assms(1,3) n r(2)
    by (auto simp: sp_ok_def sp_id_def sp_data_def hd_append)
qed

lemma ceil_div_step:
  assumes "0 < c" "0 < (m :: nat)"
  shows "(m + c - 1) div c = Suc ((m - min m c + c - 1) div c)"
proof (cases "m \<le> c")
  case True
  have "(m + c - 1) div c = 1" using True assms by (intro div_nat_eqI) auto
  with True assms show ?thesis by simp
next
  case False
  then have "m + c - 1 = (m - 1) + c" "m - min m c + c - 1 = m - 1" using assms by linarith+
  with assms show ?thesis by (simp only: div_add_self2)
qed

lemma shell_reads_rest:
  "sp_ok sp \<Longrightarrow> readable es = d @ rest \<Longrightarrow> length d = sp_bytes_left sp \<Longrightarrow>
     n = (length d + data_capacity sp - 1) div data_capacity sp \<Longrightarrow>
     \<exists>l sp' es'. shell_reads n sp es = Done (l, sp', es') \<and> length l = n \<and> concat (map snd l) = d
       \<and> (\<forall>(i, x)\<in>set l. i = sp_id sp \<and> length x \<le> data_capacity sp \<and> x \<noteq> [])
       \<and> sp_ok sp' \<and> sp_bytes_left sp' = 0 \<and> sp_end sp' = sp_end sp \<and> readable es' = rest"
proof (induction n arbitrary: sp es d)
  case 0
  then have "0 < data_capacity sp" by (simp add: data_capacity_def sp_ok_def)
  with 0 have "d = []" by (cases d) (auto simp: Suc_diff_Suc div_eq_0_iff)
  with 0 show ?case by simp
next
  case (Suc n)
  let ?cap = "data_capacity sp"
  have cap: "0 < ?cap" using Suc.prems by (simp add: data_capacity_def sp_ok_def)
  have d: "d \<noteq> []" using Suc.prems(4) cap by (cases d) auto
  let ?m = "min (length d) ?cap"
  obtain sp1 es1 where 1: "read_body sp es = Done (True, sp1, es1)" "sp_ok sp1" "sp_id sp1 = sp_id sp"
      "sp_end sp1 = sp_end sp" "sp_data sp1 = take ?m d" "sp_bytes_left sp1 = length d - ?m"
      "readable es1 = drop ?m d @ rest"
    using read_body_ok [OF Suc.prems(1,2,3)] by blast
  have rd: "ShellProtocol_Read sp es = Done (True, sp1, es1)"
  proof -
    have "sp_bytes_left sp \<noteq> 0" using Suc.prems(3) d by (metis length_0_conv)
    with 1(1) show ?thesis by (simp add: ShellProtocol_Read_def)
  qed
  have cap1: "data_capacity sp1 = ?cap" using 1(4) by (simp add: data_capacity_def)
  have "n = (length (drop ?m d) + ?cap - 1) div ?cap"
    using Suc.prems(4) ceil_div_step [OF cap, of "length d"] d by simp
  then obtain l sp2 es2 where 2: "shell_reads n sp1 es1 = Done (l, sp2, es2)" "length l = n"
      "concat (map snd l) = drop ?m d" "\<forall>(i, x)\<in>set l. i = sp_id sp1 \<and> length x \<le> data_capacity sp1 \<and> x \<noteq> []"
      "sp_ok sp2" "sp_bytes_left sp2 = 0" "sp_end sp2 = sp_end sp1" "readable es2 = rest"
    using Suc.IH [OF 1(2) 1(7)] 1(6) cap1 by auto
  have "shell_reads (Suc n) sp es = Done ((sp_id sp, take ?m d) # l, sp2, es2)"
    using rd 2(1) 1(3,5) by simp
  moreover have "take ?m d \<noteq> []" "length (take ?m d) \<le> ?cap" using d cap by auto
  moreover have "concat (map snd ((sp_id sp, take ?m d) # l)) = d" using 2(3) by simp
  ultimately show ?case using 1(3,4) 2(2,4-8) cap1
    by (intro exI [of _ "(sp_id sp, take ?m d) # l"] exI [of _ sp2] exI [of _ es2] conjI) (simp_all del: shell_reads.simps)
qed

lemma ShellProtocol_Read_header:
  assumes "sp_ok sp" "sp_bytes_left sp = 0" "readable es = shell_packet i d @ rest" "length d < 2 ^ 32"
  obtains sp1 es1 where "ShellProtocol_Read sp es = read_body sp1 es1" "sp_ok sp1" "sp_id sp1 = i"
    "sp_bytes_left sp1 = length d" "sp_end sp1 = sp_end sp" "readable es1 = d @ rest"
proof -
  let ?h = "i # le32 (word_of_nat (length d))"
  have "readable es = ?h @ (d @ rest)" using assms(3) by (simp add: shell_packet_def)
  from fds.rd_append [OF this] obtain es1 where
    1: "ReadFdExactly es 5 = (True, ?h, es1)" "readable es1 = d @ rest" by auto
  let ?buf = "?h @ drop 5 (sp_buffer sp)"
  have len: "5 \<le> length (sp_buffer sp)" using assms(1) by (simp add: sp_ok_def)
  then have st: "store_at (sp_buffer sp) 0 ?h = Done ?buf" by (simp add: store_at_def)
  let ?sp = "sp\<lparr>sp_buffer := ?buf, sp_bytes_left := length d, sp_data_length := 0\<rparr>"
  have "unat (word_of_nat (length d) :: u32) = length d" using assms(4) by (simp add: unat_of_nat)
  moreover have "take 4 (drop 1 ?buf) = le32 (word_of_nat (length d))" by simp
  ultimately have "ShellProtocol_Read sp es = read_body ?sp es1"
    using 1(1) st assms(2) by (simp add: ShellProtocol_Read_def)
  moreover have "sp_ok ?sp" using assms(1) len by (auto simp: sp_ok_def)
  ultimately show ?thesis using that [of ?sp es1] 1(2) by (simp add: sp_id_def)
qed

lemma ShellProtocol_Write_bytes:
  assumes "ShellProtocol_Write sp ws i len = Done (True, out, sp', ws')"
  shows "out = shell_packet (id_byte i) (take len (drop 5 (sp_buffer sp))) \<and> 5 + len \<le> length (sp_buffer sp)"
proof -
  let ?h = "id_byte i # le32 (word_of_nat len)"
  from assms have len: "5 + len \<le> length (sp_buffer sp)"
    by (auto simp: ShellProtocol_Write_def store_at_def split: if_splits)
  then have "store_at (sp_buffer sp) 0 ?h = Done (?h @ drop 5 (sp_buffer sp))" by (simp add: store_at_def)
  with assms len have "out = take (5 + len) (?h @ drop 5 (sp_buffer sp))"
    by (auto simp: ShellProtocol_Write_def dest: WriteFdExactly_prefix split: prod.splits if_splits)
  moreover have "take (5 + len) (?h @ drop 5 (sp_buffer sp)) = ?h @ take len (drop 5 (sp_buffer sp))"
    by (subst take_append) simp
  moreover have "length (take len (drop 5 (sp_buffer sp))) = len" using len by simp
  ultimately show ?thesis using len by (simp only: shell_packet_def append_Cons)
qed

section \<open>Properties\<close>

text \<open>C27: what one side writes with \<^verbatim>\<open>ShellProtocol::Write\<close> the other side gets from \<^verbatim>\<open>Read\<close>: the first
  \<open>max 1 (ceil (len / capacity))\<close> reads all succeed with the id of the packet, the pieces fit the
  reader's buffer and join to the data, no more of the packet is left, and the stream stands at the
  byte after it; whatever the two buffer sizes and however the bytes are cut up.\<close>

theorem shell_packet_round_trip:
  assumes "ShellProtocol_Write sp ws i len = Done (True, out, spw, ws')" "len < 2 ^ 32"
    and "sp_ok sr" "sp_bytes_left sr = 0" "readable es = out @ rest"
    and "n = max 1 ((len + data_capacity sr - 1) div data_capacity sr)"
  shows "\<exists>l sr' es'. shell_reads n sr es = Done (l, sr', es') \<and> length l = n
    \<and> concat (map snd l) = take len (drop 5 (sp_buffer sp))
    \<and> (\<forall>(j, x)\<in>set l. j = id_byte i \<and> length x \<le> data_capacity sr)
    \<and> sp_bytes_left sr' = 0 \<and> readable es' = rest"
proof -
  let ?d = "take len (drop 5 (sp_buffer sp))"
  have out: "out = shell_packet (id_byte i) ?d" and len: "length ?d = len"
    using ShellProtocol_Write_bytes [OF assms(1)] by auto
  obtain s1 es1 where 1: "ShellProtocol_Read sr es = read_body s1 es1" "sp_ok s1" "sp_id s1 = id_byte i"
      "sp_bytes_left s1 = len" "sp_end s1 = sp_end sr" "readable es1 = ?d @ rest"
    using ShellProtocol_Read_header [OF assms(3,4), of es "id_byte i" ?d rest] assms(2,5) out len by auto
  have cap: "data_capacity s1 = data_capacity sr" using 1(5) by (simp add: data_capacity_def)
  show ?thesis
  proof (cases "len = 0")
    case True
    with read_body_ok [OF 1(2,6)] len 1(4) obtain s2 es2 where
      "read_body s1 es1 = Done (True, s2, es2)" "sp_id s2 = id_byte i" "sp_data s2 = []"
      "sp_bytes_left s2 = 0" "readable es2 = rest" using 1(3) by auto
    moreover have "0 < data_capacity sr" using assms(3) by (simp add: data_capacity_def sp_ok_def)
    ultimately show ?thesis using 1(1) True assms(6) by simp
  next
    case False
    have capp: "0 < data_capacity sr" using assms(3) by (simp add: data_capacity_def sp_ok_def)
    define k where "k = (len + data_capacity sr - 1) div data_capacity sr"
    have "0 < k" using False capp unfolding k_def by (simp add: div_greater_zero_iff)
    then have "n = k" "0 < n" using assms(6) unfolding k_def [symmetric] by auto
    then have n: "n = (length ?d + data_capacity s1 - 1) div data_capacity s1" "0 < n"
      unfolding len cap k_def by auto
    have "ShellProtocol_Read s1 es1 = read_body s1 es1" using 1(4) False by (simp add: ShellProtocol_Read_def)
    then have "shell_reads n sr es = shell_reads n s1 es1" using n(2) 1(1) by (cases n) simp_all
    moreover obtain l s2 es2 where "shell_reads n s1 es1 = Done (l, s2, es2)" "length l = n"
        "concat (map snd l) = ?d" "\<forall>(j, x)\<in>set l. j = sp_id s1 \<and> length x \<le> data_capacity s1 \<and> x \<noteq> []"
        "sp_bytes_left s2 = 0" "readable es2 = rest"
      using shell_reads_rest [OF 1(2,6) trans [OF len 1(4) [symmetric]] n(1)] by blast
    ultimately show ?thesis using 1(3) cap
      by (intro exI [of _ l] exI [of _ s2] exI [of _ es2] conjI) (simp_all, fastforce)
  qed
qed

theorem shell_packet_round_trip_witness:
  "\<exists>l sr' es'. shell_reads 3 \<lparr>sp_buffer = replicate 7 CHR ''.'', sp_end = 7, sp_data_length = 0, sp_bytes_left = 0\<rparr>
      [Avail [CHR 0x01, CHR 0x05], Avail (replicate 3 CHR 0x00 @ ''hel''), Avail ''loX''] = Done (l, sr', es')
    \<and> concat (map snd l) = ''hello'' \<and> readable es' = ''X''"
proof -
  let ?sp = "\<lparr>sp_buffer = ''.....hello'', sp_end = 10, sp_data_length = 0, sp_bytes_left = 0\<rparr>"
  let ?out = "CHR 0x01 # le32 5 @ ''hello''"
  have c: "char_of (5 :: nat) = CHR 0x05" "char_of (0 :: nat) = CHR 0x00" by code_simp+
  have le: "le32 5 = [CHR 0x05, CHR 0x00, CHR 0x00, CHR 0x00]" by (simp add: le32_bytes c)
  obtain ws' where "WriteFdExactly [] ?out = (True, ?out, ws')"
    using WriteFdExactly_complete [of "[]" ?out] by (auto simp: no_hard_error_def)
  then have "ShellProtocol_Write ?sp [] kIdStdout 5 = Done (True, ?out, ?sp\<lparr>sp_buffer := ?out\<rparr>, ws')"
    by (simp add: ShellProtocol_Write_def store_at_def)
  note w = shell_packet_round_trip [OF this]
  let ?sr = "\<lparr>sp_buffer = replicate 7 CHR ''.'', sp_end = 7, sp_data_length = 0, sp_bytes_left = 0\<rparr>"
  let ?es = "[Avail [CHR 0x01, CHR 0x05], Avail (replicate 3 CHR 0x00 @ ''hel''), Avail ''loX'']"
  have a: "sp_ok ?sr" "sp_bytes_left ?sr = 0" and b: "3 = max 1 ((5 + data_capacity ?sr - 1) div data_capacity ?sr)"
    by (simp_all add: sp_ok_def data_capacity_def)
  have c: "readable ?es = ?out @ ''X''" by (simp add: le numeral_3_eq_3)
  have lt: "(5 :: nat) < 2 ^ 32" by simp
  have d: "take 5 (drop 5 (sp_buffer ?sp)) = ''hello''" by simp
  from w [OF lt a c b] show ?thesis unfolding d by blast
qed

end
