(* ===== verification/Packet.thy ===== *)
theory Packet
  imports Adb_IO
begin

text \<open>
  Packets of the device protocol: \<^verbatim>\<open>amessage\<close> and \<^verbatim>\<open>apacket\<close> of \<^verbatim>\<open>adb/types.h\<close>, the constants of
  \<^verbatim>\<open>adb/adb.h\<close>, the checksum of \<^verbatim>\<open>adb/adb.cpp\<close>, and from \<^verbatim>\<open>adb/transport.cpp\<close> the sealing of an
  outgoing packet, the header check of an incoming one, and \<^verbatim>\<open>FdConnection\<close>, which reads and
  writes packets on a descriptor, in the clear or through a TLS layer.  The TLS layer is a
  parameter: an exact read and a write on plaintext.

  A payload is the bytes of its \<^verbatim>\<open>Block\<close>.  The host is little-endian, as on every platform adb
  runs on; the memory image of a message is six little-endian words.
\<close>

section \<open>Messages and packets\<close>

record amessage =
  m_command :: u32
  m_arg0 :: u32
  m_arg1 :: u32
  m_data_length :: u32
  m_data_check :: u32
  m_magic :: u32

record apacket =
  p_msg :: amessage
  p_payload :: string

definition A_SYNC :: u32 where "A_SYNC = 0x434e5953"
definition A_CNXN :: u32 where "A_CNXN = 0x4e584e43"
definition A_OPEN :: u32 where "A_OPEN = 0x4e45504f"
definition A_OKAY :: u32 where "A_OKAY = 0x59414b4f"
definition A_CLSE :: u32 where "A_CLSE = 0x45534c43"
definition A_WRTE :: u32 where "A_WRTE = 0x45545257"
definition A_AUTH :: u32 where "A_AUTH = 0x48545541"
definition A_STLS :: u32 where "A_STLS = 0x534C5453"

definition A_VERSION_MIN :: int where "A_VERSION_MIN = 0x01000000"
definition A_VERSION_SKIP_CHECKSUM :: int where "A_VERSION_SKIP_CHECKSUM = 0x01000001"
definition A_VERSION :: int where "A_VERSION = 0x01000001"
definition A_STLS_VERSION_MIN :: u32 where "A_STLS_VERSION_MIN = 0x01000000"
definition A_STLS_VERSION :: u32 where "A_STLS_VERSION = 0x01000000"

definition MAX_PAYLOAD_V1 :: nat where "MAX_PAYLOAD_V1 = 4 * 1024"
definition INITIAL_DELAYED_ACK_BYTES :: nat where "INITIAL_DELAYED_ACK_BYTES = 32 * 1024 * 1024"

lemmas command_defs = A_SYNC_def A_CNXN_def A_OPEN_def A_OKAY_def A_CLSE_def A_WRTE_def A_AUTH_def A_STLS_def

text \<open>\<^verbatim>\<open>get_apacket\<close>: a zeroed message and no payload.\<close>

definition get_apacket :: apacket where
  "get_apacket = \<lparr>p_msg = \<lparr>m_command = 0, m_arg0 = 0, m_arg1 = 0, m_data_length = 0, m_data_check = 0,
     m_magic = 0\<rparr>, p_payload = []\<rparr>"

text \<open>\<^verbatim>\<open>calculate_apacket_checksum\<close>: the loop over \<open>data_length\<close> payload bytes, in 32 bits.\<close>

fun checksum_loop :: "string \<Rightarrow> nat \<Rightarrow> nat \<Rightarrow> u32 \<Rightarrow> u32 run" where
  "checksum_loop bs i 0 acc = Done acc"
| "checksum_loop bs i (Suc left) acc =
     bindR (at bs i) (\<lambda>c. checksum_loop bs (Suc i) left (acc + word_of_nat (of_char c)))"

definition calculate_apacket_checksum :: "apacket \<Rightarrow> u32 run" where
  "calculate_apacket_checksum p = checksum_loop (p_payload p) 0 (unat (m_data_length (p_msg p))) 0"

text \<open>The first part of \<^verbatim>\<open>send_packet\<close>: magic and checksum, for a peer of the given protocol version.\<close>

definition seal_packet :: "int \<Rightarrow> apacket \<Rightarrow> apacket run" where
  "seal_packet version p =
     (let m = (p_msg p)\<lparr>m_magic := m_command (p_msg p) XOR 0xffffffff\<rparr> in
      if version \<ge> A_VERSION_SKIP_CHECKSUM then Done (p\<lparr>p_msg := m\<lparr>m_data_check := 0\<rparr>\<rparr>)
      else bindR (calculate_apacket_checksum p) (\<lambda>c. Done (p\<lparr>p_msg := m\<lparr>m_data_check := c\<rparr>\<rparr>)))"

definition check_header :: "nat \<Rightarrow> apacket \<Rightarrow> bool" where
  "check_header max_payload p \<longleftrightarrow>
     m_magic (p_msg p) = m_command (p_msg p) XOR 0xffffffff \<and>
     \<not> unat (m_data_length (p_msg p)) > max_payload"

section \<open>The memory image of a message\<close>

definition msg_bytes :: "amessage \<Rightarrow> string" where
  "msg_bytes m = le32 (m_command m) @ le32 (m_arg0 m) @ le32 (m_arg1 m) @ le32 (m_data_length m)
     @ le32 (m_data_check m) @ le32 (m_magic m)"

definition msg_of_bytes :: "string \<Rightarrow> amessage" where
  "msg_of_bytes s = (let w = \<lambda>i. of_le32 (take 4 (drop (4 * i) s)) in
     \<lparr>m_command = w 0, m_arg0 = w 1, m_arg1 = w 2, m_data_length = w 3, m_data_check = w 4, m_magic = w 5\<rparr>)"

lemma length_msg_bytes [simp]: "length (msg_bytes m) = 24"
  by (simp add: msg_bytes_def)

lemma msg_of_bytes_msg_bytes [simp]: "msg_of_bytes (msg_bytes m) = m"
  by (simp add: msg_of_bytes_def msg_bytes_def)

section \<open>FdConnection\<close>

text \<open>
  A connection has the descriptor's read and write scripts and, after a handshake, the TLS layer.
\<close>

record 't fd_connection =
  fc_in :: "rd_event list"
  fc_out :: "wr_event list"
  fc_tls :: "'t option"

definition DispatchRead ::
    "('t \<Rightarrow> nat \<Rightarrow> bool \<times> string \<times> 't) \<Rightarrow> 't fd_connection \<Rightarrow> nat \<Rightarrow> bool \<times> string \<times> 't fd_connection" where
  "DispatchRead ReadFully c len =
     (case fc_tls c of
        Some t \<Rightarrow>
          if len = 0 then (True, [], c)
          else (case ReadFully t len of (ok, bs, t') \<Rightarrow> (ok, bs, c\<lparr>fc_tls := Some t'\<rparr>))
      | None \<Rightarrow> (case ReadFdExactly (fc_in c) len of (ok, bs, es) \<Rightarrow> (ok, bs, c\<lparr>fc_in := es\<rparr>)))"

definition DispatchWrite ::
    "('t \<Rightarrow> string \<Rightarrow> bool \<times> string \<times> 't) \<Rightarrow> 't fd_connection \<Rightarrow> string \<Rightarrow> bool \<times> string \<times> 't fd_connection" where
  "DispatchWrite WriteFully c buf =
     (case fc_tls c of
        Some t \<Rightarrow>
          if buf = [] then (True, [], c)
          else (case WriteFully t buf of (ok, out, t') \<Rightarrow> (ok, out, c\<lparr>fc_tls := Some t'\<rparr>))
      | None \<Rightarrow> (case WriteFdExactly (fc_out c) buf of (ok, out, es) \<Rightarrow> (ok, out, c\<lparr>fc_out := es\<rparr>)))"

text \<open>\<^verbatim>\<open>FdConnection::Read\<close>: \<open>Some\<close> packet when it returns true.\<close>

definition FdConnection_Read ::
    "('t \<Rightarrow> nat \<Rightarrow> bool \<times> string \<times> 't) \<Rightarrow> 't fd_connection \<Rightarrow> apacket option \<times> 't fd_connection" where
  "FdConnection_Read ReadFully c =
     (case DispatchRead ReadFully c 24 of
        (False, _, c1) \<Rightarrow> (None, c1)
      | (True, hdr, c1) \<Rightarrow>
          let m = msg_of_bytes hdr in
          if unat (m_data_length m) > MAX_PAYLOAD then (None, c1)
          else (case DispatchRead ReadFully c1 (unat (m_data_length m)) of
                  (False, _, c2) \<Rightarrow> (None, c2)
                | (True, body, c2) \<Rightarrow> (Some \<lparr>p_msg = m, p_payload = body\<rparr>, c2)))"

text \<open>
  \<^verbatim>\<open>FdConnection::Write\<close>: what it returns, and the plaintext that went out.  Reading
  \<open>data_length\<close> bytes from a shorter payload is out of range.
\<close>

definition FdConnection_Write ::
    "('t \<Rightarrow> string \<Rightarrow> bool \<times> string \<times> 't) \<Rightarrow> 't fd_connection \<Rightarrow> apacket \<Rightarrow> (bool \<times> string \<times> 't fd_connection) run" where
  "FdConnection_Write WriteFully c p =
     (case DispatchWrite WriteFully c (msg_bytes (p_msg p)) of
        (False, out, c1) \<Rightarrow> Done (False, out, c1)
      | (True, out, c1) \<Rightarrow>
          let n = unat (m_data_length (p_msg p)) in
          if n \<noteq> 0 then
            (if n > length (p_payload p) then Stop OutOfRange
             else (case DispatchWrite WriteFully c1 (take n (p_payload p)) of
                     (ok, out2, c2) \<Rightarrow> Done (ok, out @ out2, c2)))
          else Done (True, out, c1))"

section \<open>Packet streams\<close>

text \<open>A packet as the protocol wants it: the length field is the length of the payload, and fits.\<close>

definition packet_ok :: "apacket \<Rightarrow> bool" where
  "packet_ok p \<longleftrightarrow> unat (m_data_length (p_msg p)) = length (p_payload p) \<and> length (p_payload p) \<le> MAX_PAYLOAD"

definition packet_bytes :: "apacket \<Rightarrow> string" where
  "packet_bytes p = msg_bytes (p_msg p) @ p_payload p"

definition conn_stream :: "('t \<Rightarrow> string) \<Rightarrow> 't fd_connection \<Rightarrow> string" where
  "conn_stream tls_stream c = (case fc_tls c of Some t \<Rightarrow> tls_stream t | None \<Rightarrow> readable (fc_in c))"

text \<open>The connection is a byte source if the TLS layer is.\<close>

lemma DispatchRead_source:
  assumes "byte_source ReadFully tls_stream"
  shows "byte_source (DispatchRead ReadFully) (conn_stream tls_stream)"
proof
  fix n and c :: "'a fd_connection"
  note tls_ok = byte_source.rd_ok [OF assms] and tls_short = byte_source.rd_short [OF assms]
  show "\<exists>c'. DispatchRead ReadFully c n = (True, take n (conn_stream tls_stream c), c')
      \<and> conn_stream tls_stream c' = drop n (conn_stream tls_stream c)"
    if "n \<le> length (conn_stream tls_stream c)"
    using that fds.rd_ok [of n "fc_in c"] tls_ok [of n "the (fc_tls c)"]
    by (cases "fc_tls c"; cases "n = 0") (fastforce simp: DispatchRead_def conn_stream_def)+
  show "\<exists>bs c'. DispatchRead ReadFully c n = (False, bs, c')" if "length (conn_stream tls_stream c) < n"
    using that fds.rd_short [of "fc_in c" n] tls_short [of "the (fc_tls c)" n]
    by (cases "fc_tls c") (auto simp: DispatchRead_def conn_stream_def)
qed

lemma FdConnection_Read_framing:
  assumes "byte_source ReadFully tls_stream"
  shows "framing (conn_stream tls_stream) (FdConnection_Read ReadFully) packet_bytes packet_ok"
proof
  fix p rest and c :: "'a fd_connection"
  assume ok: "packet_ok p" and s: "conn_stream tls_stream c = packet_bytes p @ rest"
  note app = byte_source.rd_append [OF DispatchRead_source [OF assms]]
  have "conn_stream tls_stream c = msg_bytes (p_msg p) @ (p_payload p @ rest)"
    using s by (simp add: packet_bytes_def)
  from app [OF this] obtain c1 where
    1: "DispatchRead ReadFully c 24 = (True, msg_bytes (p_msg p), c1)"
       "conn_stream tls_stream c1 = p_payload p @ rest" by auto
  from app [OF 1(2)] obtain c2 where
    2: "DispatchRead ReadFully c1 (length (p_payload p)) = (True, p_payload p, c2)"
       "conn_stream tls_stream c2 = rest" by auto
  with 1 ok show "\<exists>c'. FdConnection_Read ReadFully c = (Some p, c') \<and> conn_stream tls_stream c' = rest"
    by (simp add: FdConnection_Read_def packet_ok_def)
qed

lemma FdConnection_Read_packet_ok:
  assumes "byte_source ReadFully tls_stream" "FdConnection_Read ReadFully c = (Some p, c')"
  shows "packet_ok p"
proof -
  note tr = byte_source.rd_true [OF DispatchRead_source [OF assms(1)]]
  obtain hdr c1 where 1: "DispatchRead ReadFully c 24 = (True, hdr, c1)"
    using assms(2) by (auto simp: FdConnection_Read_def split: prod.splits bool.splits)
  obtain body c2 where 2: "DispatchRead ReadFully c1 (unat (m_data_length (msg_of_bytes hdr))) = (True, body, c2)"
      "\<not> unat (m_data_length (msg_of_bytes hdr)) > MAX_PAYLOAD" "p = \<lparr>p_msg = msg_of_bytes hdr, p_payload = body\<rparr>"
    using assms(2) 1 by (auto simp: FdConnection_Read_def Let_def split: prod.splits bool.splits if_splits)
  with tr [OF 2(1)] show ?thesis by (simp add: packet_ok_def)
qed

lemma DispatchWrite_true:
  assumes "\<And>t b out t'. WriteFully t b = (True, out, t') \<Longrightarrow> out = b"
    and "DispatchWrite WriteFully c b = (True, out, c')"
  shows "out = b"
  using assms(2) assms(1) [of "the (fc_tls c)" b] WriteFdExactly_prefix [of "fc_out c" b True]
  by (auto simp: DispatchWrite_def split: option.splits prod.splits if_splits)

lemma FdConnection_Write_true:
  assumes "\<And>t b out t'. WriteFully t b = (True, out, t') \<Longrightarrow> out = b"
    and "packet_ok p" and "FdConnection_Write WriteFully c p = Done (True, out, c')"
  shows "out = packet_bytes p"
proof -
  have w: "out = b" if "DispatchWrite WriteFully c b = (True, out, c')" for c b out c'
    using DispatchWrite_true [OF _ that] assms(1) by blast
  show ?thesis
    using assms(2,3)
    by (auto simp: FdConnection_Write_def packet_ok_def packet_bytes_def Let_def
        split: prod.splits bool.splits if_splits dest!: w)
qed

lemma checksum_loop_sum:
  "i + left \<le> length bs \<Longrightarrow>
     checksum_loop bs i left acc = Done (acc + word_of_nat (sum_list (map of_char (take left (drop i bs)))))"
proof (induction bs i left acc rule: checksum_loop.induct)
  case (2 bs i left acc)
  then show ?case by (simp add: drop_Cons_nth ac_simps)
qed simp

lemma checksum_value:
  assumes "unat (m_data_length (p_msg p)) \<le> length (p_payload p)"
  shows "calculate_apacket_checksum p
    = Done (word_of_nat (sum_list (map of_char (take (unat (m_data_length (p_msg p))) (p_payload p)))))"
  using checksum_loop_sum [of 0 "unat (m_data_length (p_msg p))" "p_payload p" 0] assms
  by (simp add: calculate_apacket_checksum_def)

lemma sum_of_chars_bound: "sum_list (map of_char (s :: string)) \<le> (255 :: nat) * length s"
proof (induction s)
  case (Cons c s)
  have "(of_char c :: nat) \<le> 255" using nat_of_char_less_256 [of c] by linarith
  with Cons show ?case by simp
qed simp

lemma packet_ok_msg_cong [simp]:
  "packet_ok (p\<lparr>p_msg := m\<rparr>) \<longleftrightarrow> unat (m_data_length m) = length (p_payload p) \<and> length (p_payload p) \<le> MAX_PAYLOAD"
  by (simp add: packet_ok_def)

section \<open>Properties\<close>

text \<open>C15: packets survive the trip from \<^verbatim>\<open>FdConnection::Write\<close> to \<^verbatim>\<open>FdConnection::Read\<close>: any sequence of
  well-formed packets whose writes returned true is read back in order and unchanged, and the bytes
  behind it are left in the stream, however reads and writes are cut up, in the clear or through a
  TLS layer that transports bytes.\<close>

theorem packets_round_trip:
  fixes ReadFully :: "'t \<Rightarrow> nat \<Rightarrow> bool \<times> string \<times> 't"
  assumes "byte_source ReadFully tls_stream"
    and "\<And>t b out t'. WriteFully t b = (True, out, t') \<Longrightarrow> out = b"
    and "\<forall>(c, p)\<in>set writes. packet_ok p \<and> (\<exists>out c'. FdConnection_Write WriteFully c p = Done (True, out, c'))"
    and "conn_stream tls_stream r =
       concat (map (\<lambda>(c, p). case FdConnection_Write WriteFully c p of Done (_, out, _) \<Rightarrow> out | Stop _ \<Rightarrow> []) writes) @ rest"
  shows "\<exists>r'. recv_many (FdConnection_Read ReadFully) (length writes) r = (map snd writes, r')
       \<and> conn_stream tls_stream r' = rest"
proof -
  have "(case FdConnection_Write WriteFully c p of Done (_, out, _) \<Rightarrow> out | Stop _ \<Rightarrow> []) = packet_bytes p"
    if "(c, p) \<in> set writes" for c p
    using assms(3) that FdConnection_Write_true [OF assms(2)] by fastforce
  then have eq: "map (\<lambda>(c, p). case FdConnection_Write WriteFully c p of Done (_, out, _) \<Rightarrow> out | Stop _ \<Rightarrow> []) writes
      = map packet_bytes (map snd writes)" by auto
  have "list_all packet_ok (map snd writes)" using assms(3) by (auto simp: list_all_iff)
  from framing.recv_many_enc [OF FdConnection_Read_framing [OF assms(1)] this] assms(4) show ?thesis
    unfolding eq by simp
qed

definition sample_packet :: apacket where
  "sample_packet = \<lparr>p_msg = \<lparr>m_command = A_WRTE, m_arg0 = 1, m_arg1 = 2, m_data_length = 2, m_data_check = 0,
     m_magic = A_WRTE XOR 0xffffffff\<rparr>, p_payload = ''hi''\<rparr>"

theorem packets_round_trip_witness:
  "\<exists>r'. recv_many (FdConnection_Read ReadFdExactly) 1
      \<lparr>fc_in = [Avail (take 7 (packet_bytes sample_packet)), Avail (drop 7 (packet_bytes sample_packet))],
       fc_out = [], fc_tls = None\<rparr> = ([sample_packet], r')
     \<and> conn_stream readable r' = []"
proof -
  let ?w = "\<lambda>_ b. (True, b, []) :: bool \<times> string \<times> rd_event list"
  let ?c = "\<lparr>fc_in = [], fc_out = [Accept 3], fc_tls = None\<rparr> :: rd_event list fd_connection"
  have ok: "packet_ok sample_packet" by (simp add: packet_ok_def sample_packet_def MAX_PAYLOAD_def)
  obtain es1 where 1: "WriteFdExactly [Accept 3] (msg_bytes (p_msg sample_packet)) = (True, msg_bytes (p_msg sample_packet), es1)"
    "no_hard_error es1" using WriteFdExactly_complete [of "[Accept 3]"] by (auto simp: no_hard_error_def)
  obtain es2 where 2: "WriteFdExactly es1 ''hi'' = (True, ''hi'', es2)"
    using WriteFdExactly_complete [OF 1(2)] by blast
  have "FdConnection_Write ?w ?c sample_packet = Done (True, packet_bytes sample_packet, ?c\<lparr>fc_out := es2\<rparr>)"
    using 1 2 by (simp add: FdConnection_Write_def DispatchWrite_def packet_bytes_def) (simp add: sample_packet_def DispatchWrite_def)
  then show ?thesis
    using packets_round_trip [where WriteFully = ?w and writes = "[(?c, sample_packet)]" and rest = "[]",
        OF fds.byte_source_axioms, of "\<lparr>fc_in = [Avail (take 7 (packet_bytes sample_packet)),
          Avail (drop 7 (packet_bytes sample_packet))], fc_out = [], fc_tls = None\<rparr>"] ok
    by (simp add: conn_stream_def)
qed

text \<open>C22: every packet \<^verbatim>\<open>FdConnection::Read\<close> returns has a payload of exactly the announced length and
  at most \<^verbatim>\<open>MAX_PAYLOAD\<close> bytes; a header announcing more is refused with nothing read after it.\<close>

theorem FdConnection_Read_bounded:
  assumes "byte_source ReadFully tls_stream"
  shows "case FdConnection_Read ReadFully c of
      (Some p, c') \<Rightarrow> packet_ok p
    | (None, c') \<Rightarrow>
        (if 24 \<le> length (conn_stream tls_stream c) \<and>
            unat (m_data_length (msg_of_bytes (take 24 (conn_stream tls_stream c)))) > MAX_PAYLOAD
         then conn_stream tls_stream c' = drop 24 (conn_stream tls_stream c)
         else length (conn_stream tls_stream c) <
           24 + unat (m_data_length (msg_of_bytes (take 24 (conn_stream tls_stream c)))))"
proof (cases "FdConnection_Read ReadFully c")
  case (Pair r c')
  note src = DispatchRead_source [OF assms]
  show ?thesis
  proof (cases r)
    case None
    show ?thesis
    proof (cases "24 \<le> length (conn_stream tls_stream c)")
      case True
      from byte_source.rd_ok [OF src this] obtain c1 where
        1: "DispatchRead ReadFully c 24 = (True, take 24 (conn_stream tls_stream c), c1)"
           "conn_stream tls_stream c1 = drop 24 (conn_stream tls_stream c)" by blast
      define n where "n = unat (m_data_length (msg_of_bytes (take 24 (conn_stream tls_stream c))))"
      have "n \<le> MAX_PAYLOAD \<Longrightarrow> \<not> n \<le> length (conn_stream tls_stream c1)"
        using byte_source.rd_ok [OF src, of n c1] Pair None 1(1)
        by (auto simp: FdConnection_Read_def n_def Let_def)
      moreover have "MAX_PAYLOAD < n \<Longrightarrow> c' = c1"
        using Pair None 1(1) by (simp add: FdConnection_Read_def n_def)
      ultimately show ?thesis using Pair None 1(2) True by (auto simp: n_def [symmetric])
    qed (use Pair None in auto)
  next
    case (Some p)
    with Pair FdConnection_Read_packet_ok [OF assms] show ?thesis by auto
  qed
qed

definition oversized_header :: amessage where
  "oversized_header = \<lparr>m_command = A_WRTE, m_arg0 = 1, m_arg1 = 2, m_data_length = 1048577, m_data_check = 0, m_magic = 0\<rparr>"

theorem FdConnection_Read_bounded_witness:
  "\<exists>c'. FdConnection_Read ReadFdExactly
      \<lparr>fc_in = [Avail (msg_bytes oversized_header @ ''x'')], fc_out = [], fc_tls = None\<rparr> = (None, c')
    \<and> conn_stream readable c' = ''x''"
proof -
  let ?c = "\<lparr>fc_in = [Avail (msg_bytes oversized_header @ ''x'')], fc_out = [], fc_tls = None\<rparr> :: rd_event list fd_connection"
  have s: "conn_stream readable ?c = msg_bytes oversized_header @ ''x''" by (simp add: conn_stream_def)
  have big: "unat (m_data_length oversized_header) > MAX_PAYLOAD"
    by (simp add: oversized_header_def MAX_PAYLOAD_def)
  from byte_source.rd_append [OF DispatchRead_source [OF fds.byte_source_axioms] s]
  have "fst (FdConnection_Read ReadFdExactly ?c) = None"
    using big by (auto simp: FdConnection_Read_def)
  with FdConnection_Read_bounded [OF fds.byte_source_axioms, of ?c] s big show ?thesis
    by (cases "FdConnection_Read ReadFdExactly ?c") (auto split: option.splits)
qed

text \<open>C29: a packet that \<^verbatim>\<open>send_packet\<close> sealed passes the receiver's \<^verbatim>\<open>check_header\<close> exactly when its
  payload fits the receiver's limit, for every protocol version; sealing changes neither the
  command, the arguments, the length nor the payload.\<close>

theorem sealed_packet_accepted:
  assumes "packet_ok p"
  shows "\<exists>q. seal_packet version p = Done q \<and> packet_ok q \<and> p_payload q = p_payload p
    \<and> m_command (p_msg q) = m_command (p_msg p) \<and> m_arg0 (p_msg q) = m_arg0 (p_msg p) \<and> m_arg1 (p_msg q) = m_arg1 (p_msg p)
    \<and> (check_header max_payload q \<longleftrightarrow> length (p_payload p) \<le> max_payload)"
  using assms checksum_value [of p]
  by (auto simp: seal_packet_def Let_def check_header_def packet_ok_def)

theorem sealed_packet_accepted_witness:
  "\<exists>q. seal_packet A_VERSION_MIN sample_packet = Done q \<and> (check_header MAX_PAYLOAD_V1 q \<longleftrightarrow> 2 \<le> MAX_PAYLOAD_V1)"
  using sealed_packet_accepted [of sample_packet A_VERSION_MIN MAX_PAYLOAD_V1]
  by (auto simp: packet_ok_def sample_packet_def MAX_PAYLOAD_def)

text \<open>For payloads within \<^verbatim>\<open>MAX_PAYLOAD\<close> the 32-bit checksum does not wrap: it is the sum of the
  payload bytes, at most 255 times their number.\<close>

lemma checksum_exact:
  assumes "packet_ok p"
  shows "\<exists>c. calculate_apacket_checksum p = Done c \<and> unat c = sum_list (map of_char (p_payload p))
     \<and> unat c \<le> 255 * length (p_payload p)"
proof -
  let ?s = "sum_list (map of_char (p_payload p)) :: nat"
  have b: "?s \<le> 255 * length (p_payload p)" by (rule sum_of_chars_bound)
  with assms have "?s < 2 ^ 32" by (simp add: packet_ok_def MAX_PAYLOAD_def)
  then have "unat (word_of_nat ?s :: u32) = ?s" by (simp add: unat_of_nat)
  with b checksum_value [of p] assms show ?thesis by (simp add: packet_ok_def)
qed

end
