(* ===== verification/Connections.thy ===== *)
theory Connections
  imports Packet "HOL-Library.Sublist"
begin

text \<open>
  \<^verbatim>\<open>BlockingConnectionAdapter\<close> (\<^verbatim>\<open>adb/transport.cpp\<close>): the two threads that read and write the packets of a
  connection, and starting and stopping them.  The underlying \<^verbatim>\<open>BlockingConnection\<close> is an interface of the
  code; here it is three functions, with the locale \<open>blocking_connection\<close> for what the code
  relies on and \<^verbatim>\<open>FdConnection\<close> as the instance.

  Each operation is a function on the state of the adapter; \<open>adapter_step\<close> interleaves what the
  threads and the callers do between taking and releasing the mutex.  \<open>ba_accepted\<close>, \<open>ba_wire\<close>,
  \<open>ba_handled\<close> and \<open>ba_errors\<close> record what can be seen from outside: the packets given to \<^verbatim>\<open>Write\<close>,
  the bytes written, and the calls of \<^verbatim>\<open>HandleRead\<close> and \<^verbatim>\<open>HandleError\<close>.
\<close>

section \<open>The adapter\<close>

datatype thread = Unstarted | Running | Writing apacket | Ended

datatype stop_phase = NotStopping | Stopping | Joining | Stopped

record 'c adapter =
  ba_started :: bool
  ba_stopped :: bool
  ba_conn :: 'c
  ba_reader :: thread
  ba_writer :: thread
  ba_write_queue :: "apacket list"
  ba_error_flag :: bool
  ba_phase :: stop_phase
  ba_accepted :: "apacket list"
  ba_wire :: string
  ba_handled :: "apacket list"
  ba_errors :: "string list"

definition new_adapter :: "'c \<Rightarrow> 'c adapter" where
  "new_adapter c = \<lparr>ba_started = False, ba_stopped = False, ba_conn = c, ba_reader = Unstarted, ba_writer = Unstarted,
     ba_write_queue = [], ba_error_flag = False, ba_phase = NotStopping, ba_accepted = [], ba_wire = [], ba_handled = [],
     ba_errors = []\<rparr>"

text \<open>\<^verbatim>\<open>std::call_once\<close> on \<^verbatim>\<open>error_flag_\<close>.\<close>

definition once_error :: "string \<Rightarrow> 'c adapter \<Rightarrow> 'c adapter" where
  "once_error msg a =
     (if ba_error_flag a then a else a\<lparr>ba_error_flag := True, ba_errors := ba_errors a @ [msg]\<rparr>)"

definition adapter_Start :: "'c adapter \<Rightarrow> 'c adapter run" where
  "adapter_Start a =
     (if ba_started a then Stop LogFatal
      else Done (a\<lparr>ba_reader := Running, ba_writer := Running, ba_started := True\<rparr>))"

definition adapter_Write :: "apacket \<Rightarrow> 'c adapter \<Rightarrow> 'c adapter" where
  "adapter_Write p a = a\<lparr>ba_write_queue := ba_write_queue a @ [p], ba_accepted := ba_accepted a @ [p]\<rparr>"

text \<open>
  The write thread: what it does with the mutex when its wait is over (\<open>None\<close> while it has to wait),
  and the write it then makes without it.
\<close>

definition writer_wait :: "'c adapter \<Rightarrow> 'c adapter option" where
  "writer_wait a =
     (if ba_stopped a then Some (a\<lparr>ba_writer := Ended\<rparr>)
      else (case ba_write_queue a of
              [] \<Rightarrow> None
            | packet # rest \<Rightarrow> Some (a\<lparr>ba_write_queue := rest, ba_writer := Writing packet\<rparr>)))"

definition writer_write :: "('c \<Rightarrow> apacket \<Rightarrow> (bool \<times> string \<times> 'c) run) \<Rightarrow> apacket \<Rightarrow> 'c adapter \<Rightarrow> 'c adapter run" where
  "writer_write Write packet a =
     bindR (Write (ba_conn a) packet) (\<lambda>(ok, out, c).
       let a = a\<lparr>ba_conn := c, ba_wire := ba_wire a @ out\<rparr> in
       Done (if ok then a\<lparr>ba_writer := Running\<rparr> else once_error ''write failed'' (a\<lparr>ba_writer := Ended\<rparr>)))"

text \<open>One turn of the read thread.\<close>

definition reader_turn :: "('c \<Rightarrow> apacket option \<times> 'c) \<Rightarrow> 'c adapter \<Rightarrow> 'c adapter" where
  "reader_turn Read a =
     (case Read (ba_conn a) of
        (None, c) \<Rightarrow> once_error ''read failed'' (a\<lparr>ba_conn := c, ba_reader := Ended\<rparr>)
      | (Some packet, c) \<Rightarrow>
          let got_stls_cmd = (m_command (p_msg packet) = A_STLS) in
          a\<lparr>ba_conn := c, ba_handled := ba_handled a @ [packet], ba_reader := (if got_stls_cmd then Ended else Running)\<rparr>)"

text \<open>
  \<^verbatim>\<open>DoTlsHandshake\<close>, from the time the read thread can be joined; the handshake of the underlying
  connection is a function of it.
\<close>

definition adapter_DoTlsHandshake :: "('c \<Rightarrow> bool \<times> 'c) \<Rightarrow> 'c adapter \<Rightarrow> bool \<times> 'c adapter" where
  "adapter_DoTlsHandshake handshake a =
     (case handshake (ba_conn a) of (success, c) \<Rightarrow> (success, a\<lparr>ba_conn := c, ba_reader := Running\<rparr>))"

text \<open>
  \<^verbatim>\<open>Stop\<close>: up to the first release of the mutex (\<open>None\<close> when it returns there), closing the
  connection, and what follows once both threads are joined.  \<^verbatim>\<open>Reset\<close> resets the connection before it.
\<close>

definition adapter_Stop_begin :: "'c adapter \<Rightarrow> 'c adapter option" where
  "adapter_Stop_begin a =
     (if \<not> ba_started a then None
      else if ba_stopped a then None
      else Some (a\<lparr>ba_stopped := True, ba_phase := Stopping\<rparr>))"

definition adapter_Stop_close :: "('c \<Rightarrow> 'c) \<Rightarrow> 'c adapter \<Rightarrow> 'c adapter" where
  "adapter_Stop_close Close a = a\<lparr>ba_conn := Close (ba_conn a), ba_phase := Joining\<rparr>"

definition adapter_Stop_end :: "'c adapter \<Rightarrow> 'c adapter" where
  "adapter_Stop_end a = once_error ''requested stop'' (a\<lparr>ba_phase := Stopped\<rparr>)"

definition adapter_Reset_begin :: "('c \<Rightarrow> 'c) \<Rightarrow> 'c adapter \<Rightarrow> 'c adapter option" where
  "adapter_Reset_begin Reset a =
     (if \<not> ba_started a then None
      else if ba_stopped a then None
      else Some (a\<lparr>ba_conn := Reset (ba_conn a)\<rparr>))"

inductive adapter_step ::
    "('c \<Rightarrow> apacket option \<times> 'c) \<Rightarrow> ('c \<Rightarrow> apacket \<Rightarrow> (bool \<times> string \<times> 'c) run) \<Rightarrow> ('c \<Rightarrow> 'c) \<Rightarrow> 'c adapter \<Rightarrow> 'c adapter \<Rightarrow> bool"
  for Read Write Close where
  start: "adapter_Start a = Done a' \<Longrightarrow> adapter_step Read Write Close a a'"
| put: "packet_ok p \<Longrightarrow> adapter_step Read Write Close a (adapter_Write p a)"
| wait: "ba_writer a = Running \<Longrightarrow> writer_wait a = Some a' \<Longrightarrow> adapter_step Read Write Close a a'"
| wrote: "ba_writer a = Writing p \<Longrightarrow> writer_write Write p a = Done a' \<Longrightarrow> adapter_step Read Write Close a a'"
| rd: "ba_reader a = Running \<Longrightarrow> adapter_step Read Write Close a (reader_turn Read a)"
| reset: "adapter_Reset_begin Close a = Some a' \<Longrightarrow> adapter_step Read Write Close a a'"
| stop: "adapter_Stop_begin a = Some a' \<Longrightarrow> adapter_step Read Write Close a a'"
| close: "ba_phase a = Stopping \<Longrightarrow> adapter_step Read Write Close a (adapter_Stop_close Close a)"
| join: "ba_phase a = Joining \<Longrightarrow> ba_reader a = Ended \<Longrightarrow> ba_writer a = Ended \<Longrightarrow> adapter_step Read Write Close a (adapter_Stop_end a)"

lemmas adapter_defs = adapter_Start_def adapter_Write_def writer_wait_def writer_write_def reader_turn_def adapter_Reset_begin_def
  adapter_Stop_begin_def adapter_Stop_close_def adapter_Stop_end_def once_error_def

section \<open>Invariants\<close>

text \<open>The packet the write thread holds, and the rest of what was accepted.\<close>

fun in_flight :: "thread \<Rightarrow> apacket list" where
  "in_flight (Writing p) = [p]"
| "in_flight _ = []"

text \<open>
  The error is reported at most once.  As long as the write thread has not ended, every accepted
  packet is on the wire, in its hands, or in the queue, in that order; afterwards the wire still
  holds a beginning of what was accepted.
\<close>

definition adapter_ok :: "'c adapter \<Rightarrow> bool" where
  "adapter_ok a \<longleftrightarrow>
     length (ba_errors a) = (if ba_error_flag a then 1 else 0) \<and>
     (ba_writer a = Unstarted \<longleftrightarrow> \<not> ba_started a) \<and> (ba_reader a = Unstarted \<longleftrightarrow> \<not> ba_started a) \<and>
     (ba_stopped a \<longleftrightarrow> ba_phase a \<noteq> NotStopping) \<and> (ba_stopped a \<longrightarrow> ba_started a) \<and> (\<forall>p. ba_reader a \<noteq> Writing p) \<and>
     list_all packet_ok (ba_accepted a) \<and>
     (ba_phase a = Stopped \<longrightarrow> ba_reader a = Ended \<and> ba_writer a = Ended \<and> ba_error_flag a) \<and>
     (if ba_writer a = Ended then prefix (ba_wire a) (concat (map packet_bytes (ba_accepted a)))
      else (\<exists>sent. ba_accepted a = sent @ in_flight (ba_writer a) @ ba_write_queue a \<and> ba_wire a = concat (map packet_bytes sent)))"

lemma adapter_ok_new [simp]: "adapter_ok (new_adapter c)"
  by (simp add: adapter_ok_def new_adapter_def)

section \<open>What the adapter relies on\<close>

text \<open>
  \<open>stream\<close> is what is still to be read, \<open>closed\<close> a connection after \<^verbatim>\<open>Close\<close>, which has to make reads and writes
  fail.
\<close>

locale blocking_connection =
  fixes Read :: "'c \<Rightarrow> apacket option \<times> 'c"
    and Write :: "'c \<Rightarrow> apacket \<Rightarrow> (bool \<times> string \<times> 'c) run"
    and Close :: "'c \<Rightarrow> 'c"
    and stream :: "'c \<Rightarrow> string"
    and closed :: "'c \<Rightarrow> bool"
  assumes read_some: "Read c = (Some p, c') \<Longrightarrow> stream c = packet_bytes p @ stream c' \<and> packet_ok p"
    and write_out: "packet_ok p \<Longrightarrow> Write c p = Done (ok, out, c') \<Longrightarrow>
      prefix out (packet_bytes p) \<and> (ok \<longrightarrow> out = packet_bytes p) \<and> stream c' = stream c"
    and close_closed: "closed (Close c)"
    and close_stream: "stream (Close c) = []"
    and closed_read: "closed c \<Longrightarrow> \<exists>c'. Read c = (None, c') \<and> closed c'"
    and closed_write: "closed c \<Longrightarrow> \<exists>out c'. Write c p = Done (False, out, c') \<and> closed c'"
begin

lemma wrote_ok:
  assumes "adapter_ok a" "ba_writer a = Writing p" "writer_write Write p a = Done a'"
  shows "adapter_ok a'"
proof -
  obtain ok out c where w: "Write (ba_conn a) p = Done (ok, out, c)"
    and a': "a' = (let a = a\<lparr>ba_conn := c, ba_wire := ba_wire a @ out\<rparr> in
       if ok then a\<lparr>ba_writer := Running\<rparr> else once_error ''write failed'' (a\<lparr>ba_writer := Ended\<rparr>))"
    using assms(3) by (auto simp: writer_write_def Let_def)
  obtain sent where sent: "ba_accepted a = sent @ p # ba_write_queue a" "ba_wire a = concat (map packet_bytes sent)"
    using assms(1,2) by (auto simp: adapter_ok_def)
  then have "packet_ok p" using assms(1) by (simp add: adapter_ok_def)
  from write_out [OF this w] have out: "prefix out (packet_bytes p)" "ok \<Longrightarrow> out = packet_bytes p" by simp_all
  have "prefix (ba_wire a @ out) (concat (map packet_bytes (ba_accepted a)))"
    using out(1) by (auto simp: sent prefix_def)
  moreover have "\<exists>s. ba_accepted a = s @ ba_write_queue a \<and> ba_wire a @ out = concat (map packet_bytes s)" if ok
    using sent out(2) [OF that] by (intro exI [of _ "sent @ [p]"]) simp
  ultimately show ?thesis using assms(1,2) unfolding a' by (auto simp: adapter_ok_def once_error_def Let_def)
qed

lemma reader_ok:
  assumes "adapter_ok a" "ba_reader a = Running"
  shows "adapter_ok (reader_turn Read a)"
proof -
  have live: "ba_phase a \<noteq> Stopped" "ba_started a" using assms by (auto simp: adapter_ok_def)
  show ?thesis
  proof (cases "Read (ba_conn a)")
    case (Pair r c)
    show ?thesis
    proof (cases r)
      case None
      then show ?thesis using assms live Pair by (cases "ba_error_flag a") (simp_all add: adapter_ok_def reader_turn_def once_error_def)
    next
      case (Some p)
      then show ?thesis using assms live Pair by (simp add: adapter_ok_def reader_turn_def Let_def)
    qed
  qed
qed

lemma wait_ok:
  assumes "adapter_ok a" "ba_writer a = Running" "writer_wait a = Some a'"
  shows "adapter_ok a'"
proof -
  obtain sent where sent: "ba_accepted a = sent @ ba_write_queue a" "ba_wire a = concat (map packet_bytes sent)"
    using assms(1,2) by (auto simp: adapter_ok_def)
  show ?thesis
  proof (cases "ba_stopped a")
    case True
    then have "a' = a\<lparr>ba_writer := Ended\<rparr>" using assms(3) by (simp add: writer_wait_def)
    then show ?thesis using assms(1,2) sent by (auto simp: adapter_ok_def)
  next
    case False
    then obtain p q where "ba_write_queue a = p # q" "a' = a\<lparr>ba_write_queue := q, ba_writer := Writing p\<rparr>"
      using assms(3) by (auto simp: writer_wait_def split: list.splits)
    then show ?thesis using assms(1,2) sent by (auto simp: adapter_ok_def)
  qed
qed

lemma step_ok: "adapter_step Read Write Close a a' \<Longrightarrow> adapter_ok a \<Longrightarrow> adapter_ok a'"
proof (induction rule: adapter_step.induct)
  case (start a a')
  then have "\<not> ba_started a" "a' = a\<lparr>ba_reader := Running, ba_writer := Running, ba_started := True\<rparr>"
    by (simp_all add: adapter_Start_def split: if_splits)
  moreover from this have "ba_writer a = Unstarted" "ba_phase a = NotStopping" using start.prems by (auto simp: adapter_ok_def)
  ultimately show ?case using start.prems by (simp add: adapter_ok_def)
next
  case (put p a)
  show ?case
  proof (cases "ba_writer a = Ended")
    case True
    then have "prefix (ba_wire a) (concat (map packet_bytes (ba_accepted a @ [p])))" using put.prems by (auto simp: adapter_ok_def prefix_def)
    with True put show ?thesis by (simp add: adapter_ok_def adapter_Write_def)
  next
    case False
    then obtain sent where "ba_accepted a = sent @ in_flight (ba_writer a) @ ba_write_queue a" "ba_wire a = concat (map packet_bytes sent)"
      using put.prems by (auto simp: adapter_ok_def)
    with False put show ?thesis by (simp add: adapter_ok_def adapter_Write_def)
  qed
next
  case (reset a a')
  then have "a' = a\<lparr>ba_conn := Close (ba_conn a)\<rparr>" by (simp add: adapter_Reset_begin_def split: if_splits)
  then show ?case using reset.prems by (simp add: adapter_ok_def)
next
  case (stop a a')
  then have "ba_started a" "\<not> ba_stopped a" "a' = a\<lparr>ba_stopped := True, ba_phase := Stopping\<rparr>"
    by (simp_all add: adapter_Stop_begin_def split: if_splits)
  then show ?case using stop.prems by (simp add: adapter_ok_def) 
next
  case (close a)
  then have "ba_stopped a" by (auto simp: adapter_ok_def)
  then show ?case using close by (simp add: adapter_ok_def adapter_Stop_close_def)
next
  case (join a)
  then have "ba_stopped a" "ba_started a" by (auto simp: adapter_ok_def)
  then show ?case using join by (simp add: adapter_ok_def adapter_Stop_end_def once_error_def)
qed (blast intro: wrote_ok reader_ok wait_ok)+

text \<open>What the reader hands over is what the stream held.\<close>

definition read_ok :: "string \<Rightarrow> 'c adapter \<Rightarrow> bool" where
  "read_ok s a \<longleftrightarrow> list_all packet_ok (ba_handled a) \<and> prefix (concat (map packet_bytes (ba_handled a))) s \<and>
     (ba_reader a \<noteq> Ended \<longrightarrow> prefix (concat (map packet_bytes (ba_handled a)) @ stream (ba_conn a)) s)"

lemma step_read_ok: "adapter_step Read Write Close a a' \<Longrightarrow> adapter_ok a \<Longrightarrow> read_ok s a \<Longrightarrow> read_ok s a'"
proof (induction rule: adapter_step.induct)
  case (start a a')
  then show ?case by (auto simp: read_ok_def adapter_Start_def adapter_ok_def split: if_splits)
next
  case (wrote a p a')
  then obtain sent where "ba_accepted a = sent @ p # ba_write_queue a" by (auto simp: adapter_ok_def)
  then have "packet_ok p" using wrote by (simp add: adapter_ok_def)
  with wrote write_out [of p "ba_conn a"] show ?case
    by (auto simp: read_ok_def writer_write_def once_error_def Let_def split: if_splits)
next
  case (rd a)
  show ?case
  proof (cases "Read (ba_conn a)")
    case (Pair r c)
    with rd read_some [of "ba_conn a" _ c] show ?thesis
      by (cases r) (auto simp: read_ok_def reader_turn_def once_error_def prefix_def)
  qed
qed (auto simp: read_ok_def adapter_defs close_stream prefix_def split: if_splits list.splits)

lemma reach_ok:
  assumes "(adapter_step Read Write Close)\<^sup>*\<^sup>* (new_adapter c) a"
  shows "adapter_ok a \<and> read_ok (stream c) a"
  using assms
proof (induction rule: rtranclp_induct)
  case base
  then show ?case by (simp add: read_ok_def new_adapter_def adapter_ok_new [unfolded new_adapter_def])
qed (use step_ok step_read_ok in blast)

text \<open>After \<^verbatim>\<open>Close\<close> the threads end and \<^verbatim>\<open>Stop\<close> returns.\<close>

lemma stop_completes:
  assumes "adapter_ok a" "ba_phase a = Joining" "closed (ba_conn a)"
  shows "\<exists>a'. (adapter_step Read Write Close)\<^sup>*\<^sup>* a a' \<and> ba_phase a' = Stopped"
proof -
  let ?S = "adapter_step Read Write Close"
  have st: "ba_started a" "ba_stopped a" using assms(1,2) by (auto simp: adapter_ok_def)
  have "\<exists>b. ?S\<^sup>*\<^sup>* a b \<and> ba_phase b = Joining \<and> ba_reader b = Ended \<and> ba_writer b = ba_writer a \<and> ba_stopped b \<and> closed (ba_conn b)"
  proof (cases "ba_reader a = Ended")
    case False
    then have run: "ba_reader a = Running" using assms(1) st by (cases "ba_reader a") (auto simp: adapter_ok_def)
    obtain c' where "Read (ba_conn a) = (None, c')" "closed c'" using closed_read [OF assms(3)] by blast
    then have "ba_reader (reader_turn Read a) = Ended" "ba_phase (reader_turn Read a) = Joining" "ba_writer (reader_turn Read a) = ba_writer a"
      "ba_stopped (reader_turn Read a)" "closed (ba_conn (reader_turn Read a))"
      using assms(2) st(2) by (auto simp: reader_turn_def once_error_def)
    with adapter_step.rd [OF run, of Read Write Close] show ?thesis by blast
  qed (use assms st in blast)
  then obtain b where b: "?S\<^sup>*\<^sup>* a b" "ba_phase b = Joining" "ba_reader b = Ended" "ba_writer b = ba_writer a" "ba_stopped b" "closed (ba_conn b)"
    by blast
  have "\<exists>d. ?S\<^sup>*\<^sup>* b d \<and> ba_phase d = Joining \<and> ba_reader d = Ended \<and> ba_writer d = Ended"
  proof (cases "ba_writer a")
    case Running
    then have "?S b (b\<lparr>ba_writer := Ended\<rparr>)" using b by (intro adapter_step.wait) (simp_all add: writer_wait_def)
    with b show ?thesis by (intro exI [of _ "b\<lparr>ba_writer := Ended\<rparr>"]) simp
  next
    case (Writing p)
    obtain out c' where "Write (ba_conn b) p = Done (False, out, c')" using closed_write [OF b(6)] by blast
    then obtain d where "writer_write Write p b = Done d" "ba_phase d = Joining" "ba_reader d = Ended" "ba_writer d = Ended"
      using b by (auto simp: writer_write_def once_error_def Let_def)
    with b Writing show ?thesis using adapter_step.wrote [of b p Write d Read Close] by auto
  qed (use assms(1) st b in \<open>auto simp: adapter_ok_def\<close>)
  then obtain d where d: "?S\<^sup>*\<^sup>* b d" "ba_phase d = Joining" "ba_reader d = Ended" "ba_writer d = Ended" by blast
  have "ba_phase (adapter_Stop_end d) = Stopped" by (simp add: adapter_Stop_end_def once_error_def)
  moreover have "?S\<^sup>*\<^sup>* a (adapter_Stop_end d)"
    using b(1) d(1) adapter_step.join [OF d(2-4), of Read Write Close] by (meson rtranclp.rtrancl_into_rtrancl rtranclp_trans)
  ultimately show ?thesis by blast
qed

end

section \<open>Descriptors\<close>

text \<open>The bytes of a packet determine it, and what follows it.\<close>

lemma four_bytes:
  assumes "a < 256" "b < 256" "c < 256" "d < 256"
  defines "n \<equiv> a + 256 * b + 65536 * c + 16777216 * (d :: nat)"
  shows "n mod 256 = a" "n div 256 mod 256 = b" "n div 65536 mod 256 = c" "n div 16777216 mod 256 = d"
proof -
  have step: "(x + 256 * y) div 256 = y" "(x + 256 * y) mod 256 = x" if "x < 256" for x y :: nat using that by simp_all
  have 1: "n div 256 = b + 256 * c + 65536 * d" "n mod 256 = a" using step [OF assms(1), of "b + 256 * c + 65536 * d"] by (simp_all add: n_def add.assoc)
  have 2: "(b + 256 * c + 65536 * d) div 256 = c + 256 * d" "(b + 256 * c + 65536 * d) mod 256 = b" using step [OF assms(2), of "c + 256 * d"] by (simp_all add: add.assoc)
  note 3 = step [OF assms(3), of d]
  have "n div 65536 = n div 256 div 256" "n div 16777216 = n div 256 div 256 div 256" by (simp_all add: div_mult2_eq [symmetric])
  with 1 2 3 assms(4) show "n mod 256 = a" "n div 256 mod 256 = b" "n div 65536 mod 256 = c" "n div 16777216 mod 256 = d" by simp_all
qed

lemma le32_of_le32:
  assumes "length s = 4"
  shows "le32 (of_le32 s) = s"
proof -
  obtain a b c d where s: "s = [a, b, c, d]" using assms by (auto simp: numeral_eq_Suc length_Suc_conv)
  let ?n = "of_char a + 256 * of_char b + 65536 * of_char c + 16777216 * of_char d :: nat"
  have lt: "of_char x < (256 :: nat)" for x using nat_of_char_less_256 by simp
  have "unat (word_of_nat n :: u32) = n" if "n < 4294967296" for n using that by (simp add: unat_of_nat)
  moreover have "?n < 4294967296" using lt [of a] lt [of b] lt [of c] lt [of d] by linarith
  ultimately have u: "unat (word_of_nat ?n :: u32) = ?n" by blast
  have "?n mod 256 = of_char a" "?n div 256 mod 256 = of_char b" "?n div 65536 mod 256 = of_char c" "?n div 16777216 mod 256 = of_char d"
    by (rule four_bytes [OF lt lt lt lt])+
  then show ?thesis unfolding s of_le32_bytes le32_bytes u by (metis char_of_char char_of_mod_256)
qed

lemma msg_bytes_of_bytes:
  assumes "length h = 24"
  shows "msg_bytes (msg_of_bytes h) = h"
proof -
  let ?w = "\<lambda>i. take 4 (drop (4 * i) h)"
  have "le32 (of_le32 (?w i)) = ?w i" if "i < 6" for i by (rule le32_of_le32) (use that assms in simp)
  from this [of 0] this [of 1] this [of 2] this [of 3] this [of 4] this [of 5]
  have "msg_bytes (msg_of_bytes h) = ?w 0 @ ?w 1 @ ?w 2 @ ?w 3 @ ?w 4 @ ?w 5" by (simp add: msg_bytes_def msg_of_bytes_def)
  also have "\<dots> = h" using assms by (simp add: take_add [symmetric] append_assoc [symmetric] del: append_assoc)
  finally show ?thesis .
qed

lemma packet_bytes_inject:
  assumes "packet_ok p" "packet_ok q" "packet_bytes p @ x = packet_bytes q @ y"
  shows "p = q \<and> x = y"
proof -
  have "msg_bytes (p_msg p) = msg_bytes (p_msg q)" "p_payload p @ x = p_payload q @ y"
    using assms(3) by (simp_all add: packet_bytes_def append_eq_append_conv)
  moreover from this(1) have "p_msg p = p_msg q" by (metis msg_of_bytes_msg_bytes)
  ultimately show ?thesis using assms(1,2) by (auto simp: packet_ok_def)
qed

lemma prefix_packets:
  assumes "list_all packet_ok hs" "list_all packet_ok ss" "prefix (concat (map packet_bytes hs)) (concat (map packet_bytes ss))"
  shows "prefix hs ss"
  using assms
proof (induction hs arbitrary: ss)
  case (Cons h hs)
  then obtain rest where r: "packet_bytes h @ concat (map packet_bytes hs) @ rest = concat (map packet_bytes ss)" by (auto simp: prefix_def)
  have "packet_bytes h \<noteq> []" by (metis append_is_Nil_conv length_0_conv length_msg_bytes packet_bytes_def zero_neq_numeral)
  with r obtain s ss' where ss: "ss = s # ss'" by (cases ss) auto
  with r Cons.prems(1,2) packet_bytes_inject [of h s] have "h = s" "concat (map packet_bytes hs) @ rest = concat (map packet_bytes ss')"
    by auto
  with Cons ss show ?case by (auto simp: prefix_def)
qed simp

text \<open>
  \<^verbatim>\<open>FdConnection\<close> as a \<^verbatim>\<open>BlockingConnection\<close>; \<open>None\<close> after \<^verbatim>\<open>Close\<close>, which shuts the descriptor down and resets it, so
  that every read and write fails.
\<close>

definition FdConnection_Close :: "'t fd_connection option \<Rightarrow> 't fd_connection option" where
  "FdConnection_Close c = None"

definition fd_Read :: "('t \<Rightarrow> nat \<Rightarrow> bool \<times> string \<times> 't) \<Rightarrow> 't fd_connection option \<Rightarrow> apacket option \<times> 't fd_connection option" where
  "fd_Read ReadFully c =
     (case c of
        None \<Rightarrow> (None, None)
      | Some fc \<Rightarrow> (case FdConnection_Read ReadFully fc of (p, fc') \<Rightarrow> (p, Some fc')))"

definition fd_Write ::
    "('t \<Rightarrow> string \<Rightarrow> bool \<times> string \<times> 't) \<Rightarrow> 't fd_connection option \<Rightarrow> apacket \<Rightarrow> (bool \<times> string \<times> 't fd_connection option) run" where
  "fd_Write WriteFully c p =
     (case c of
        None \<Rightarrow> Done (False, [], None)
      | Some fc \<Rightarrow> bindR (FdConnection_Write WriteFully fc p) (\<lambda>(ok, out, fc'). Done (ok, out, Some fc')))"

definition fd_stream :: "('t \<Rightarrow> string) \<Rightarrow> 't fd_connection option \<Rightarrow> string" where
  "fd_stream tls_stream c = (case c of None \<Rightarrow> [] | Some fc \<Rightarrow> conn_stream tls_stream fc)"

lemma FdConnection_Read_stream:
  assumes "byte_source ReadFully tls_stream" "FdConnection_Read ReadFully c = (Some p, c')"
  shows "conn_stream tls_stream c = packet_bytes p @ conn_stream tls_stream c'"
proof -
  note tr = byte_source.rd_true [OF DispatchRead_source [OF assms(1)]]
  obtain hdr c1 where 1: "DispatchRead ReadFully c 24 = (True, hdr, c1)"
    using assms(2) by (auto simp: FdConnection_Read_def split: prod.splits bool.splits)
  obtain body where 2: "DispatchRead ReadFully c1 (unat (m_data_length (msg_of_bytes hdr))) = (True, body, c')"
      "p = \<lparr>p_msg = msg_of_bytes hdr, p_payload = body\<rparr>"
    using assms(2) 1 by (auto simp: FdConnection_Read_def Let_def split: prod.splits bool.splits if_splits)
  with tr [OF 1] tr [OF 2(1)] show ?thesis by (simp add: packet_bytes_def msg_bytes_of_bytes)
qed

lemma DispatchWrite_out:
  assumes "\<And>t b ok out t'. WriteFully t b = (ok, out, t') \<Longrightarrow> prefix out b \<and> (ok \<longrightarrow> out = b) \<and> tls_stream t' = tls_stream t"
    and "DispatchWrite WriteFully c b = (ok, out, c')"
  shows "prefix out b \<and> (ok \<longrightarrow> out = b) \<and> conn_stream tls_stream c' = conn_stream tls_stream c"
proof (cases "fc_tls c")
  case None
  with assms(2) WriteFdExactly_prefix [of "fc_out c" b] show ?thesis by (auto simp: DispatchWrite_def conn_stream_def split: prod.splits)
next
  case (Some t)
  with assms(2) assms(1) [of t b] show ?thesis by (auto simp: DispatchWrite_def conn_stream_def split: prod.splits if_splits)
qed

lemma FdConnection_Write_out:
  assumes tls: "\<And>t b ok out t'. WriteFully t b = (ok, out, t') \<Longrightarrow> prefix out b \<and> (ok \<longrightarrow> out = b) \<and> tls_stream t' = tls_stream t"
    and "packet_ok p" "FdConnection_Write WriteFully c p = Done (ok, out, c')"
  shows "prefix out (packet_bytes p) \<and> (ok \<longrightarrow> out = packet_bytes p) \<and> conn_stream tls_stream c' = conn_stream tls_stream c"
proof -
  have w: "prefix out b \<and> (ok \<longrightarrow> out = b) \<and> conn_stream tls_stream c' = conn_stream tls_stream c"
    if "DispatchWrite WriteFully c b = (ok, out, c')" for c b ok out c'
    by (rule DispatchWrite_out [OF _ that]) (rule tls)
  obtain ok1 out1 c1 where 1: "DispatchWrite WriteFully c (msg_bytes (p_msg p)) = (ok1, out1, c1)" by (metis prod_cases3)
  note w1 = w [OF 1]
  obtain ok2 out2 c2 where 2: "DispatchWrite WriteFully c1 (p_payload p) = (ok2, out2, c2)" by (metis prod_cases3)
  note w2 = w [OF 2]
  show ?thesis
    using assms(2,3) 1 2 w1 w2
    by (cases ok1; cases "p_payload p = []") (auto simp: FdConnection_Write_def packet_ok_def packet_bytes_def prefix_def)
qed

lemma fd_blocking:
  assumes "byte_source ReadFully tls_stream"
    and "\<And>t b ok out t'. WriteFully t b = (ok, out, t') \<Longrightarrow> prefix out b \<and> (ok \<longrightarrow> out = b) \<and> tls_stream t' = tls_stream t"
  shows "blocking_connection (fd_Read ReadFully) (fd_Write WriteFully) FdConnection_Close (fd_stream tls_stream) (\<lambda>c. c = None)"
proof (unfold_locales, goal_cases)
  case (1 c p c')
  then show ?case
    using FdConnection_Read_stream [OF assms(1)] FdConnection_Read_packet_ok [OF assms(1)]
    by (auto simp: fd_Read_def fd_stream_def split: option.splits prod.splits)
next
  case (2 p c ok out c')
  then show ?case
    using FdConnection_Write_out [of WriteFully tls_stream p] assms(2) by (auto simp: fd_Write_def fd_stream_def split: option.splits)
qed (simp_all add: fd_Read_def fd_Write_def FdConnection_Close_def fd_stream_def)

text \<open>A connection without TLS.\<close>

definition no_tls_read :: "unit \<Rightarrow> nat \<Rightarrow> bool \<times> string \<times> unit" where
  "no_tls_read t n = (n = 0, [], ())"

definition no_tls_write :: "unit \<Rightarrow> string \<Rightarrow> bool \<times> string \<times> unit" where
  "no_tls_write t b = (b = [], [], ())"

lemma no_tls_source: "byte_source no_tls_read (\<lambda>_. [])"
  by unfold_locales (simp_all add: no_tls_read_def)

lemma no_tls_out: "no_tls_write t b = (ok, out, t') \<Longrightarrow> prefix out b \<and> (ok \<longrightarrow> out = b) \<and> (\<lambda>_. []) t' = (\<lambda>_. [] :: string) t"
  by (auto simp: no_tls_write_def)

interpretation plain: blocking_connection "fd_Read no_tls_read" "fd_Write no_tls_write" FdConnection_Close "fd_stream (\<lambda>_. [])" "\<lambda>c. c = None"
  by (rule fd_blocking [OF no_tls_source]) (rule no_tls_out)

text \<open>One packet sent and received without TLS.\<close>

definition plain_conn :: "rd_event list \<Rightarrow> unit fd_connection" where
  "plain_conn es = \<lparr>fc_in = es, fc_out = [], fc_tls = None\<rparr>"

lemma sample_ok: "packet_ok sample_packet"
  by (simp add: packet_ok_def sample_packet_def MAX_PAYLOAD_def)

lemma sample_written: "\<exists>c'. FdConnection_Write no_tls_write (plain_conn es) sample_packet = Done (True, packet_bytes sample_packet, c')"
proof -
  obtain es1 where 1: "WriteFdExactly [] (msg_bytes (p_msg sample_packet)) = (True, msg_bytes (p_msg sample_packet), es1)" "no_hard_error es1"
    using WriteFdExactly_complete [of "[]"] by (auto simp: no_hard_error_def)
  obtain es2 where 2: "WriteFdExactly es1 ''hi'' = (True, ''hi'', es2)" using WriteFdExactly_complete [OF 1(2)] by blast
  from 1 2 show ?thesis
    by (simp add: FdConnection_Write_def DispatchWrite_def packet_bytes_def plain_conn_def) (simp add: sample_packet_def DispatchWrite_def)
qed

lemma sample_sent:
  "\<exists>a. (adapter_step (fd_Read no_tls_read) (fd_Write no_tls_write) FdConnection_Close)\<^sup>*\<^sup>* (new_adapter (Some (plain_conn []))) a \<and>
     ba_accepted a = [sample_packet] \<and> ba_wire a = packet_bytes sample_packet \<and> adapter_Stop_begin a \<noteq> None"
proof -
  let ?S = "adapter_step (fd_Read no_tls_read) (fd_Write no_tls_write) FdConnection_Close"
  define a1 where "a1 = adapter_Write sample_packet (new_adapter (Some (plain_conn [])))"
  define a2 where "a2 = a1\<lparr>ba_reader := Running, ba_writer := Running, ba_started := True\<rparr>"
  define a3 where "a3 = a2\<lparr>ba_write_queue := [], ba_writer := Writing sample_packet\<rparr>"
  obtain c' where c': "FdConnection_Write no_tls_write (plain_conn []) sample_packet = Done (True, packet_bytes sample_packet, c')"
    using sample_written by blast
  define a4 where "a4 = a3\<lparr>ba_conn := Some c', ba_wire := packet_bytes sample_packet, ba_writer := Running\<rparr>"
  note d = a1_def a2_def a3_def a4_def new_adapter_def
  have "?S (new_adapter (Some (plain_conn []))) a1" unfolding a1_def by (rule adapter_step.put [OF sample_ok])
  moreover have "?S a1 a2" by (rule adapter_step.start) (simp add: d adapter_Start_def adapter_Write_def)
  moreover have "?S a2 a3" by (rule adapter_step.wait) (simp_all add: d writer_wait_def adapter_Write_def)
  moreover have "?S a3 a4" by (rule adapter_step.wrote [of _ sample_packet]) (simp_all add: d writer_write_def adapter_Write_def fd_Write_def c')
  ultimately have "?S\<^sup>*\<^sup>* (new_adapter (Some (plain_conn []))) a4" by (meson converse_rtranclp_into_rtranclp rtranclp.rtrancl_refl)
  moreover have "ba_accepted a4 = [sample_packet] \<and> ba_wire a4 = packet_bytes sample_packet \<and> adapter_Stop_begin a4 \<noteq> None"
    by (simp add: d adapter_Write_def adapter_Stop_begin_def)
  ultimately show ?thesis by blast
qed

lemma sample_received:
  "\<exists>b. (adapter_step (fd_Read no_tls_read) (fd_Write no_tls_write) FdConnection_Close)\<^sup>*\<^sup>*
      (new_adapter (Some (plain_conn [Avail (packet_bytes sample_packet)]))) b \<and> ba_handled b = [sample_packet]"
proof -
  let ?S = "adapter_step (fd_Read no_tls_read) (fd_Write no_tls_write) FdConnection_Close"
  let ?c = "plain_conn [Avail (packet_bytes sample_packet)]"
  define b1 where "b1 = (new_adapter (Some ?c))\<lparr>ba_reader := Running, ba_writer := Running, ba_started := True\<rparr>"
  have "conn_stream (\<lambda>_. []) ?c = packet_bytes sample_packet @ []" by (simp add: plain_conn_def conn_stream_def)
  from framing.recv_enc [OF FdConnection_Read_framing [OF no_tls_source] sample_ok this]
  obtain c' where c': "FdConnection_Read no_tls_read ?c = (Some sample_packet, c')" by blast
  have "?S (new_adapter (Some ?c)) b1" by (rule adapter_step.start) (simp add: b1_def adapter_Start_def new_adapter_def)
  moreover have "?S b1 (reader_turn (fd_Read no_tls_read) b1)" by (rule adapter_step.rd) (simp add: b1_def)
  moreover have "ba_handled (reader_turn (fd_Read no_tls_read) b1) = [sample_packet]"
    by (simp add: reader_turn_def b1_def new_adapter_def fd_Read_def c')
  ultimately show ?thesis by (meson converse_rtranclp_into_rtranclp rtranclp.rtrancl_refl)
qed

section \<open>Properties\<close>

text \<open>
  C12: Two ends of a connection, each with its own threads, in any interleaving of reading, writing,
  failing and stopping: what the receiver hands to its transport is a beginning of what was given
  to the sender, in order and unchanged, and each end reports at most one error.
\<close>

theorem adapters_deliver:
  assumes "byte_source RA sa" "byte_source RB sb"
    and "\<And>t b ok out t'. WA t b = (ok, out, t') \<Longrightarrow> prefix out b \<and> (ok \<longrightarrow> out = b) \<and> sa t' = sa t"
    and "\<And>t b ok out t'. WB t b = (ok, out, t') \<Longrightarrow> prefix out b \<and> (ok \<longrightarrow> out = b) \<and> sb t' = sb t"
    and "(adapter_step (fd_Read RA) (fd_Write WA) FdConnection_Close)\<^sup>*\<^sup>* (new_adapter (Some ca)) a"
    and "(adapter_step (fd_Read RB) (fd_Write WB) FdConnection_Close)\<^sup>*\<^sup>* (new_adapter (Some cb)) b"
    and "prefix (conn_stream sb cb) (ba_wire a)"
  shows "prefix (ba_handled b) (ba_accepted a) \<and> length (ba_errors a) \<le> 1 \<and> length (ba_errors b) \<le> 1"
proof -
  have "blocking_connection (fd_Read RA) (fd_Write WA) FdConnection_Close (fd_stream sa) (\<lambda>c. c = None)"
    by (rule fd_blocking [OF assms(1)]) (rule assms(3))
  from blocking_connection.reach_ok [OF this assms(5)] have a: "adapter_ok a" by simp
  have B: "blocking_connection (fd_Read RB) (fd_Write WB) FdConnection_Close (fd_stream sb) (\<lambda>c. c = None)"
    by (rule fd_blocking [OF assms(2)]) (rule assms(4))
  from blocking_connection.reach_ok [OF this assms(6)] have b: "adapter_ok b"
    and h: "list_all packet_ok (ba_handled b)" "prefix (concat (map packet_bytes (ba_handled b))) (conn_stream sb cb)"
    by (simp_all add: blocking_connection.read_ok_def [OF B] fd_stream_def)
  have "prefix (ba_wire a) (concat (map packet_bytes (ba_accepted a)))"
    using a by (auto simp: adapter_ok_def split: if_splits)
  with h(2) assms(7) have "prefix (concat (map packet_bytes (ba_handled b))) (concat (map packet_bytes (ba_accepted a)))"
    using prefix_order.trans by blast
  with a b h(1) show ?thesis using prefix_packets by (simp add: adapter_ok_def)
qed

theorem adapters_deliver_witness:
  "\<exists>a b. ba_handled (b :: unit fd_connection option adapter) = [sample_packet] \<and>
     (adapter_step (fd_Read no_tls_read) (fd_Write no_tls_write) FdConnection_Close)\<^sup>*\<^sup>* (new_adapter (Some (plain_conn []))) a \<and>
     prefix (ba_handled b) (ba_accepted a)"
proof -
  obtain a where a: "(adapter_step (fd_Read no_tls_read) (fd_Write no_tls_write) FdConnection_Close)\<^sup>*\<^sup>* (new_adapter (Some (plain_conn []))) a"
    "ba_wire a = packet_bytes sample_packet" using sample_sent by blast
  obtain b where b: "(adapter_step (fd_Read no_tls_read) (fd_Write no_tls_write) FdConnection_Close)\<^sup>*\<^sup>*
      (new_adapter (Some (plain_conn [Avail (packet_bytes sample_packet)]))) b" "ba_handled b = [sample_packet]" using sample_received by blast
  have "prefix (conn_stream (\<lambda>_. []) (plain_conn [Avail (packet_bytes sample_packet)])) (ba_wire a)"
    by (simp add: a(2) plain_conn_def conn_stream_def)
  have "prefix (ba_handled b) (ba_accepted a) \<and> length (ba_errors a) \<le> 1 \<and> length (ba_errors b) \<le> 1"
    by (rule adapters_deliver [OF no_tls_source no_tls_source _ _ a(1) b(1) \<open>prefix _ (ba_wire a)\<close>]) (rule no_tls_out, assumption)+
  with a(1) b(2) show ?thesis by blast
qed





end
