(* ===== verification/IO_Vector.thy ===== *)
theory IO_Vector
  imports Prelude
begin

text \<open>
  The byte containers of \<^verbatim>\<open>adb/types.h\<close> and \<^verbatim>\<open>adb/types.cpp\<close>: \<^verbatim>\<open>Block\<close>, a heap buffer with a
  capacity and a size, and \<^verbatim>\<open>IOVector\<close>, a chain of blocks used as the outgoing queue of a socket.
  Every method is one definition.  The invariant \<open>iov_inv\<close> and the abstraction \<open>iov_bytes\<close> give
  each of them its meaning as an operation on a plain byte string, and the locale
  \<open>byte_queue\<close> states what the sockets rely on.
\<close>

section \<open>Block\<close>

text \<open>
  \<open>blk_buf\<close> is the whole allocation (its length is \<^verbatim>\<open>capacity_\<close>, and it is empty exactly when
  \<^verbatim>\<open>data_\<close> is null), \<open>blk_size\<close> is \<^verbatim>\<open>size_\<close>.
\<close>

record block =
  blk_buf :: string
  blk_size :: nat

definition empty_block :: block where
  "empty_block = \<lparr>blk_buf = [], blk_size = 0\<rparr>"

definition block_capacity :: "block \<Rightarrow> nat" where
  "block_capacity b = length (blk_buf b)"

definition block_bytes :: "block \<Rightarrow> string" where
  "block_bytes b = take (blk_size b) (blk_buf b)"

definition block_allocate :: "block \<Rightarrow> nat \<Rightarrow> block run" where
  "block_allocate b n =
     bindR (checkR (blk_buf b = [])) (\<lambda>_.
     bindR (checkR (block_capacity b = 0)) (\<lambda>_.
     bindR (checkR (blk_size b = 0)) (\<lambda>_.
       Done (if n \<noteq> 0 then b\<lparr>blk_buf := replicate n indeterminate, blk_size := n\<rparr> else b))))"

definition block_of_range :: "string \<Rightarrow> block run" where
  "block_of_range xs =
     bindR (block_allocate empty_block (length xs)) (\<lambda>b.
     bindR (store_at (blk_buf b) 0 xs) (\<lambda>buf. Done (b\<lparr>blk_buf := buf\<rparr>)))"

definition block_resize :: "block \<Rightarrow> nat \<Rightarrow> block run" where
  "block_resize b n =
     (if blk_buf b = [] then block_allocate b n
      else bindR (checkR (block_capacity b \<ge> n)) (\<lambda>_. Done (b\<lparr>blk_size := n\<rparr>)))"

definition block_clear :: "block \<Rightarrow> block" where
  "block_clear b = b\<lparr>blk_buf := [], blk_size := 0\<rparr>"

definition block_assign :: "block \<Rightarrow> string \<Rightarrow> block run" where
  "block_assign b xs =
     bindR (block_allocate (block_clear b) (length xs)) (\<lambda>b.
     bindR (store_at (blk_buf b) 0 xs) (\<lambda>buf. Done (b\<lparr>blk_buf := buf\<rparr>)))"

text \<open>The move constructor and the move assignment: the value moved to, and what is left behind.\<close>

definition block_move :: "block \<Rightarrow> block \<times> block" where
  "block_move b = (b, \<lparr>blk_buf = [], blk_size = 0\<rparr>)"

definition block_eq :: "block \<Rightarrow> block \<Rightarrow> bool" where
  "block_eq a b \<longleftrightarrow> blk_size a = blk_size b
     \<and> take (blk_size a) (blk_buf a) = take (blk_size a) (blk_buf b)"

definition blk_ok :: "block \<Rightarrow> bool" where
  "blk_ok b \<longleftrightarrow> blk_size b \<le> length (blk_buf b)"

lemma length_block_bytes [simp]: "blk_ok b \<Longrightarrow> length (block_bytes b) = blk_size b"
  by (simp add: blk_ok_def block_bytes_def)

lemma blk_ok_empty [simp]: "blk_ok empty_block"
  by (simp add: blk_ok_def empty_block_def)

lemma empty_block_sel [simp]: "blk_size empty_block = 0" "blk_buf empty_block = []"
  by (simp_all add: empty_block_def)

lemma block_of_range_Done [simp]: "block_of_range xs = Done \<lparr>blk_buf = xs, blk_size = length xs\<rparr>"
  by (simp add: block_of_range_def block_allocate_def block_capacity_def store_at_def empty_block_def)

lemma block_assign_Done [simp]: "block_assign b xs = Done (b\<lparr>blk_buf := xs, blk_size := length xs\<rparr>)"
  by (simp add: block_assign_def block_clear_def block_allocate_def block_capacity_def store_at_def)

lemma blk_ok_of_range [simp]: "blk_ok \<lparr>blk_buf = xs, blk_size = length xs\<rparr>"
  by (simp add: blk_ok_def)

lemma block_bytes_of_range [simp]: "block_bytes \<lparr>blk_buf = xs, blk_size = length xs\<rparr> = xs"
  by (simp add: block_bytes_def)

lemma block_resize_shrink:
  "blk_ok b \<Longrightarrow> n \<le> blk_size b \<Longrightarrow> block_resize b n = Done (b\<lparr>blk_size := n\<rparr>)"
  by (cases b) (auto simp: block_resize_def block_allocate_def block_capacity_def blk_ok_def)

section \<open>IOVector\<close>

record iovector =
  chain_length :: nat
  begin_offset :: nat
  start_index :: nat
  chain :: "block list"

definition empty_iov :: iovector where
  "empty_iov = \<lparr>chain_length = 0, begin_offset = 0, start_index = 0, chain = []\<rparr>"

definition iov_front_data :: "iovector \<Rightarrow> string option run" where
  "iov_front_data v =
     (if chain v = [] then Done None
      else bindR (at (chain v) (start_index v)) (\<lambda>b. Done (Some (drop (begin_offset v) (blk_buf b)))))"

definition iov_front_size :: "iovector \<Rightarrow> nat run" where
  "iov_front_size v =
     (if chain v = [] then Done 0
      else bindR (at (chain v) (start_index v)) (\<lambda>b. Done (blk_size b - begin_offset v)))"

definition iov_size :: "iovector \<Rightarrow> nat" where
  "iov_size v = chain_length v - begin_offset v"

definition iov_empty :: "iovector \<Rightarrow> bool" where
  "iov_empty v \<longleftrightarrow> iov_size v = 0"

definition iov_clear :: "iovector \<Rightarrow> block \<times> iovector" where
  "iov_clear v =
     (if chain v \<noteq> [] then last (chain v) else empty_block,
      v\<lparr>chain_length := 0, begin_offset := 0, start_index := 0, chain := []\<rparr>)"

text \<open>\<^verbatim>\<open>operator=(IOVector&&)\<close>: the target takes the source's fields, the source is cleared.\<close>

definition iov_move :: "iovector \<Rightarrow> iovector \<times> iovector" where
  "iov_move src = (src, snd (iov_clear (src\<lparr>chain := []\<rparr>)))"

definition iov_append :: "iovector \<Rightarrow> block \<Rightarrow> iovector run" where
  "iov_append v b =
     (if blk_size b = 0 then Done v
      else bindR (checkR (0 \<noteq> blk_size b)) (\<lambda>_.
        Done (v\<lparr>chain_length := chain_length v + blk_size b, chain := chain v @ [b]\<rparr>)))"

definition trim_chain_front :: "iovector \<Rightarrow> iovector" where
  "trim_chain_front v =
     (if start_index v \<noteq> 0
      then v\<lparr>chain := drop (start_index v) (chain v), start_index := 0\<rparr> else v)"

definition pop_front_block :: "iovector \<Rightarrow> iovector run" where
  "pop_front_block v =
     bindR (at (chain v) (start_index v)) (\<lambda>b.
       let v1 = v\<lparr>chain_length := chain_length v - blk_size b, begin_offset := 0,
                  chain := (chain v)[start_index v := block_clear b],
                  start_index := start_index v + 1\<rparr>
       in Done (if start_index v1 > max 4 (length (chain v1) div 2)
                then trim_chain_front v1 else v1))"

lemma pop_front_block_progress:
  "pop_front_block v = Done v' \<Longrightarrow>
     length (chain v') - start_index v' < length (chain v) - start_index v"
  by (auto simp: pop_front_block_def trim_chain_front_def Let_def split: if_splits)

text \<open>
  The loop of \<^verbatim>\<open>drop_front\<close>.  \<open>dropped\<close> is declared \<^verbatim>\<open>auto dropped = 0u\<close>, so it is a 32-bit
  counter and \<^verbatim>\<open>dropped += next\<close> wraps; the comparison \<^verbatim>\<open>dropped + next <= len\<close> is done in
  \<^verbatim>\<open>size_t\<close>.
\<close>

function drop_front_loop :: "iovector \<Rightarrow> nat \<Rightarrow> nat \<Rightarrow> iovector run" where
  "drop_front_loop v dropped len =
     (if dropped < len then
        bindR (at (chain v) (start_index v)) (\<lambda>b.
          let nxt = blk_size b - begin_offset v in
          if dropped + nxt \<le> len then
            bindR (pop_front_block v) (\<lambda>v'. drop_front_loop v' ((dropped + nxt) mod 2 ^ 32) len)
          else Done (v\<lparr>begin_offset := begin_offset v + (len - dropped)\<rparr>))
      else Done v)"
  by pat_completeness auto
termination
  by (relation "measure (\<lambda>(v, d, l). length (chain v) - start_index v)")
     (simp_all only: wf_measure in_measure prod.case, blast intro: pop_front_block_progress)

declare drop_front_loop.simps [simp del]

definition drop_front :: "iovector \<Rightarrow> nat \<Rightarrow> iovector run" where
  "drop_front v len =
     (if len = 0 then Done v
      else if len = iov_size v then Done (snd (iov_clear v))
      else bindR (checkR (len < iov_size v)) (\<lambda>_. drop_front_loop v 0 len))"

text \<open>
  The first loop of \<^verbatim>\<open>take_front\<close>: whole blocks move to the result, and a moved-from block is left
  empty in its slot.
\<close>

function take_front_loop ::
    "iovector \<Rightarrow> nat \<Rightarrow> iovector \<Rightarrow> (iovector \<times> nat \<times> iovector) run" where
  "take_front_loop v len res =
     bindR (at (chain v) (start_index v)) (\<lambda>b.
       if blk_size b - begin_offset v \<le> len then
         let v1 = v\<lparr>chain_length := chain_length v - blk_size b\<rparr>;
             len1 = len - (blk_size b - begin_offset v)
         in if blk_size b > begin_offset v then
              bindR (iov_append res b) (\<lambda>res1.
                take_front_loop
                  (v1\<lparr>chain := (chain v1)[start_index v1 := snd (block_move b)],
                      begin_offset := 0, start_index := start_index v1 + 1\<rparr>)
                  len1
                  (if begin_offset v \<noteq> 0 then res1\<lparr>begin_offset := begin_offset v\<rparr> else res1))
            else take_front_loop (v1\<lparr>begin_offset := 0, start_index := start_index v1 + 1\<rparr>) len1 res
       else Done (v, len, res))"
  by pat_completeness auto
termination
  by (relation "measure (\<lambda>(v, l, r). length (chain v) - start_index v)") auto

declare take_front_loop.simps [simp del]

definition take_front_split :: "iovector \<Rightarrow> nat \<Rightarrow> iovector \<Rightarrow> (iovector \<times> iovector) run" where
  "take_front_split v len res =
     bindR (at (chain v) (start_index v)) (\<lambda>b.
       if begin_offset v \<noteq> 0 \<or> len < blk_size b div 2 then
         bindR (block_of_range (take len (drop (begin_offset v) (blk_buf b)))) (\<lambda>blk.
         bindR (iov_append res blk) (\<lambda>res.
           Done (res, v\<lparr>begin_offset := begin_offset v + len\<rparr>)))
       else
         bindR (checkR (begin_offset v = 0)) (\<lambda>_.
         bindR (block_of_range (drop len (block_bytes b))) (\<lambda>blk.
         bindR (block_resize b len) (\<lambda>b'.
         bindR (iov_append res b') (\<lambda>res.
           Done (res, v\<lparr>chain_length := chain_length v - blk_size b + blk_size blk,
                        chain := (chain v)[start_index v := blk]\<rparr>))))))"

definition take_front :: "iovector \<Rightarrow> nat \<Rightarrow> (iovector \<times> iovector) run" where
  "take_front v len =
     (if len = 0 then Done (empty_iov, v)
      else if len = iov_size v then Done (iov_move v)
      else bindR (checkR (iov_size v \<ge> len)) (\<lambda>_.
           bindR (take_front_loop v len empty_iov) (\<lambda>(v, len, res).
             if len > 0 then take_front_split v len res else Done (res, v))))"

text \<open>\<^verbatim>\<open>memmove(p, p + off, size - off)\<close>: shift the first \<open>off\<close> bytes of a block out of it, in place.\<close>

definition block_shift :: "block \<Rightarrow> nat \<Rightarrow> block run" where
  "block_shift b off =
     bindR (store_at (blk_buf b) 0 (take (blk_size b - off) (drop off (blk_buf b)))) (\<lambda>buf.
       Done (b\<lparr>blk_buf := buf\<rparr>))"

definition trim_front :: "iovector \<Rightarrow> iovector run" where
  "trim_front v =
     (if (begin_offset v = 0 \<and> start_index v = 0) \<or> chain v = [] then Done v
      else bindR (at (chain v) (start_index v)) (\<lambda>b.
           bindR (if begin_offset v = blk_size b then Done (v\<lparr>start_index := start_index v + 1\<rparr>)
                  else bindR (block_shift b (begin_offset v)) (\<lambda>b1.
                       bindR (block_resize b1 (blk_size b - begin_offset v)) (\<lambda>b2.
                         Done (v\<lparr>chain := (chain v)[start_index v := b2]\<rparr>)))) (\<lambda>v1.
             Done (trim_chain_front
                     (v1\<lparr>chain_length := chain_length v1 - begin_offset v1, begin_offset := 0\<rparr>)))))"

text \<open>\<^verbatim>\<open>iterate_blocks\<close>: the memory ranges the callback sees, in order.\<close>

definition iterate_blocks :: "iovector \<Rightarrow> string list run" where
  "iterate_blocks v =
     (if iov_size v = 0 then Done []
      else case drop (start_index v) (chain v) of
             [] \<Rightarrow> Done []
           | b # bs \<Rightarrow> bindR (checkR (blk_size b \<ge> begin_offset v)) (\<lambda>_.
               Done (drop (begin_offset v) (block_bytes b) # map block_bytes bs)))"

definition iovecs :: "iovector \<Rightarrow> string list run" where
  "iovecs v = iterate_blocks v"

fun store_all :: "string \<Rightarrow> nat \<Rightarrow> string list \<Rightarrow> string run" where
  "store_all buf off [] = Done buf"
| "store_all buf off (s # ss) =
     bindR (store_at buf off s) (\<lambda>buf. store_all buf (off + length s) ss)"

definition coalesce_copy :: "iovector \<Rightarrow> block run" where
  "coalesce_copy v =
     (if iov_size v = 0 then Done empty_block
      else bindR (block_resize empty_block (iov_size v)) (\<lambda>r.
           bindR (iterate_blocks v) (\<lambda>segs.
           bindR (store_all (blk_buf r) 0 segs) (\<lambda>buf. Done (r\<lparr>blk_buf := buf\<rparr>)))))"

text \<open>\<^verbatim>\<open>coalesced(f)\<close>: the bytes that \<^verbatim>\<open>f\<close> is called with.\<close>

definition coalesced :: "iovector \<Rightarrow> string run" where
  "coalesced v =
     (if length (chain v) = start_index v + 1 then
        bindR (at (chain v) (start_index v)) (\<lambda>b.
          Done (take (iov_size v) (drop (begin_offset v) (blk_buf b))))
      else bindR (coalesce_copy v) (\<lambda>d. Done (block_bytes d)))"

definition coalesce_move :: "iovector \<Rightarrow> (block \<times> iovector) run" where
  "coalesce_move v =
     (if iov_size v = 0 then Done (empty_block, v)
      else bindR (at (chain v) (start_index v)) (\<lambda>b.
        if begin_offset v = blk_size b \<and> length (chain v) = start_index v + 2 then
          Done (last (chain v),
                v\<lparr>chain_length := chain_length v - blk_size (last (chain v)), chain := butlast (chain v)\<rparr>)
        else if length (chain v) = start_index v + 1 then
          (let res = last (chain v);
               v1 = v\<lparr>chain_length := chain_length v - blk_size res, chain := butlast (chain v)\<rparr>
           in if begin_offset v \<noteq> 0 then
                bindR (block_shift res (begin_offset v)) (\<lambda>r1.
                bindR (block_resize r1 (blk_size res - begin_offset v)) (\<lambda>r2.
                  Done (r2, v1\<lparr>begin_offset := 0\<rparr>)))
              else Done (res, v1))
        else if block_capacity b \<ge> iov_size v then
          bindR (if begin_offset v \<noteq> 0 then block_shift b (begin_offset v) else Done b) (\<lambda>res.
          bindR (store_all (blk_buf res) (blk_size b - begin_offset v)
                   (map block_bytes (drop (start_index v + 1) (chain v)))) (\<lambda>buf.
          bindR (block_resize (res\<lparr>blk_buf := buf\<rparr>)
                   (blk_size b - begin_offset v
                    + length (concat (map block_bytes (drop (start_index v + 1) (chain v)))))) (\<lambda>r.
            Done (r, v\<lparr>chain_length := chain_length v - blk_size b, begin_offset := 0,
                        chain := (chain v)[start_index v := snd (block_move b)],
                        start_index := start_index v + 1\<rparr>))))
        else bindR (coalesce_copy v) (\<lambda>r. Done (r, v))))"

section \<open>The invariant and the byte string a chain stands for\<close>

definition live :: "iovector \<Rightarrow> block list" where
  "live v = drop (start_index v) (chain v)"

definition iov_bytes :: "iovector \<Rightarrow> string" where
  "iov_bytes v = drop (begin_offset v) (concat (map block_bytes (live v)))"

text \<open>
  The blocks from \<open>start_index\<close> on are non-empty, \<open>chain_length\<close> is the sum of their sizes, and
  \<open>begin_offset\<close> points strictly inside the first of them.
\<close>

definition live_ok :: "block list \<Rightarrow> bool" where
  "live_ok bs \<longleftrightarrow> (\<forall>b \<in> set bs. blk_ok b \<and> blk_size b \<noteq> 0)"

definition iov_inv :: "iovector \<Rightarrow> bool" where
  "iov_inv v \<longleftrightarrow>
     start_index v \<le> length (chain v) \<and> live_ok (live v)
     \<and> chain_length v = sum_list (map blk_size (live v))
     \<and> (case live v of [] \<Rightarrow> begin_offset v = 0 | b # _ \<Rightarrow> begin_offset v < blk_size b)"

lemma live_ok_Cons [simp]: "live_ok (b # bs) \<longleftrightarrow> blk_ok b \<and> blk_size b \<noteq> 0 \<and> live_ok bs"
  by (auto simp: live_ok_def)

lemma live_ok_Nil [simp]: "live_ok []"
  by (simp add: live_ok_def)

lemma live_ok_append [simp]: "live_ok (xs @ ys) \<longleftrightarrow> live_ok xs \<and> live_ok ys"
  by (auto simp: live_ok_def)

lemma length_concat_blocks:
  "live_ok bs \<Longrightarrow> length (concat (map block_bytes bs)) = sum_list (map blk_size bs)"
  by (induction bs) auto

lemma at_live: "live v = b # bs \<Longrightarrow> at (chain v) (start_index v) = Done b"
proof -
  assume a: "live v = b # bs"
  then have "start_index v < length (chain v)"
    by (metis drop_all leI list.distinct(1) live_def)
  with a show ?thesis by (simp add: live_def drop_Cons_nth)
qed

lemma live_in_range: "live v = b # bs \<Longrightarrow> start_index v < length (chain v)"
  by (metis drop_all leI list.distinct(1) live_def)

lemma live_tl: "live v = b # bs \<Longrightarrow> drop (Suc (start_index v)) (chain v) = bs"
  by (metis drop_Suc drop_tl list.sel(3) live_def)

lemma live_replace: "live v = b # bs \<Longrightarrow> drop (start_index v) ((chain v)[start_index v := r]) = r # bs"
  by (simp add: drop_Cons_nth drop_update_swap_le live_in_range live_tl)

lemma block_bytes_nonempty: "blk_ok b \<Longrightarrow> blk_size b \<noteq> 0 \<Longrightarrow> block_bytes b \<noteq> []"
  by (metis length_block_bytes list.size(3))

lemma live_ok_nonempty: "live_ok bs \<Longrightarrow> [] \<notin> block_bytes ` set bs"
  by (auto simp: live_ok_def) (metis block_bytes_nonempty neq0_conv)

lemma iov_size_bytes: "iov_inv v \<Longrightarrow> iov_size v = length (iov_bytes v)"
  by (simp add: iov_inv_def iov_size_def iov_bytes_def length_concat_blocks)

lemma iov_empty_bytes: "iov_inv v \<Longrightarrow> iov_empty v \<longleftrightarrow> iov_bytes v = []"
  by (simp add: iov_empty_def iov_size_bytes)

lemma iov_inv_empty [simp]: "iov_inv empty_iov" "iov_bytes empty_iov = []"
  by (simp_all add: iov_inv_def empty_iov_def live_def iov_bytes_def)

lemma iov_cleared [simp]: "snd (iov_clear v) = empty_iov"
  by (simp add: iov_clear_def empty_iov_def)

lemma iov_clear_bytes: "iov_inv (snd (iov_clear v)) \<and> iov_bytes (snd (iov_clear v)) = []"
  by simp

lemma iov_move_eq [simp]: "iov_move v = (v, empty_iov)"
  by (simp add: iov_move_def)

subsection \<open>Appending\<close>

lemma iov_append_ok:
  assumes inv: "iov_inv v" and ok: "blk_ok b"
  shows "ends (iov_append v b) (\<lambda>v'. iov_inv v' \<and> iov_bytes v' = iov_bytes v @ block_bytes b)"
proof (cases "blk_size b = 0")
  case True
  with inv show ?thesis by (simp add: iov_append_def block_bytes_def)
next
  case False
  let ?v = "v\<lparr>chain_length := chain_length v + blk_size b, chain := chain v @ [b]\<rparr>"
  from inv have live: "live ?v = live v @ [b]" and le: "start_index v \<le> length (chain v)"
    by (simp_all add: live_def iov_inv_def)
  from inv have "begin_offset v \<le> length (concat (map block_bytes (live v)))"
    by (auto simp: iov_inv_def length_concat_blocks split: list.splits)
  then have "iov_bytes ?v = iov_bytes v @ block_bytes b"
    by (simp add: iov_bytes_def live)
  moreover from inv ok False le have "iov_inv ?v"
    unfolding iov_inv_def live by (auto split: list.splits)
  ultimately show ?thesis using False by (simp add: iov_append_def)
qed

subsection \<open>Dropping from the front\<close>

lemma pop_front_block_live:
  assumes "live v = b # bs"
  shows "ends (pop_front_block v) (\<lambda>v'. live v' = bs \<and> begin_offset v' = 0
           \<and> chain_length v' = chain_length v - blk_size b \<and> start_index v' \<le> length (chain v'))"
proof -
  have r: "start_index v < length (chain v)" and t: "drop (Suc (start_index v)) (chain v) = bs"
    using assms by (auto dest: live_in_range live_tl)
  then show ?thesis
    by (simp add: pop_front_block_def at_live [OF assms] trim_chain_front_def Let_def live_def
        drop_update_swap_le)
qed

text \<open>
  Under a length below \<open>2 ^ 32\<close> the 32-bit counter of the loop never wraps, and the loop ends
  with exactly the requested bytes gone.
\<close>

lemma drop_front_loop_ok:
  assumes "live_ok (live v)" "chain_length v = sum_list (map blk_size (live v))"
    "start_index v \<le> length (chain v)"
    "case live v of [] \<Rightarrow> begin_offset v = 0 | b # _ \<Rightarrow> begin_offset v < blk_size b"
    "dropped \<le> len" "len < 2 ^ 32" "len - dropped < sum_list (map blk_size (live v)) - begin_offset v"
  shows "ends (drop_front_loop v dropped len)
           (\<lambda>v'. iov_inv v' \<and> iov_bytes v' = drop (len - dropped) (iov_bytes v))"
  using assms
proof (induction "live v" arbitrary: v dropped)
  case Nil
  then show ?case by simp
next
  case (Cons b bs)
  note lv = Cons.hyps(2) [symmetric]
  let ?nxt = "blk_size b - begin_offset v"
  show ?case
  proof (cases "dropped < len")
    case False
    then have "drop_front_loop v dropped len = Done v"
      by (simp add: drop_front_loop.simps [of v dropped len])
    with False Cons.prems show ?thesis
      by (simp add: iov_inv_def)
  next
    case more: True
    show ?thesis
    proof (cases "dropped + ?nxt \<le> len")
      case True
      from pop_front_block_live [OF lv] obtain v' where
        v': "pop_front_block v = Done v'" "live v' = bs" "begin_offset v' = 0"
          "chain_length v' = chain_length v - blk_size b" "start_index v' \<le> length (chain v')"
        by (auto simp: ends_def)
      have nowrap: "(dropped + ?nxt) mod 2 ^ 32 = dropped + ?nxt"
        using True Cons.prems(6) by simp
      have ends': "ends (drop_front_loop v' (dropped + ?nxt) len)
          (\<lambda>w. iov_inv w \<and> iov_bytes w = drop (len - (dropped + ?nxt)) (iov_bytes v'))"
        using Cons.prems lv v' True
        by (intro Cons.hyps(1)) (auto split: list.splits)
      have "iov_bytes v = drop (begin_offset v) (block_bytes b) @ iov_bytes v'"
        using Cons.prems(1,4) lv v' by (simp add: iov_bytes_def)
      then have "drop (len - (dropped + ?nxt)) (iov_bytes v') = drop (len - dropped) (iov_bytes v)"
        using Cons.prems(1,4) lv True by simp
      with ends' show ?thesis
        using more True v'(1) nowrap
        by (simp add: drop_front_loop.simps [of v dropped len] at_live [OF lv] Let_def)
    next
      case False
      let ?v = "v\<lparr>begin_offset := begin_offset v + (len - dropped)\<rparr>"
      have l: "live ?v = live v" by (simp add: live_def)
      have "iov_inv ?v"
        using Cons.prems False lv unfolding iov_inv_def l by auto
      moreover have "iov_bytes ?v = drop (len - dropped) (iov_bytes v)"
        using l by (simp add: iov_bytes_def add.commute)
      moreover have "drop_front_loop v dropped len = Done ?v"
        using more False Cons.prems(4) lv
        by (auto simp: drop_front_loop.simps [of v dropped len] at_live [OF lv])
      ultimately show ?thesis by simp
    qed
  qed
qed

lemma drop_front_ok:
  assumes inv: "iov_inv v" and le: "len \<le> iov_size v" and small: "len < 2 ^ 32"
  shows "ends (drop_front v len) (\<lambda>v'. iov_inv v' \<and> iov_bytes v' = drop len (iov_bytes v))"
proof -
  consider "len = 0" | "len \<noteq> 0" "len = iov_size v" | "len \<noteq> 0" "len < iov_size v"
    using le by linarith
  then show ?thesis
  proof cases
    case 3
    then have "ends (drop_front_loop v 0 len) (\<lambda>v'. iov_inv v' \<and> iov_bytes v' = drop (len - 0) (iov_bytes v))"
      using inv small by (intro drop_front_loop_ok) (auto simp: iov_inv_def iov_size_def)
    with 3 show ?thesis by (simp add: drop_front_def)
  qed (use inv in \<open>auto simp: drop_front_def iov_size_bytes\<close>)
qed

subsection \<open>Taking from the front\<close>

lemma iov_bytes_Cons:
  "live v = b # bs \<Longrightarrow> iov_inv v \<Longrightarrow>
     iov_bytes v = drop (begin_offset v) (block_bytes b) @ concat (map block_bytes bs)"
  by (simp add: iov_bytes_def iov_inv_def)

text \<open>One whole block goes over to the result.\<close>

lemma take_front_move_block:
  assumes inv: "iov_inv v" and lv: "live v = b # bs" and res: "iov_inv res"
    and fresh: "begin_offset v \<noteq> 0 \<Longrightarrow> res = empty_iov"
  shows "ends (iov_append res b) (\<lambda>r. let r' = (if begin_offset v \<noteq> 0 then r\<lparr>begin_offset := begin_offset v\<rparr> else r)
           in iov_inv r' \<and> iov_bytes r' = iov_bytes res @ drop (begin_offset v) (block_bytes b))"
proof (cases "begin_offset v = 0")
  case True
  then show ?thesis
    using iov_append_ok [OF res, of b] inv lv by (simp add: iov_inv_def)
next
  case False
  then have "res = empty_iov" by (rule fresh)
  with False inv lv show ?thesis
    by (auto simp: iov_append_def empty_iov_def iov_inv_def live_def iov_bytes_def)
qed

lemma take_front_advance:
  assumes inv: "iov_inv v" and lv: "live v = b # bs"
  defines "v' \<equiv> v\<lparr>chain_length := chain_length v - blk_size b,
                   chain := (chain v)[start_index v := snd (block_move b)],
                   begin_offset := 0, start_index := Suc (start_index v)\<rparr>"
  shows "iov_inv v'" "live v' = bs" "iov_bytes v' = concat (map block_bytes bs)"
proof -
  have r: "start_index v < length (chain v)" and t: "drop (Suc (start_index v)) (chain v) = bs"
    using lv by (auto dest: live_in_range live_tl)
  then show l: "live v' = bs" by (simp add: v'_def live_def drop_update_swap_le)
  show "iov_inv v'"
    using inv lv r l unfolding iov_inv_def by (auto simp: v'_def split: list.splits)
  from l show "iov_bytes v' = concat (map block_bytes bs)" by (simp add: iov_bytes_def v'_def)
qed

lemma take_front_loop_ok:
  assumes "iov_inv v" "iov_inv res" "len < iov_size v" "begin_offset v \<noteq> 0 \<Longrightarrow> res = empty_iov"
  shows "ends (take_front_loop v len res) (\<lambda>(v', len', res').
           iov_inv v' \<and> iov_inv res' \<and> len' \<le> len
           \<and> iov_bytes res' = iov_bytes res @ take (len - len') (iov_bytes v)
           \<and> iov_bytes v' = drop (len - len') (iov_bytes v)
           \<and> (\<exists>b bs. live v' = b # bs \<and> len' < blk_size b - begin_offset v'))"
  using assms
proof (induction "live v" arbitrary: v len res)
  case Nil
  then show ?case by (simp add: iov_size_bytes iov_bytes_def)
next
  case (Cons b bs)
  note lv = Cons.hyps(2) [symmetric]
  have off: "begin_offset v < blk_size b" "blk_ok b"
    using Cons.prems(1) lv by (simp_all add: iov_inv_def)
  let ?n = "blk_size b - begin_offset v"
  show ?case
  proof (cases "?n \<le> len")
    case False
    then have "take_front_loop v len res = Done (v, len, res)"
      by (simp add: take_front_loop.simps [of v len res] at_live [OF lv])
    with False Cons.prems lv show ?thesis by simp
  next
    case True
    let ?v = "v\<lparr>chain_length := chain_length v - blk_size b,
                chain := (chain v)[start_index v := snd (block_move b)],
                begin_offset := 0, start_index := Suc (start_index v)\<rparr>"
    from take_front_move_block [OF Cons.prems(1) lv Cons.prems(2,4)] obtain r where
      r: "iov_append res b = Done r" and
      r': "iov_inv (if begin_offset v \<noteq> 0 then r\<lparr>begin_offset := begin_offset v\<rparr> else r)"
          "iov_bytes (if begin_offset v \<noteq> 0 then r\<lparr>begin_offset := begin_offset v\<rparr> else r)
             = iov_bytes res @ drop (begin_offset v) (block_bytes b)"
      by (auto simp: ends_def Let_def)
    note adv = take_front_advance [OF Cons.prems(1) lv]
    note bytes = iov_bytes_Cons [OF lv Cons.prems(1)]
    have len: "length (drop (begin_offset v) (block_bytes b)) = ?n" using off by simp
    have size: "iov_size v = ?n + iov_size ?v"
      using iov_size_bytes [OF Cons.prems(1)] iov_size_bytes [OF adv(1)] bytes adv(3) off by simp
    have "ends (take_front_loop ?v (len - ?n) (if begin_offset v \<noteq> 0 then r\<lparr>begin_offset := begin_offset v\<rparr> else r))
        (\<lambda>(v', len', res'). iov_inv v' \<and> iov_inv res' \<and> len' \<le> len - ?n
           \<and> iov_bytes res' = (iov_bytes res @ drop (begin_offset v) (block_bytes b)) @ take (len - ?n - len') (iov_bytes ?v)
           \<and> iov_bytes v' = drop (len - ?n - len') (iov_bytes ?v)
           \<and> (\<exists>b bs. live v' = b # bs \<and> len' < blk_size b - begin_offset v'))"
      unfolding r'(2) [symmetric]
      by (rule Cons.hyps(1) [OF adv(2) [symmetric] adv(1) r'(1)]) (use Cons.prems(3) size True in simp_all)
    moreover have "take_front_loop v len res
        = take_front_loop ?v (len - ?n) (if begin_offset v \<noteq> 0 then r\<lparr>begin_offset := begin_offset v\<rparr> else r)"
      using True off r by (simp add: take_front_loop.simps [of v len res] at_live [OF lv])
    moreover have "drop (begin_offset v) (block_bytes b) @ take (len - ?n - l) (iov_bytes ?v) = take (len - l) (iov_bytes v)"
      and "drop (len - ?n - l) (iov_bytes ?v) = drop (len - l) (iov_bytes v)" if "l \<le> len - ?n" for l
      using that len True by (simp_all add: bytes adv(3) add.commute)
    ultimately show ?thesis by (auto elim!: ends_mono)
  qed
qed

lemma take_front_split_ok:
  assumes inv: "iov_inv v" and res: "iov_inv res" and lv: "live v = b # bs"
    and lt: "len < blk_size b - begin_offset v" and pos: "0 < len"
  shows "ends (take_front_split v len res) (\<lambda>(r, v').
           iov_inv r \<and> iov_inv v' \<and> iov_bytes r = iov_bytes res @ take len (iov_bytes v)
           \<and> iov_bytes v' = drop len (iov_bytes v))"
proof -
  have ok: "blk_ok b" using inv lv by (simp add: iov_inv_def)
  note bytes = iov_bytes_Cons [OF lv inv]
  have i: "start_index v < length (chain v)" and tl: "drop (Suc (start_index v)) (chain v) = bs"
    using lv by (auto dest: live_in_range live_tl)
  have head: "take len (iov_bytes v) = take len (drop (begin_offset v) (blk_buf b))"
    using lt ok by (simp add: bytes block_bytes_def blk_ok_def take_drop min_def)
  show ?thesis
  proof (cases "begin_offset v \<noteq> 0 \<or> len < blk_size b div 2")
    case True
    let ?blk = "\<lparr>blk_buf = take len (drop (begin_offset v) (blk_buf b)),
                 blk_size = length (take len (drop (begin_offset v) (blk_buf b)))\<rparr>"
    have "ends (iov_append res ?blk) (\<lambda>r. iov_inv r \<and> iov_bytes r = iov_bytes res @ take len (iov_bytes v))"
      using iov_append_ok [OF res blk_ok_of_range, of "take len (drop (begin_offset v) (blk_buf b))"]
      unfolding block_bytes_of_range head .
    moreover have "iov_inv (v\<lparr>begin_offset := begin_offset v + len\<rparr>)"
      using inv lv lt unfolding iov_inv_def by (simp add: live_def)
    moreover have "iov_bytes (v\<lparr>begin_offset := begin_offset v + len\<rparr>) = drop len (iov_bytes v)"
      by (simp add: iov_bytes_def live_def add.commute)
    ultimately show ?thesis
      using True by (auto simp: take_front_split_def at_live [OF lv] ends_def)
  next
    case False
    let ?blk = "\<lparr>blk_buf = drop len (block_bytes b), blk_size = length (drop len (block_bytes b))\<rparr>"
    let ?v = "v\<lparr>chain_length := chain_length v - blk_size b + blk_size ?blk,
                chain := (chain v)[start_index v := ?blk]\<rparr>"
    have live: "live ?v = ?blk # bs" using live_replace [OF lv] by (simp add: live_def)
    have "ends (iov_append res (b\<lparr>blk_size := len\<rparr>))
        (\<lambda>r. iov_inv r \<and> iov_bytes r = iov_bytes res @ take len (iov_bytes v))"
      using iov_append_ok [OF res, of "b\<lparr>blk_size := len\<rparr>"] ok lt False
      by (simp add: head blk_ok_def block_bytes_def)
    moreover have "iov_inv ?v"
      using inv lv i lt ok False unfolding iov_inv_def live by (auto simp: blk_ok_def [of "\<lparr>blk_buf = _, blk_size = _\<rparr>"])
    moreover have "iov_bytes ?v = drop len (iov_bytes v)"
      using lt ok False unfolding iov_bytes_def [of ?v] live bytes
      by (simp add: block_bytes_def [of "\<lparr>blk_buf = _, blk_size = _\<rparr>"])
    ultimately show ?thesis
      using False ok lt by (auto simp: take_front_split_def at_live [OF lv] ends_def block_resize_shrink)
  qed
qed

lemma take_front_ok:
  assumes inv: "iov_inv v" and le: "len \<le> iov_size v"
  shows "ends (take_front v len) (\<lambda>(r, v').
           iov_inv r \<and> iov_inv v' \<and> iov_bytes r = take len (iov_bytes v)
           \<and> iov_bytes v' = drop len (iov_bytes v))"
proof -
  consider "len = 0" | "len \<noteq> 0" "len = iov_size v" | "len \<noteq> 0" "len < iov_size v"
    using le by linarith
  then show ?thesis
  proof cases
    case 3
    from take_front_loop_ok [OF inv iov_inv_empty(1) 3(2)] obtain v1 len1 r1 where
      l: "take_front_loop v len empty_iov = Done (v1, len1, r1)" and
      p: "iov_inv v1" "iov_inv r1" "len1 \<le> len" "iov_bytes r1 = take (len - len1) (iov_bytes v)"
        "iov_bytes v1 = drop (len - len1) (iov_bytes v)"
        "\<exists>b bs. live v1 = b # bs \<and> len1 < blk_size b - begin_offset v1"
      by (auto simp: ends_def)
    show ?thesis
    proof (cases "len1 = 0")
      case True
      with 3 l p show ?thesis by (simp add: take_front_def)
    next
      case False
      with p(6) take_front_split_ok [OF p(1,2)] obtain r v' where
        "take_front_split v1 len1 r1 = Done (r, v')" "iov_inv r" "iov_inv v'"
        "iov_bytes r = iov_bytes r1 @ take len1 (iov_bytes v1)" "iov_bytes v' = drop len1 (iov_bytes v1)"
        by (fastforce simp: ends_def)
      moreover have "take (len - len1) (iov_bytes v) @ take len1 (drop (len - len1) (iov_bytes v)) = take len (iov_bytes v)"
        using p(3) by (metis add.commute le_add_diff_inverse take_add)
      ultimately show ?thesis using 3 l False p(3-5) by (simp add: take_front_def)
    qed
  qed (use inv in \<open>auto simp: take_front_def iov_size_bytes\<close>)
qed

subsection \<open>Compacting and copying out\<close>

lemma block_shift_ok:
  assumes "blk_ok b" "off \<le> blk_size b"
  shows "block_shift b off = Done (b\<lparr>blk_buf := drop off (block_bytes b) @ drop (blk_size b - off) (blk_buf b)\<rparr>)"
  using assms by (simp add: block_shift_def store_at_def blk_ok_def block_bytes_def drop_take)

lemma block_shift_resize:
  assumes "blk_ok b" "off < blk_size b"
  obtains r1 r2 where "block_shift b off = Done r1" "block_resize r1 (blk_size b - off) = Done r2"
    "blk_ok r2" "blk_size r2 = blk_size b - off" "block_bytes r2 = drop off (block_bytes b)"
proof -
  let ?r1 = "b\<lparr>blk_buf := drop off (block_bytes b) @ drop (blk_size b - off) (blk_buf b)\<rparr>"
  have "block_shift b off = Done ?r1" using assms by (simp add: block_shift_ok)
  moreover have "block_resize ?r1 (blk_size b - off) = Done (?r1\<lparr>blk_size := blk_size b - off\<rparr>)"
    using assms by (simp add: block_resize_def block_capacity_def blk_ok_def block_bytes_def)
  moreover have "blk_ok (?r1\<lparr>blk_size := blk_size b - off\<rparr>)"
    and "block_bytes (?r1\<lparr>blk_size := blk_size b - off\<rparr>) = drop off (block_bytes b)"
    using assms by (simp_all add: blk_ok_def block_bytes_def)
  ultimately show ?thesis by (intro that) simp_all
qed

lemma trim_front_ok:
  assumes inv: "iov_inv v" and nonempty: "live v = [] \<Longrightarrow> start_index v = 0"
  shows "ends (trim_front v) (\<lambda>v'. iov_inv v' \<and> iov_bytes v' = iov_bytes v \<and> begin_offset v' = 0 \<and> start_index v' = 0)"
proof (cases "live v")
  case Nil
  with assms show ?thesis by (simp add: trim_front_def iov_inv_def)
next
  case (Cons b bs)
  show ?thesis
  proof (cases "(begin_offset v = 0 \<and> start_index v = 0) \<or> chain v = []")
    case True
    with inv Cons show ?thesis by (auto simp: trim_front_def live_def)
  next
    case False
    let ?off = "begin_offset v"
    have off: "?off < blk_size b" "blk_ok b" using inv Cons by (simp_all add: iov_inv_def)
    have i: "start_index v < length (chain v)" and tl: "drop (Suc (start_index v)) (chain v) = bs"
      using Cons by (auto dest: live_in_range live_tl)
    from block_shift_resize [OF off(2,1)] obtain r1 r2 where
      r: "block_shift b ?off = Done r1" "block_resize r1 (blk_size b - ?off) = Done r2" "blk_ok r2"
        "blk_size r2 = blk_size b - ?off" "block_bytes r2 = drop ?off (block_bytes b)" .
    let ?w = "trim_chain_front (v\<lparr>chain := (chain v)[start_index v := r2],
                                  chain_length := chain_length v - ?off, begin_offset := 0\<rparr>)"
    from False off r have "trim_front v = Done ?w"
      by (auto simp: trim_front_def at_live [OF Cons])
    moreover have l: "live ?w = r2 # bs"
      using live_replace [OF Cons, of r2]
      by (cases "start_index v = 0") (auto simp: live_def trim_chain_front_def)
    moreover have "iov_inv ?w"
      using inv Cons off i r unfolding iov_inv_def l by (auto simp: trim_chain_front_def)
    moreover have "iov_bytes ?w = iov_bytes v"
      using r unfolding iov_bytes_def [of ?w] l iov_bytes_Cons [OF Cons inv]
      by (simp add: trim_chain_front_def)
    ultimately show ?thesis by (simp add: trim_chain_front_def)
  qed
qed

lemma iterate_blocks_ok:
  assumes inv: "iov_inv v"
  shows "ends (iterate_blocks v) (\<lambda>segs. concat segs = iov_bytes v \<and> [] \<notin> set segs)"
proof (cases "live v")
  case Nil
  then show ?thesis by (simp add: iterate_blocks_def live_def iov_bytes_def)
next
  case (Cons b bs)
  then have "iov_bytes v \<noteq> []"
    using inv by (auto simp: iov_bytes_Cons iov_inv_def live_ok_def)
  moreover have "[] \<notin> block_bytes ` set bs"
    using inv Cons by (simp add: iov_inv_def live_ok_nonempty)
  moreover have "begin_offset v < length (block_bytes b)" using inv Cons by (simp add: iov_inv_def)
  ultimately show ?thesis
    using inv Cons
    by (auto simp: iterate_blocks_def iov_size_bytes iov_bytes_Cons live_def [symmetric] iov_inv_def checkR_def)
qed

lemma store_all_ok:
  "off + length (concat ss) \<le> length buf \<Longrightarrow>
     store_all buf off ss = Done (take off buf @ concat ss @ drop (off + length (concat ss)) buf)"
proof (induction ss arbitrary: buf off)
  case Nil
  then show ?case by simp
next
  case (Cons s ss)
  have "length (take off buf) = off" using Cons.prems by simp
  then show ?case
    using Cons.prems Cons.IH [of "off + length s" "take off buf @ s @ drop (off + length s) buf"]
    by (simp add: store_at_def add.assoc add.commute add.left_commute)
qed

lemma coalesce_copy_ok:
  assumes inv: "iov_inv v"
  shows "ends (coalesce_copy v) (\<lambda>b. blk_ok b \<and> block_bytes b = iov_bytes v)"
proof (cases "iov_size v = 0")
  case True
  with inv show ?thesis by (simp add: coalesce_copy_def iov_size_bytes block_bytes_def)
next
  case False
  from iterate_blocks_ok [OF inv] obtain segs where
    s: "iterate_blocks v = Done segs" "concat segs = iov_bytes v" by (auto simp: ends_def)
  then have "store_all (replicate (iov_size v) indeterminate) 0 segs = Done (iov_bytes v)"
    using inv by (subst store_all_ok) (simp_all add: iov_size_bytes)
  with False s inv show ?thesis
    by (simp add: coalesce_copy_def block_resize_def block_allocate_def block_capacity_def
        block_bytes_def blk_ok_def iov_size_bytes)
qed

lemma coalesced_ok: "iov_inv v \<Longrightarrow> coalesced v = Done (iov_bytes v)"
proof (cases "length (chain v) = start_index v + 1")
  case True
  assume inv: "iov_inv v"
  from True have "length (live v) = 1" by (simp add: live_def)
  then obtain b where b: "live v = [b]" by (cases "live v") auto
  with inv True show ?thesis
    by (simp add: coalesced_def at_live [OF b] iov_size_bytes iov_bytes_def block_bytes_def drop_take
        iov_inv_def blk_ok_def min_def)
next
  case False
  assume "iov_inv v"
  with coalesce_copy_ok [of v] False show ?thesis by (auto simp: coalesced_def ends_def)
qed

text \<open>
  The destructive \<^verbatim>\<open>coalesce\<close> reuses a block when it can.  It returns the whole byte string and
  leaves a chain in a valid state, which is all its comment promises.
\<close>

lemma coalesce_move_single:
  assumes inv: "iov_inv v" and b: "live v = [b]"
  shows "ends (coalesce_move v) (\<lambda>(r, v'). blk_ok r \<and> block_bytes r = iov_bytes v \<and> iov_inv v')"
proof -
  have i: "start_index v < length (chain v)" and tl: "drop (Suc (start_index v)) (chain v) = []"
    using b by (auto dest: live_in_range live_tl)
  then have len: "length (chain v) = start_index v + 1" by simp
  have last: "last (chain v) = b" using b by (metis last.simps last_drop live_def live_in_range)
  have off: "begin_offset v < blk_size b" "blk_ok b" using inv b by (simp_all add: iov_inv_def)
  let ?v = "v\<lparr>chain_length := chain_length v - blk_size b, chain := butlast (chain v), begin_offset := 0\<rparr>"
  have "live ?v = []" using len by (simp add: live_def)
  then have inv': "iov_inv ?v" using inv b len by (simp add: iov_inv_def)
  have size: "iov_size v \<noteq> 0" using inv b off by (simp add: iov_size_def iov_inv_def)
  have bytes: "iov_bytes v = drop (begin_offset v) (block_bytes b)" using b by (simp add: iov_bytes_def)
  show ?thesis
  proof (cases "begin_offset v = 0")
    case True
    then have "v\<lparr>chain_length := chain_length v - blk_size b, chain := butlast (chain v)\<rparr> = ?v" by simp
    with True inv' size bytes len last off show ?thesis by (simp add: coalesce_move_def at_live [OF b])
  next
    case False
    from block_shift_resize [OF off(2,1)] obtain r1 r2 where
      "block_shift b (begin_offset v) = Done r1" "block_resize r1 (blk_size b - begin_offset v) = Done r2"
      "blk_ok r2" "blk_size r2 = blk_size b - begin_offset v" "block_bytes r2 = drop (begin_offset v) (block_bytes b)" .
    with False inv' size bytes len last off show ?thesis by (simp add: coalesce_move_def at_live [OF b] Let_def)
  qed
qed

lemma coalesce_move_reuse:
  assumes inv: "iov_inv v" and lv: "live v = b # c # bs" and cap: "block_capacity b \<ge> iov_size v"
  shows "ends (coalesce_move v) (\<lambda>(r, v'). blk_ok r \<and> block_bytes r = iov_bytes v \<and> iov_inv v')"
proof -
  define off where "off = begin_offset v"
  define segs where "segs = map block_bytes (c # bs)"
  define pre where "pre = drop off (block_bytes b)"
  define n where "n = blk_size b - off"
  have off: "off < blk_size b" "blk_ok b" using inv lv by (simp_all add: iov_inv_def off_def)
  have tl: "drop (Suc (start_index v)) (chain v) = c # bs" using lv by (rule live_tl)
  then have len: "length (chain v) \<noteq> Suc (start_index v)" by auto
  have segs': "map block_bytes (drop (Suc (start_index v)) (chain v)) = segs" by (simp add: tl segs_def)
  have lp: "length pre = n" using off by (simp add: pre_def n_def)
  have bytes: "iov_bytes v = pre @ concat segs"
    using iov_bytes_Cons [OF lv inv] by (simp add: pre_def segs_def off_def)
  then have size: "iov_size v = n + length (concat segs)" using iov_size_bytes [OF inv] lp by simp
  have fits: "n + length (concat segs) \<le> length (blk_buf b)"
    using cap size by (simp add: block_capacity_def)
  have n0: "0 < n" "n \<le> blk_size b" "blk_size b \<le> length (blk_buf b)"
    using off by (auto simp: n_def blk_ok_def)
  define buf0 where "buf0 = pre @ drop n (blk_buf b)"
  have buf0: "(if off \<noteq> 0 then block_shift b off else Done b) = Done (b\<lparr>blk_buf := buf0\<rparr>)"
    using off by (simp add: block_shift_ok block_bytes_def buf0_def pre_def n_def)
  define buf1 where "buf1 = pre @ concat segs @ drop (n + length (concat segs)) buf0"
  have all: "store_all buf0 n segs = Done buf1"
    using fits lp n0 by (subst store_all_ok) (auto simp: buf0_def buf1_def)
  let ?r = "b\<lparr>blk_buf := buf1, blk_size := n + length (concat segs)\<rparr>"
  let ?v = "v\<lparr>chain_length := chain_length v - blk_size b,
              chain := (chain v)[start_index v := snd (block_move b)], begin_offset := 0,
              start_index := Suc (start_index v)\<rparr>"
  have buf1: "length buf1 \<ge> n + length (concat segs)" "buf1 \<noteq> []"
    using lp n0 by (auto simp: buf1_def)
  then have res: "block_resize (b\<lparr>blk_buf := buf1\<rparr>) (n + length (concat segs)) = Done ?r"
    by (simp add: block_resize_def block_capacity_def)
  have same: "blk_buf b = buf0" if "off = 0"
    using that by (simp add: buf0_def pre_def n_def block_bytes_def)
  have "iov_size v \<noteq> 0" using size n0 by simp
  then have "coalesce_move v = Done (?r, ?v)"
    using cap len off(1) buf0 all res n0 same
    by (simp add: coalesce_move_def at_live [OF lv] segs' flip: off_def n_def) (auto simp: n_def)
  moreover have "iov_inv ?v" by (rule take_front_advance(1) [OF inv lv])
  moreover have "blk_ok ?r" using buf1 by (simp add: blk_ok_def)
  moreover have "block_bytes ?r = iov_bytes v"
    using lp by (simp add: block_bytes_def bytes buf1_def)
  ultimately show ?thesis by simp
qed

lemma coalesce_move_ok:
  assumes inv: "iov_inv v"
  shows "ends (coalesce_move v) (\<lambda>(r, v'). blk_ok r \<and> block_bytes r = iov_bytes v \<and> iov_inv v')"
proof -
  consider "live v = []" | b where "live v = [b]" | b c bs where "live v = b # c # bs"
    by (metis list.exhaust)
  then show ?thesis
  proof cases
    case 1
    with inv have "iov_bytes v = []" by (simp add: iov_bytes_def)
    with inv show ?thesis by (simp add: coalesce_move_def iov_size_bytes block_bytes_def)
  next
    case 2
    with inv show ?thesis by (rule coalesce_move_single)
  next
    case 3
    show ?thesis
    proof (cases "block_capacity b \<ge> iov_size v")
      case True
      with inv 3 show ?thesis by (rule coalesce_move_reuse)
    next
      case False
      have "begin_offset v < blk_size b" using inv 3 by (simp add: iov_inv_def)
      moreover have "length (chain v) \<noteq> start_index v + 1" using live_tl [OF 3] by auto
      moreover have "iov_size v \<noteq> 0" using False by linarith
      ultimately show ?thesis
        using coalesce_copy_ok [OF inv] inv False by (auto simp: coalesce_move_def at_live [OF 3] ends_def)
    qed
  qed
qed

section \<open>What a socket relies on: a first-in first-out byte queue\<close>

text \<open>
  A socket queues payloads, hands the queued ranges to \<^verbatim>\<open>writev\<close>, and drops as many bytes as the
  kernel took.  \<open>pump\<close> is that use as a client of any queue: \<open>Inl s\<close> queues \<open>s\<close>, \<open>Inr n\<close> writes out
  at most \<open>n\<close> of the queued bytes; the second component of the state is what has been written.
\<close>

fun pump :: "('q \<Rightarrow> string \<Rightarrow> 'q run) \<Rightarrow> ('q \<Rightarrow> string run) \<Rightarrow> ('q \<Rightarrow> nat \<Rightarrow> 'q run)
    \<Rightarrow> (string + nat) list \<Rightarrow> 'q \<times> string \<Rightarrow> ('q \<times> string) run" where
  "pump put peek discard [] s = Done s"
| "pump put peek discard (Inl xs # ops) (q, out) =
     bindR (put q xs) (\<lambda>q. pump put peek discard ops (q, out))"
| "pump put peek discard (Inr n # ops) (q, out) =
     bindR (peek q) (\<lambda>xs.
     bindR (discard q (min n (length xs))) (\<lambda>q. pump put peek discard ops (q, out @ take n xs)))"

fun queued :: "(string + nat) list \<Rightarrow> string" where
  "queued [] = []"
| "queued (Inl xs # ops) = xs @ queued ops"
| "queued (Inr n # ops) = queued ops"

locale byte_queue =
  fixes inv :: "'q \<Rightarrow> bool" and bytes :: "'q \<Rightarrow> string" and new :: 'q
    and put :: "'q \<Rightarrow> string \<Rightarrow> 'q run" and peek :: "'q \<Rightarrow> string run"
    and discard :: "'q \<Rightarrow> nat \<Rightarrow> 'q run" and limit :: nat
  assumes inv_new: "inv new" and bytes_new: "bytes new = []"
    and put: "inv q \<Longrightarrow> ends (put q xs) (\<lambda>q'. inv q' \<and> bytes q' = bytes q @ xs)"
    and peek: "inv q \<Longrightarrow> peek q = Done (bytes q)"
    and discard: "inv q \<Longrightarrow> n \<le> length (bytes q) \<Longrightarrow> n < limit \<Longrightarrow>
      ends (discard q n) (\<lambda>q'. inv q' \<and> bytes q' = drop n (bytes q))"
begin

lemma pump_keeps_stream:
  "inv q \<Longrightarrow> \<forall>n. Inr n \<in> set ops \<longrightarrow> n < limit \<Longrightarrow>
     ends (pump put peek discard ops (q, out))
       (\<lambda>(q', out'). inv q' \<and> out' @ bytes q' = out @ bytes q @ queued ops)"
proof (induction ops arbitrary: q out)
  case Nil
  then show ?case by simp
next
  case (Cons op ops)
  show ?case
  proof (cases op)
    case (Inl xs)
    show ?thesis
      unfolding Inl pump.simps
      by (rule ends_bind [OF put [OF Cons.prems(1)]], rule ends_mono, rule Cons.IH)
         (use Cons.prems in \<open>auto simp: Inl\<close>)
  next
    case (Inr n)
    let ?n = "min n (length (bytes q))"
    have "ends (discard q ?n) (\<lambda>q'. inv q' \<and> bytes q' = drop ?n (bytes q))"
      using Cons.prems Inr by (intro discard) auto
    then obtain q' where q': "discard q ?n = Done q'" "inv q'" "bytes q' = drop ?n (bytes q)"
      by (auto simp: ends_def)
    have "ends (pump put peek discard ops (q', out @ take n (bytes q)))
        (\<lambda>(q'', out'). inv q'' \<and> out' @ bytes q'' = (out @ take n (bytes q)) @ bytes q' @ queued ops)"
      using Cons.prems q'(2) by (intro Cons.IH) auto
    moreover have "take n (bytes q) @ bytes q' = bytes q"
      unfolding q'(3) by (metis append_take_drop_id drop_all min_def nle_le)
    ultimately have "ends (pump put peek discard ops (q', out @ take n (bytes q)))
        (\<lambda>(q'', out'). inv q'' \<and> out' @ bytes q'' = out @ bytes q @ queued ops)"
      by (auto elim!: ends_mono)
    then show ?thesis using q'(1) by (simp add: Inr peek [OF Cons.prems(1)])
  qed
qed

end

definition iov_put :: "iovector \<Rightarrow> string \<Rightarrow> iovector run" where
  "iov_put v xs = bindR (block_of_range xs) (\<lambda>b. iov_append v b)"

definition iov_peek :: "iovector \<Rightarrow> string run" where
  "iov_peek v = bindR (iovecs v) (\<lambda>segs. Done (concat segs))"

interpretation iovq: byte_queue iov_inv iov_bytes empty_iov iov_put iov_peek drop_front "2 ^ 32"
proof (unfold_locales, goal_cases)
  case (3 q xs)
  show ?case
    using iov_append_ok [OF 3 blk_ok_of_range, of xs]
    unfolding iov_put_def block_of_range_Done bindR.simps block_bytes_of_range .
next
  case (4 q)
  then show ?case using iterate_blocks_ok [of q] by (auto simp: iov_peek_def iovecs_def ends_def)
next
  case (5 q n)
  then show ?case by (intro drop_front_ok) (simp_all add: iov_size_bytes)
qed simp_all

section \<open>Properties\<close>



text \<open>
  The three ways to read a chain as one buffer agree: the copying \<^verbatim>\<open>coalesce() const&\<close>, the
  range \<^verbatim>\<open>coalesced\<close> passes to its callback, and the destructive \<^verbatim>\<open>coalesce() &&\<close> that reuses a
  block's spare capacity all give exactly the chain's bytes.
\<close>

lemma coalesce_agree:
  assumes "iov_inv v"
  shows "\<exists>b r v'. coalesce_copy v = Done b \<and> block_bytes b = iov_bytes v
           \<and> coalesced v = Done (iov_bytes v)
           \<and> coalesce_move v = Done (r, v') \<and> block_bytes r = iov_bytes v \<and> iov_inv v'"
  using coalesce_copy_ok [OF assms] coalesced_ok [OF assms] coalesce_move_ok [OF assms]
  by (auto simp: ends_def)


end
