(* ===== verification/Nonblocking.thy ===== *)
theory Nonblocking
  imports Connections IO_Vector
begin

text \<open>
  \<^verbatim>\<open>NonblockingFdConnection\<close> (\<^verbatim>\<open>adb/transport_fd.cpp\<close>): one thread that polls the descriptor, collects what
  it reads until a packet is complete, and writes what \<^verbatim>\<open>Write\<close> could not write at once.

  \<open>nb_wire\<close>, \<open>nb_handled\<close> and \<open>nb_accepted\<close> record the bytes written, the calls of \<^verbatim>\<open>HandleRead\<close>, and the
  packets given to \<^verbatim>\<open>Write\<close>; \<open>nb_polls_out\<close> is whether the poll the thread is in asks for \<^verbatim>\<open>POLLOUT\<close>, and
  \<open>nb_in_run\<close> whether the thread has entered the loop of \<^verbatim>\<open>Run\<close>.
\<close>

section \<open>The connection\<close>

record nb_connection =
  nb_in :: "rd_event list"
  nb_out :: "wr_event list"
  nb_started :: bool
  nb_running :: bool
  nb_in_run :: bool
  nb_read_header :: "amessage option"
  nb_read_buffer :: iovector
  nb_writable :: bool
  nb_write_buffer :: iovector
  nb_polls_out :: bool
  nb_wire :: string
  nb_handled :: "apacket list"
  nb_accepted :: "apacket list"

definition new_nb :: "rd_event list \<Rightarrow> wr_event list \<Rightarrow> nb_connection" where
  "new_nb es ws = \<lparr>nb_in = es, nb_out = ws, nb_started = False, nb_running = False, nb_in_run = False, nb_read_header = None, nb_read_buffer = empty_iov,
     nb_writable = True, nb_write_buffer = empty_iov, nb_polls_out = False, nb_wire = [], nb_handled = [], nb_accepted = []\<rparr>"

text \<open>
  \<^verbatim>\<open>Start\<close>, the first line of \<^verbatim>\<open>Run\<close> on the new thread, and \<^verbatim>\<open>Stop\<close> up to joining the thread.
\<close>

definition nb_Start :: "nb_connection \<Rightarrow> nb_connection run" where
  "nb_Start c = (if nb_started c then Stop LogFatal else Done (c\<lparr>nb_started := True\<rparr>))"

definition nb_Run_begin :: "nb_connection \<Rightarrow> nb_connection" where
  "nb_Run_begin c = c\<lparr>nb_running := True, nb_in_run := True\<rparr>"

definition nb_Stop_begin :: "nb_connection \<Rightarrow> nb_connection" where
  "nb_Stop_begin c = c\<lparr>nb_running := False\<rparr>"

datatype write_result = WriteError | WriteCompleted | WriteTryAgain

definition DispatchWrites :: "nb_connection \<Rightarrow> (write_result \<times> nb_connection) run" where
  "DispatchWrites c =
     bindR (checkR (\<not> iov_empty (nb_write_buffer c))) (\<lambda>_.
     bindR (iovecs (nb_write_buffer c)) (\<lambda>iovs.
       let p = take 0x7ffff000 (concat iovs) in
       (case adb_write (nb_out c) p of
          (WrErr e, ws) \<Rightarrow>
            if e = EAGAIN then Done (WriteTryAgain, c\<lparr>nb_out := ws, nb_writable := False\<rparr>)
            else Done (WriteError, c\<lparr>nb_out := ws\<rparr>)
        | (WrBytes n, ws) \<Rightarrow>
            if n = 0 then Done (WriteError, c\<lparr>nb_out := ws\<rparr>)
            else bindR (drop_front (nb_write_buffer c) n) (\<lambda>b.
              Done (if iov_empty b then WriteCompleted else WriteTryAgain,
                    c\<lparr>nb_out := ws, nb_wire := nb_wire c @ take n p, nb_write_buffer := b, nb_writable := iov_empty b\<rparr>)))))"

text \<open>\<^verbatim>\<open>Write\<close>; waking the thread only makes its poll return.\<close>

definition nb_Write :: "apacket \<Rightarrow> nb_connection \<Rightarrow> (bool \<times> nb_connection) run" where
  "nb_Write packet c =
     bindR (iov_put (nb_write_buffer c) (msg_bytes (p_msg packet))) (\<lambda>b.
     bindR (if p_payload packet \<noteq> [] then iov_put b (p_payload packet) else Done b) (\<lambda>b.
     bindR (DispatchWrites (c\<lparr>nb_write_buffer := b, nb_accepted := nb_accepted c @ [packet]\<rparr>)) (\<lambda>(result, c).
       Done (result \<noteq> WriteError, c))))"

text \<open>
  The part of \<^verbatim>\<open>Run\<close> for \<^verbatim>\<open>POLLIN\<close>: the header, once there are enough bytes for it, and the packet, once
  there are enough for its payload.
\<close>

definition take_header :: "nb_connection \<Rightarrow> nb_connection run" where
  "take_header c =
     (if nb_read_header c = None \<and> iov_size (nb_read_buffer c) \<ge> 24 then
        bindR (take_front (nb_read_buffer c) 24) (\<lambda>(chain, b).
        bindR (coalesce_move chain) (\<lambda>(header_buf, _).
        bindR (checkR (blk_size header_buf = 24)) (\<lambda>_.
          Done (c\<lparr>nb_read_buffer := b, nb_read_header := Some (msg_of_bytes (block_bytes header_buf))\<rparr>))))
      else Done c)"

definition take_packet :: "nb_connection \<Rightarrow> nb_connection run" where
  "take_packet c =
     (case nb_read_header c of
        None \<Rightarrow> Done c
      | Some m \<Rightarrow>
          if iov_size (nb_read_buffer c) \<ge> unat (m_data_length m) then
            bindR (take_front (nb_read_buffer c) (unat (m_data_length m))) (\<lambda>(data_chain, b).
            bindR (coalesce_move data_chain) (\<lambda>(payload, _).
              Done (c\<lparr>nb_read_buffer := b, nb_read_header := None,
                      nb_handled := nb_handled c @ [\<lparr>p_msg = m, p_payload = block_bytes payload\<rparr>]\<rparr>)))
          else Done c)"

text \<open>The error text, if the thread gives up; the text of \<^verbatim>\<open>errno\<close> is left off.\<close>

definition nb_read :: "nb_connection \<Rightarrow> (string option \<times> nb_connection) run" where
  "nb_read c =
     (case adb_read (nb_in c) MAX_PAYLOAD of
        (RdErr e, es) \<Rightarrow> Done (Some ''read failed: '', c\<lparr>nb_in := es\<rparr>)
      | (RdBytes bs, es) \<Rightarrow>
          if bs = [] then Done (Some ''read failed: EOF'', c\<lparr>nb_in := es\<rparr>)
          else
            bindR (iov_put (nb_read_buffer c) bs) (\<lambda>b.
            bindR (take_header (c\<lparr>nb_in := es, nb_read_buffer := b\<rparr>)) (\<lambda>c.
            bindR (take_packet c) (\<lambda>c. Done (None, c)))))"

text \<open>Before the poll, and after it with what it reported of the descriptor.\<close>

definition nb_poll :: "nb_connection \<Rightarrow> nb_connection" where
  "nb_poll c = c\<lparr>nb_polls_out := \<not> nb_writable c\<rparr>"

definition nb_polled :: "bool \<Rightarrow> bool \<Rightarrow> nb_connection \<Rightarrow> (string option \<times> nb_connection) run" where
  "nb_polled pollout pollin c =
     bindR (if pollout then DispatchWrites c else Done (WriteCompleted, c)) (\<lambda>(r, c).
       if r = WriteError then Done (Some ''write failed'', c)
       else if pollin then nb_read c
       else Done (None, c))"

section \<open>Invariant\<close>

text \<open>
  Writing: what went out and what is buffered are the bytes of the packets given to \<^verbatim>\<open>Write\<close>, and a
  connection that is not writable has something buffered.  Reading, from a descriptor that had \<open>s\<close> to
  read: the packets handed over, the header, the buffer and what is still to come are \<open>s\<close>.
\<close>

definition nb_write_ok :: "nb_connection \<Rightarrow> bool" where
  "nb_write_ok c \<longleftrightarrow> iov_inv (nb_write_buffer c) \<and> (nb_writable c \<or> \<not> iov_empty (nb_write_buffer c)) \<and>
     nb_wire c @ iov_bytes (nb_write_buffer c) = concat (map packet_bytes (nb_accepted c))"

definition header_bytes :: "amessage option \<Rightarrow> string" where
  "header_bytes h = (case h of None \<Rightarrow> [] | Some m \<Rightarrow> msg_bytes m)"

definition framed :: "apacket \<Rightarrow> bool" where
  "framed p \<longleftrightarrow> unat (m_data_length (p_msg p)) = length (p_payload p)"

definition nb_read_ok :: "string \<Rightarrow> nb_connection \<Rightarrow> bool" where
  "nb_read_ok s c \<longleftrightarrow> iov_inv (nb_read_buffer c) \<and> list_all framed (nb_handled c) \<and>
     s = concat (map packet_bytes (nb_handled c)) @ header_bytes (nb_read_header c) @ iov_bytes (nb_read_buffer c) @ readable (nb_in c)"

lemma DispatchWrites_ok:
  assumes "nb_write_ok c" "\<not> iov_empty (nb_write_buffer c)"
  shows "ends (DispatchWrites c) (\<lambda>(r, c'). nb_write_ok c' \<and> nb_accepted c' = nb_accepted c \<and>
    (r = WriteCompleted \<longrightarrow> iov_empty (nb_write_buffer c')) \<and> (\<forall>s. nb_read_ok s c' = nb_read_ok s c))"
proof -
  have inv: "iov_inv (nb_write_buffer c)" and wire: "nb_wire c @ iov_bytes (nb_write_buffer c) = concat (map packet_bytes (nb_accepted c))"
    using assms(1) by (simp_all add: nb_write_ok_def)
  obtain iovs where iov: "iovecs (nb_write_buffer c) = Done iovs" "concat iovs = iov_bytes (nb_write_buffer c)"
    using iterate_blocks_ok [OF inv] by (auto simp: iovecs_def ends_def)
  let ?p = "take 0x7ffff000 (iov_bytes (nb_write_buffer c))"
  show ?thesis
  proof (cases "adb_write (nb_out c) ?p")
    case (Pair r ws)
    show ?thesis
    proof (cases r)
      case (WrErr e)
      with Pair assms iov show ?thesis by (simp add: DispatchWrites_def checkR_def nb_write_ok_def nb_read_ok_def)
    next
      case (WrBytes n)
      have n: "n \<le> length ?p" using Pair WrBytes by (elim adb_write.elims) auto
      then have "n \<le> iov_size (nb_write_buffer c)" "n < 2 ^ 32" using iov_size_bytes [OF inv] by auto
      then obtain b where b: "drop_front (nb_write_buffer c) n = Done b" "iov_inv b" "iov_bytes b = drop n (iov_bytes (nb_write_buffer c))"
        using drop_front_ok [OF inv, of n] by (auto simp: ends_def)
      have "n \<le> 0x7ffff000" using n by simp
      then have "take n ?p = take n (iov_bytes (nb_write_buffer c))" by (simp add: min.absorb1)
      then have "(nb_wire c @ take n ?p) @ iov_bytes b = concat (map packet_bytes (nb_accepted c))" using b(3) wire by simp
      with Pair WrBytes assms iov b show ?thesis by (simp add: DispatchWrites_def checkR_def nb_write_ok_def nb_read_ok_def)
    qed
  qed
qed

text \<open>\<^verbatim>\<open>Write\<close> buffers the bytes of the packet and then dispatches.\<close>

lemma nb_Write_buffers:
  assumes "iov_inv (nb_write_buffer c)"
  obtains b where "iov_inv b" "iov_bytes b = iov_bytes (nb_write_buffer c) @ packet_bytes p" "\<not> iov_empty b"
    "nb_Write p c = bindR (DispatchWrites (c\<lparr>nb_write_buffer := b, nb_accepted := nb_accepted c @ [p]\<rparr>)) (\<lambda>(r, c). Done (r \<noteq> WriteError, c))"
proof -
  obtain b1 where b1: "iov_put (nb_write_buffer c) (msg_bytes (p_msg p)) = Done b1" "iov_inv b1"
      "iov_bytes b1 = iov_bytes (nb_write_buffer c) @ msg_bytes (p_msg p)"
    using iovq.put [OF assms, of "msg_bytes (p_msg p)"] by (auto simp: ends_def)
  obtain b where b: "(if p_payload p \<noteq> [] then iov_put b1 (p_payload p) else Done b1) = Done b" "iov_inv b" "iov_bytes b = iov_bytes b1 @ p_payload p"
    using iovq.put [OF b1(2), of "p_payload p"] b1(2) by (cases "p_payload p = []") (auto simp: ends_def)
  have "iov_bytes b \<noteq> []" using b(3) b1(3) by (metis append_is_Nil_conv length_0_conv length_msg_bytes zero_neq_numeral)
  then have "\<not> iov_empty b" using b(2) by (simp add: iov_empty_bytes)
  with that [of b] b b1(1,3) show ?thesis by (simp add: nb_Write_def packet_bytes_def)
qed

lemma nb_Write_ok:
  assumes "nb_write_ok c"
  shows "ends (nb_Write p c) (\<lambda>(ok, c'). nb_write_ok c' \<and> nb_accepted c' = nb_accepted c @ [p] \<and> (\<forall>s. nb_read_ok s c' = nb_read_ok s c))"
proof -
  have "iov_inv (nb_write_buffer c)" using assms by (simp add: nb_write_ok_def)
  then obtain b where b: "iov_inv b" "iov_bytes b = iov_bytes (nb_write_buffer c) @ packet_bytes p" "\<not> iov_empty b"
    "nb_Write p c = bindR (DispatchWrites (c\<lparr>nb_write_buffer := b, nb_accepted := nb_accepted c @ [p]\<rparr>)) (\<lambda>(r, c). Done (r \<noteq> WriteError, c))"
    by (rule nb_Write_buffers [where p = p])
  let ?c = "c\<lparr>nb_write_buffer := b, nb_accepted := nb_accepted c @ [p]\<rparr>"
  have "nb_write_ok ?c" using assms b by (simp add: nb_write_ok_def append_assoc [symmetric] del: append_assoc)
  moreover have "nb_read_ok s ?c = nb_read_ok s c" for s by (simp add: nb_read_ok_def)
  ultimately show ?thesis using DispatchWrites_ok [of ?c] b(3,4) by (auto simp: ends_def)
qed

lemma take_header_ok:
  assumes "nb_read_ok s c"
  shows "ends (take_header c) (\<lambda>c'. nb_read_ok s c' \<and> nb_write_ok c' = nb_write_ok c)"
proof (cases "nb_read_header c = None \<and> iov_size (nb_read_buffer c) \<ge> 24")
  case True
  have inv: "iov_inv (nb_read_buffer c)" using assms by (simp add: nb_read_ok_def)
  obtain ch b where t: "take_front (nb_read_buffer c) 24 = Done (ch, b)" "iov_inv ch" "iov_inv b"
      "iov_bytes ch = take 24 (iov_bytes (nb_read_buffer c))" "iov_bytes b = drop 24 (iov_bytes (nb_read_buffer c))"
    using take_front_ok [OF inv, of 24] True by (auto simp: ends_def)
  obtain hb v where h: "coalesce_move ch = Done (hb, v)" "blk_ok hb" "block_bytes hb = iov_bytes ch"
    using coalesce_move_ok [OF t(2)] by (auto simp: ends_def)
  have len: "length (iov_bytes ch) = 24" using t(4) True iov_size_bytes [OF inv] by simp
  then have "blk_size hb = 24" using h by (metis length_block_bytes)
  moreover have "msg_bytes (msg_of_bytes (iov_bytes ch)) = iov_bytes ch" by (rule msg_bytes_of_bytes [OF len])
  ultimately show ?thesis using assms True t h
    by (auto simp: take_header_def checkR_def nb_read_ok_def header_bytes_def nb_write_ok_def)
qed (use assms in \<open>auto simp: take_header_def\<close>)

lemma take_packet_ok:
  assumes "nb_read_ok s c"
  shows "ends (take_packet c) (\<lambda>c'. nb_read_ok s c' \<and> nb_write_ok c' = nb_write_ok c)"
proof (cases "nb_read_header c")
  case (Some m)
  have inv: "iov_inv (nb_read_buffer c)" using assms by (simp add: nb_read_ok_def)
  show ?thesis
  proof (cases "iov_size (nb_read_buffer c) \<ge> unat (m_data_length m)")
    case True
    obtain ch b where t: "take_front (nb_read_buffer c) (unat (m_data_length m)) = Done (ch, b)" "iov_inv ch" "iov_inv b"
        "iov_bytes ch = take (unat (m_data_length m)) (iov_bytes (nb_read_buffer c))" "iov_bytes b = drop (unat (m_data_length m)) (iov_bytes (nb_read_buffer c))"
      using take_front_ok [OF inv True] by (auto simp: ends_def)
    obtain pb v where p: "coalesce_move ch = Done (pb, v)" "block_bytes pb = iov_bytes ch"
      using coalesce_move_ok [OF t(2)] by (auto simp: ends_def)
    have "length (iov_bytes ch) = unat (m_data_length m)" using t(4) True iov_size_bytes [OF inv] by simp
    then show ?thesis using assms Some True t p
      by (simp add: take_packet_def nb_read_ok_def header_bytes_def framed_def packet_bytes_def nb_write_ok_def)
  qed (use assms Some in \<open>simp add: take_packet_def\<close>)
qed (use assms in \<open>simp add: take_packet_def\<close>)

lemma nb_read_step_ok:
  assumes "nb_read_ok s c" "nb_write_ok c"
  shows "ends (nb_read c) (\<lambda>(e, c'). nb_write_ok c' \<and> (e = None \<longrightarrow> nb_read_ok s c'))"
proof (cases "adb_read (nb_in c) MAX_PAYLOAD")
  case (Pair r es)
  show ?thesis
  proof (cases r)
    case (RdErr e)
    with Pair assms(2) show ?thesis by (simp add: nb_read_def nb_write_ok_def)
  next
    case (RdBytes bs)
    show ?thesis
    proof (cases "bs = []")
      case True
      with Pair RdBytes assms(2) show ?thesis by (simp add: nb_read_def nb_write_ok_def)
    next
      case False
      have inv: "iov_inv (nb_read_buffer c)" using assms(1) by (simp add: nb_read_ok_def)
      obtain b where b: "iov_put (nb_read_buffer c) bs = Done b" "iov_inv b" "iov_bytes b = iov_bytes (nb_read_buffer c) @ bs"
        using iovq.put [OF inv, of bs] by (auto simp: ends_def)
      let ?c = "c\<lparr>nb_in := es, nb_read_buffer := b\<rparr>"
      have "readable (nb_in c) = bs @ readable es"
        using adb_read_readable [of MAX_PAYLOAD "nb_in c"] Pair RdBytes by (simp add: MAX_PAYLOAD_def)
      then have "nb_read_ok s ?c" "nb_write_ok ?c" using assms b by (simp_all add: nb_read_ok_def nb_write_ok_def)
      then obtain c1 where c1: "take_header ?c = Done c1" "nb_read_ok s c1" "nb_write_ok c1" using take_header_ok [of s ?c] by (auto simp: ends_def)
      obtain c2 where c2: "take_packet c1 = Done c2" "nb_read_ok s c2" "nb_write_ok c2" using take_packet_ok [OF c1(2)] c1(3) by (auto simp: ends_def)
      from Pair RdBytes False b(1) c1 c2 show ?thesis by (simp add: nb_read_def)
    qed
  qed
qed

section \<open>Runs\<close>

text \<open>
  The thread polls, and other threads write meanwhile.  \<^verbatim>\<open>POLLOUT\<close> is reported only where it was asked for.
\<close>

inductive nb_step :: "nb_connection \<Rightarrow> nb_connection \<Rightarrow> bool" where
  wr: "nb_Write p c = Done (ok, c') \<Longrightarrow> nb_step c c'"
| start: "nb_Start c = Done c' \<Longrightarrow> nb_step c c'"
| run: "nb_started c \<Longrightarrow> \<not> nb_in_run c \<Longrightarrow> nb_step c (nb_Run_begin c)"
| stop: "nb_started c \<Longrightarrow> nb_step c (nb_Stop_begin c)"
| poll: "nb_in_run c \<Longrightarrow> nb_running c \<Longrightarrow> nb_step c (nb_poll c)"
| polled: "nb_in_run c \<Longrightarrow> (pollout \<Longrightarrow> nb_polls_out c) \<Longrightarrow> nb_polled pollout pollin c = Done (None, c') \<Longrightarrow> nb_step c c'"

lemma nb_step_ok:
  assumes "nb_step c c'" "nb_write_ok c" "nb_read_ok s c"
  shows "nb_write_ok c' \<and> nb_read_ok s c'"
  using assms
proof (induction rule: nb_step.induct)
  case (wr p c ok c')
  then show ?case using nb_Write_ok [of c p] by (simp add: ends_def)
next
  case (start c c')
  then show ?case by (auto simp: nb_Start_def nb_write_ok_def nb_read_ok_def split: if_splits)
next
  case (run c)
  then show ?case by (simp add: nb_Run_begin_def nb_write_ok_def nb_read_ok_def)
next
  case (stop c)
  then show ?case by (simp add: nb_Stop_begin_def nb_write_ok_def nb_read_ok_def)
next
  case (poll c)
  then show ?case by (simp add: nb_poll_def nb_write_ok_def nb_read_ok_def)
next
  case (polled c pollout pollin c')
  from polled.hyps(3) obtain r c1 where r: "(if pollout then DispatchWrites c else Done (WriteCompleted, c)) = Done (r, c1)"
      "r \<noteq> WriteError" "(if pollin then nb_read c1 else Done (None, c1)) = Done (None, c')"
    by (auto simp: nb_polled_def split: if_splits)
  have "nb_write_ok c1 \<and> nb_read_ok s c1"
  proof (cases pollout)
    case True
    then have d: "DispatchWrites c = Done (r, c1)" using r(1) by simp
    then have "\<not> iov_empty (nb_write_buffer c)" by (auto simp: DispatchWrites_def checkR_def split: if_splits)
    with d DispatchWrites_ok [OF polled.prems(1)] polled.prems show ?thesis by (auto simp: ends_def)
  qed (use r(1) polled.prems in simp)
  with r(3) nb_read_step_ok [of s c1] show ?case by (cases pollin) (auto simp: ends_def)
qed

text \<open>The first packet of what a read returns, with the bytes after it left in the buffer.\<close>

lemma nb_polled_one:
  assumes "packet_ok p" "length (packet_bytes p @ rest) \<le> MAX_PAYLOAD" "nb_read_buffer c = empty_iov" "nb_read_header c = None"
    and "nb_in c = [Avail (packet_bytes p @ rest)]"
  shows "\<exists>c'. nb_polled False True c = Done (None, c') \<and> nb_handled c' = nb_handled c @ [p] \<and> iov_bytes (nb_read_buffer c') = rest \<and> nb_in c' = []"
proof -
  let ?bs = "packet_bytes p @ rest" and ?n = "unat (m_data_length (p_msg p))"
  have n: "?n = length (p_payload p)" using assms(1) by (simp add: packet_ok_def)
  have bs: "?bs = msg_bytes (p_msg p) @ p_payload p @ rest" by (simp add: packet_bytes_def)
  then have ne: "?bs \<noteq> []" "24 \<le> length ?bs" by (auto simp flip: length_0_conv)
  obtain b where b: "iov_put empty_iov ?bs = Done b" "iov_inv b" "iov_bytes b = ?bs"
    using iovq.put [of empty_iov ?bs] by (auto simp: ends_def)
  obtain ch b1 where t: "take_front b 24 = Done (ch, b1)" "iov_inv ch" "iov_inv b1" "iov_bytes ch = msg_bytes (p_msg p)"
      "iov_bytes b1 = p_payload p @ rest"
    using take_front_ok [OF b(2), of 24] ne(2) b(2,3) bs by (auto simp: ends_def iov_size_bytes)
  obtain hb v where h: "coalesce_move ch = Done (hb, v)" "blk_ok hb" "block_bytes hb = msg_bytes (p_msg p)"
    using coalesce_move_ok [OF t(2)] t(4) by (auto simp: ends_def)
  then have "blk_size hb = 24" by (metis length_block_bytes length_msg_bytes)
  then have hdr: "take_header (c\<lparr>nb_in := [], nb_read_buffer := b\<rparr>) = Done (c\<lparr>nb_in := [], nb_read_buffer := b1, nb_read_header := Some (p_msg p)\<rparr>)"
    using t(1) h assms(4) ne(2) b by (simp add: take_header_def checkR_def iov_size_bytes)
  obtain ch2 b2 where t2: "take_front b1 ?n = Done (ch2, b2)" "iov_inv ch2" "iov_bytes ch2 = p_payload p" "iov_bytes b2 = rest"
    using take_front_ok [OF t(3), of ?n] t(3,5) n by (auto simp: ends_def iov_size_bytes)
  obtain pb v2 where "coalesce_move ch2 = Done (pb, v2)" "block_bytes pb = p_payload p"
    using coalesce_move_ok [OF t2(2)] t2(3) by (auto simp: ends_def)
  then have "take_packet (c\<lparr>nb_in := [], nb_read_buffer := b1, nb_read_header := Some (p_msg p)\<rparr>) =
      Done (c\<lparr>nb_in := [], nb_read_buffer := b2, nb_read_header := None, nb_handled := nb_handled c @ [p]\<rparr>)"
    using t2(1) t(3,5) n by (simp add: take_packet_def iov_size_bytes)
  with hdr b(1) ne(1) assms(2,3,5) t2(4) show ?thesis by (simp add: nb_polled_def nb_read_def)
qed

text \<open>
  C19: Whatever the interleaving of writers and the polling thread, the bytes on the wire are a beginning of
  the packets given to \<^verbatim>\<open>Write\<close>, and the packets handed over are those the bytes read begin with:
  none is lost, cut, or made up.
\<close>

theorem nonblocking_frames:
  assumes "nb_step\<^sup>*\<^sup>* (new_nb es ws) c"
  shows "nb_wire c @ iov_bytes (nb_write_buffer c) = concat (map packet_bytes (nb_accepted c)) \<and>
    list_all framed (nb_handled c) \<and> prefix (concat (map packet_bytes (nb_handled c))) (readable es)"
proof -
  have "nb_write_ok c \<and> nb_read_ok (readable es) c"
    using assms
  proof (induction rule: rtranclp_induct)
    case base
    then show ?case by (simp add: new_nb_def nb_write_ok_def nb_read_ok_def header_bytes_def)
  qed (use nb_step_ok in blast)
  then show ?thesis by (auto simp: nb_write_ok_def nb_read_ok_def)
qed

theorem nonblocking_frames_witness:
  "\<exists>c. nb_step\<^sup>*\<^sup>* (new_nb [Avail (packet_bytes sample_packet)] []) c \<and> nb_handled c = [sample_packet] \<and>
     prefix (concat (map packet_bytes (nb_handled c))) (packet_bytes sample_packet)"
proof -
  have len: "length (packet_bytes sample_packet) \<le> MAX_PAYLOAD" by (simp add: packet_bytes_def sample_packet_def MAX_PAYLOAD_def)
  let ?c = "new_nb [Avail (packet_bytes sample_packet)] []"
  let ?d = "nb_poll (nb_Run_begin (?c\<lparr>nb_started := True\<rparr>))"
  obtain c where c: "nb_polled False True ?d = Done (None, c)" "nb_handled c = [sample_packet]"
    using nb_polled_one [OF sample_ok, of "[]" ?d] len by (auto simp: new_nb_def nb_poll_def nb_Run_begin_def)
  have 1: "nb_step ?c (?c\<lparr>nb_started := True\<rparr>)" by (rule nb_step.start) (simp add: nb_Start_def new_nb_def)
  have 2: "nb_step (?c\<lparr>nb_started := True\<rparr>) (nb_Run_begin (?c\<lparr>nb_started := True\<rparr>))" by (rule nb_step.run) (simp_all add: new_nb_def)
  have 3: "nb_step (nb_Run_begin (?c\<lparr>nb_started := True\<rparr>)) ?d" by (rule nb_step.poll) (simp_all add: nb_Run_begin_def)
  have 4: "nb_step ?d c" using c(1) by (intro nb_step.polled [of _ False True]) (simp_all add: nb_Run_begin_def nb_poll_def)
  from 1 2 3 4 have "nb_step\<^sup>*\<^sup>* ?c c" by (meson converse_rtranclp_into_rtranclp rtranclp.rtrancl_refl)
  with nonblocking_frames [OF this] c(2) show ?thesis by (intro exI [of _ c]) simp
qed

text \<open>
  C38: Two packets that arrive together: only the first is handed over.  The second stays in the buffer,
  complete, and the thread polls again; nothing happens to it until more bytes arrive.
\<close>

theorem second_packet_stalls:
  assumes "packet_ok p" "packet_ok q" "length (packet_bytes p @ packet_bytes q) \<le> MAX_PAYLOAD" "nb_read_buffer c = empty_iov" "nb_read_header c = None"
    and "nb_in c = [Avail (packet_bytes p @ packet_bytes q)]"
  shows "\<exists>c'. nb_polled False True c = Done (None, c') \<and> nb_handled c' = nb_handled c @ [p] \<and> iov_bytes (nb_read_buffer c') = packet_bytes q \<and> nb_in c' = []"
  using assms by (intro nb_polled_one)

theorem second_packet_stalls_witness:
  "\<exists>c'. nb_polled False True (new_nb [Avail (packet_bytes sample_packet @ packet_bytes sample_packet)] []) = Done (None, c') \<and>
     nb_handled c' = [sample_packet] \<and> iov_bytes (nb_read_buffer c') = packet_bytes sample_packet"
  using second_packet_stalls [OF sample_ok sample_ok, of "new_nb [Avail (packet_bytes sample_packet @ packet_bytes sample_packet)] []"]
  by (auto simp: new_nb_def packet_bytes_def sample_packet_def MAX_PAYLOAD_def)

lemma DispatchWrites_all:
  assumes "iov_inv (nb_write_buffer c)" "\<not> iov_empty (nb_write_buffer c)" "nb_out c = []" "length (iov_bytes (nb_write_buffer c)) < 0x7ffff000"
  shows "\<exists>c'. DispatchWrites c = Done (WriteCompleted, c') \<and> iov_empty (nb_write_buffer c') \<and> nb_polls_out c' = nb_polls_out c"
proof -
  let ?b = "nb_write_buffer c"
  have size: "length (iov_bytes ?b) = iov_size ?b" "iov_size ?b \<noteq> 0" "iov_bytes ?b \<noteq> []"
    using assms(1,2) iov_size_bytes [OF assms(1)] iov_empty_bytes [OF assms(1)] by (auto simp: iov_empty_def)
  have "iov_size ?b < 2 ^ 32" using size(1) assms(4) by simp
  then obtain e where e: "drop_front ?b (iov_size ?b) = Done e" "iov_empty e"
    using drop_front_ok [OF assms(1), of "iov_size ?b"] size(1) iov_empty_bytes by (auto simp: ends_def)
  obtain segs where segs: "iovecs ?b = Done segs" "concat segs = iov_bytes ?b" using iterate_blocks_ok [OF assms(1)] by (auto simp: iovecs_def ends_def)
  have "DispatchWrites c = Done (WriteCompleted, c\<lparr>nb_out := [], nb_wire := nb_wire c @ iov_bytes ?b, nb_write_buffer := e, nb_writable := True\<rparr>)"
    using assms(2-4) size e segs(1) by (simp add: DispatchWrites_def checkR_def Let_def segs(2) del: concat_eq_Nil_conv)
  with e(2) show ?thesis by simp
qed

text \<open>
  C40: A write that fills the descriptor makes the thread ask for \<^verbatim>\<open>POLLOUT\<close>; if another write then gets
  everything out, the thread finds nothing to write when its poll returns, and the process aborts.
\<close>

theorem pollout_race:
  assumes "nb_writable c" "iov_empty (nb_write_buffer c)" "nb_write_ok c" "nb_out c = [WrFails EAGAIN]"
    and "length (packet_bytes p @ packet_bytes q) < 0x7ffff000"
  shows "\<exists>c1 c2. nb_Write p c = Done (True, c1) \<and> nb_polls_out (nb_poll c1) \<and> nb_Write q (nb_poll c1) = Done (True, c2) \<and>
    nb_polls_out c2 \<and> nb_polled True pollin c2 = Stop CheckFailed"
proof -
  have bytes: "iovecs b = Done segs \<Longrightarrow> concat segs = iov_bytes b" "\<exists>segs. iovecs b = Done segs" if "iov_inv b" for b segs
    using iterate_blocks_ok [OF that] by (auto simp: iovecs_def ends_def)
  have inv: "iov_inv (nb_write_buffer c)" and none: "iov_bytes (nb_write_buffer c) = []"
    using assms(2,3) iov_empty_bytes by (auto simp: nb_write_ok_def)
  obtain b where b: "iov_inv b" "iov_bytes b = packet_bytes p" "\<not> iov_empty b"
    "nb_Write p c = bindR (DispatchWrites (c\<lparr>nb_write_buffer := b, nb_accepted := nb_accepted c @ [p]\<rparr>)) (\<lambda>(r, c). Done (r \<noteq> WriteError, c))"
    using nb_Write_buffers [OF inv, of p] none by auto
  define c1 where "c1 = c\<lparr>nb_write_buffer := b, nb_accepted := nb_accepted c @ [p], nb_out := [], nb_writable := False\<rparr>"
  have 1: "nb_Write p c = Done (True, c1)" using b bytes(2) [OF b(1)] assms(4) by (auto simp: DispatchWrites_def checkR_def c1_def)
  have inv1: "iov_inv (nb_write_buffer (nb_poll c1))" using b(1) by (simp add: c1_def nb_poll_def)
  obtain d where d: "iov_inv d" "iov_bytes d = packet_bytes p @ packet_bytes q" "\<not> iov_empty d"
    "nb_Write q (nb_poll c1) = bindR (DispatchWrites ((nb_poll c1)\<lparr>nb_write_buffer := d, nb_accepted := nb_accepted (nb_poll c1) @ [q]\<rparr>)) (\<lambda>(r, c). Done (r \<noteq> WriteError, c))"
    using nb_Write_buffers [OF inv1, of q] b(2) by (auto simp: c1_def nb_poll_def)
  obtain c2 where c2: "DispatchWrites ((nb_poll c1)\<lparr>nb_write_buffer := d, nb_accepted := nb_accepted (nb_poll c1) @ [q]\<rparr>) = Done (WriteCompleted, c2)"
      "iov_empty (nb_write_buffer c2)" "nb_polls_out c2"
    using DispatchWrites_all [of "(nb_poll c1)\<lparr>nb_write_buffer := d, nb_accepted := nb_accepted (nb_poll c1) @ [q]\<rparr>"] d assms(5)
    by (auto simp: c1_def nb_poll_def)
  then have "nb_Write q (nb_poll c1) = Done (True, c2)" using d(4) by simp
  moreover have "nb_polled True pollin c2 = Stop CheckFailed" using c2(2) by (simp add: nb_polled_def DispatchWrites_def checkR_def)
  ultimately show ?thesis using 1 c2(3) by (intro exI [of _ c1] exI [of _ c2]) (simp add: c1_def nb_poll_def)
qed

theorem pollout_race_witness:
  "\<exists>c1 c2. nb_Write sample_packet (new_nb [] [WrFails EAGAIN]) = Done (True, c1) \<and> nb_Write sample_packet (nb_poll c1) = Done (True, c2) \<and>
     nb_polled True False c2 = Stop CheckFailed"
proof -
  let ?c = "new_nb [] [WrFails EAGAIN]"
  have "nb_writable ?c" "iov_empty (nb_write_buffer ?c)" "nb_write_ok ?c" "nb_out ?c = [WrFails EAGAIN]"
    by (simp_all add: new_nb_def nb_write_ok_def iov_empty_bytes)
  moreover have "length (packet_bytes sample_packet @ packet_bytes sample_packet) < 0x7ffff000" by (simp add: packet_bytes_def sample_packet_def)
  ultimately show ?thesis using pollout_race [of ?c sample_packet sample_packet False] by blast
qed

text \<open>A \<^verbatim>\<open>Stop\<close> that comes before the new thread has reached the loop is undone by it: the thread keeps polling.\<close>

lemma early_stop_undone:
  "\<not> nb_started c \<Longrightarrow> \<exists>c1. nb_Start c = Done c1 \<and> nb_running (nb_Run_begin (nb_Stop_begin c1)) \<and>
     nb_step (nb_Run_begin (nb_Stop_begin c1)) (nb_poll (nb_Run_begin (nb_Stop_begin c1)))"
  by (auto simp: nb_Start_def nb_Run_begin_def intro!: nb_step.poll)

end
