(* ===== verification/Libbase.thy ===== *)
theory Libbase
  imports C_Text
begin

text \<open>
  The string functions of \<^verbatim>\<open>libbase\<close> that adb is written with: splitting, joining, trimming, prefix
  and suffix tests, replacement (\<^verbatim>\<open>strings.cpp\<close>, \<^verbatim>\<open>strings.h\<close>), number parsing (\<^verbatim>\<open>parseint.h\<close>),
  booleans, hex dumps, network addresses and path components.
\<close>

section \<open>strings.cpp, strings.h\<close>

text \<open>The loop of \<^verbatim>\<open>Split\<close>, on the text from \<^verbatim>\<open>base\<close> on.\<close>

function split_loop :: "string \<Rightarrow> string \<Rightarrow> string list" where
  "split_loop delims s =
     (case dropWhile (\<lambda>c. c \<notin> set delims) s of
        [] \<Rightarrow> [takeWhile (\<lambda>c. c \<notin> set delims) s]
      | _ # rest \<Rightarrow> takeWhile (\<lambda>c. c \<notin> set delims) s # split_loop delims rest)"
  by pat_completeness auto
termination
proof (relation "measure (\<lambda>(d, s). length s)", goal_cases)
  case (2 delims s x rest)
  have "length (dropWhile (\<lambda>c. c \<notin> set delims) s) \<le> length s" by (rule length_dropWhile_le)
  with 2 show ?case by simp
qed simp

declare split_loop.simps [simp del]

definition Split :: "string \<Rightarrow> string \<Rightarrow> string list run" where
  "Split s delims = (if delims = [] then Stop CheckFailed else Done (split_loop delims s))"

text \<open>The loop of \<^verbatim>\<open>Tokenize\<close>, on the text from \<^verbatim>\<open>end\<close> on.\<close>

function tokenize_loop :: "string \<Rightarrow> string \<Rightarrow> string list" where
  "tokenize_loop delims s =
     (let t = dropWhile (\<lambda>c. c \<in> set delims) s in
      if t = [] then []
      else takeWhile (\<lambda>c. c \<notin> set delims) t # tokenize_loop delims (dropWhile (\<lambda>c. c \<notin> set delims) t))"
  by pat_completeness auto
termination
proof (relation "measure (\<lambda>(d, s). length s)", goal_cases)
  case (2 delims s t)
  from 2(2) obtain c r where t: "t = c # r" by (meson list.exhaust)
  then have "c \<notin> set delims" using 2(1) by (metis hd_dropWhile list.distinct(1) list.sel(1))
  then have "length (dropWhile (\<lambda>c. c \<notin> set delims) t) < length t"
    using length_dropWhile_le [of "\<lambda>c. c \<notin> set delims" r] by (simp add: t less_Suc_eq_le)
  moreover have "length t \<le> length s" using 2(1) by (simp add: length_dropWhile_le)
  ultimately show ?case by simp
qed simp

declare tokenize_loop.simps [simp del]

definition Tokenize :: "string \<Rightarrow> string \<Rightarrow> string list run" where
  "Tokenize s delims = (if delims = [] then Stop CheckFailed else Done (tokenize_loop delims s))"

definition Trim :: "string \<Rightarrow> string" where
  "Trim s = rev (dropWhile is_space (rev (dropWhile is_space s)))"

fun Join :: "string list \<Rightarrow> string \<Rightarrow> string" where
  "Join [] sep = []"
| "Join [x] sep = x"
| "Join (x # y # r) sep = x @ sep @ Join (y # r) sep"

definition StartsWith :: "string \<Rightarrow> string \<Rightarrow> bool" where
  "StartsWith s p \<longleftrightarrow> take (length p) s = p"

definition EndsWith :: "string \<Rightarrow> string \<Rightarrow> bool" where
  "EndsWith s p \<longleftrightarrow> length s \<ge> length p \<and> take (length p) (drop (length s - length p) s) = p"

text \<open>\<^verbatim>\<open>ConsumePrefix\<close> and \<^verbatim>\<open>ConsumeSuffix\<close>: \<open>Some\<close> of the shortened view when they return true.\<close>

definition ConsumePrefix :: "string \<Rightarrow> string \<Rightarrow> string option" where
  "ConsumePrefix s p = (if \<not> StartsWith s p then None else Some (drop (length p) s))"

definition ConsumeSuffix :: "string \<Rightarrow> string \<Rightarrow> string option" where
  "ConsumeSuffix s p = (if \<not> EndsWith s p then None else Some (take (length s - length p) s))"

text \<open>\<^verbatim>\<open>std::string::find\<close> and \<^verbatim>\<open>rfind\<close> of a text, \<open>None\<close> for \<^verbatim>\<open>npos\<close>.\<close>

fun find_sub :: "string \<Rightarrow> string \<Rightarrow> nat option" where
  "find_sub n [] = (if n = [] then Some 0 else None)"
| "find_sub n (c # s) = (if prefix n (c # s) then Some 0 else map_option Suc (find_sub n s))"

fun rfind_sub :: "string \<Rightarrow> string \<Rightarrow> nat option" where
  "rfind_sub n [] = (if n = [] then Some 0 else None)"
| "rfind_sub n (c # s) =
     (case rfind_sub n s of Some i \<Rightarrow> Some (Suc i) | None \<Rightarrow> if prefix n (c # s) then Some 0 else None)"

lemma find_sub_le: "find_sub n s = Some i \<Longrightarrow> i + length n \<le> length s"
  by (induction s arbitrary: i) (auto split: if_splits dest: prefix_length_le)

text \<open>The loop of \<^verbatim>\<open>StringReplace\<close>, on the text from \<^verbatim>\<open>start_pos\<close> on.\<close>

function replace_loop :: "string \<Rightarrow> string \<Rightarrow> bool \<Rightarrow> string \<Rightarrow> string" where
  "replace_loop pat rep all s =
     (if pat = [] then s else
      case find_sub pat s of
        None \<Rightarrow> s
      | Some pos \<Rightarrow>
          take pos s @ rep @
          (if all then replace_loop pat rep all (drop (pos + length pat) s) else drop (pos + length pat) s))"
  by pat_completeness auto
termination
proof (relation "measure (\<lambda>(f, t, a, s). length s)", goal_cases)
  case (2 pat rep all s pos)
  then show ?case using find_sub_le [of pat s pos] by (cases pat) auto
qed simp

declare replace_loop.simps [simp del]

definition StringReplace :: "string \<Rightarrow> string \<Rightarrow> string \<Rightarrow> bool \<Rightarrow> string" where
  "StringReplace s pat rep all = (if pat = [] then s else replace_loop pat rep all s)"

section \<open>parseint.h, parsebool.cpp, hex.cpp\<close>

definition number_base :: "string \<Rightarrow> nat" where
  "number_base s = (case s of c # x # _ \<Rightarrow> if c = CHR ''0'' \<and> (x = CHR ''x'' \<or> x = CHR ''X'') then 16 else 10 | _ \<Rightarrow> 10)"

definition tolower :: "char \<Rightarrow> char" where
  "tolower c = (if 65 \<le> (of_char c :: nat) \<and> (of_char c :: nat) \<le> 90 then char_of (of_char c + 32 :: nat) else c)"

fun index_in :: "string \<Rightarrow> char \<Rightarrow> nat option" where
  "index_in [] c = None"
| "index_in (x # s) c = (if x = c then Some 0 else map_option Suc (index_in s c))"

definition ParseUint :: "string \<Rightarrow> nat \<Rightarrow> bool \<Rightarrow> nat option" where
  "ParseUint str mx allow_suffixes =
     (let s = dropWhile is_space (c_str str) in
      if s \<noteq> [] \<and> hd s = CHR ''-'' then None
      else (case strto_scan (number_base s) s of (neg, ds, end) \<Rightarrow>
        let result = of_base (number_base s) ds in
        if ds = [] \<or> result \<ge> 2 ^ 64 then None
        else (case (case end of
                      [] \<Rightarrow> Some result
                    | e # _ \<Rightarrow>
                        if \<not> allow_suffixes then None
                        else (case index_in ''bkmgtpe'' (tolower e) of
                                None \<Rightarrow> None
                              | Some k \<Rightarrow> if result * 2 ^ (10 * k) < 2 ^ 64 then Some (result * 2 ^ (10 * k)) else None)) of
                None \<Rightarrow> None
              | Some v \<Rightarrow> if mx < v then None else Some v)))"

definition ParseInt :: "string \<Rightarrow> int \<Rightarrow> int \<Rightarrow> int option" where
  "ParseInt str mn mx =
     (let s = dropWhile is_space (c_str str) in
      case strto_scan (number_base s) s of (neg, ds, end) \<Rightarrow>
        let v = (if neg then - int (of_base (number_base s) ds) else int (of_base (number_base s) ds)) in
        if v < - (2 ^ 63) \<or> v \<ge> 2 ^ 63 then None
        else if ds = [] \<or> end \<noteq> [] then None
        else if v < mn \<or> mx < v then None
        else Some v)"

definition INT_MIN :: int where "INT_MIN = - (2 ^ 31)"
definition INT_MAX :: int where "INT_MAX = 2 ^ 31 - 1"

datatype parse_bool_result = kError | kFalse | kTrue

definition ParseBool :: "string \<Rightarrow> parse_bool_result" where
  "ParseBool s =
     (if s = ''1'' \<or> s = ''y'' \<or> s = ''yes'' \<or> s = ''on'' \<or> s = ''true'' then kTrue
      else if s = ''0'' \<or> s = ''n'' \<or> s = ''no'' \<or> s = ''off'' \<or> s = ''false'' then kFalse
      else kError)"

definition HexString :: "string \<Rightarrow> string" where
  "HexString bytes = concat (map (\<lambda>c. [digit_char (of_char c div 16), digit_char (of_char c mod 16)]) bytes)"

section \<open>parsenetaddress.cpp\<close>

definition quoted :: "string \<Rightarrow> string" where
  "quoted s = CHR 0x27 # s @ [CHR 0x27]"

text \<open>\<^verbatim>\<open>sscanf(s, "%d", &v)\<close>: trailing text is ignored; the value is read as a \<^verbatim>\<open>long\<close> and cut to 32 bits.\<close>

definition sscanf_d :: "string \<Rightarrow> int option" where
  "sscanf_d s =
     (case strto_scan 10 s of (neg, ds, _) \<Rightarrow>
        if ds = [] then None
        else (let v = (if neg then max (- int (of_base 10 ds)) (- (2 ^ 63)) else min (int (of_base 10 ds)) (2 ^ 63 - 1))
              in Some (sint (word_of_int v :: 32 word))))"

text \<open>
  \<^verbatim>\<open>ParseNetAddress\<close>: \<open>port0\<close> is the value of \<^verbatim>\<open>*port\<close> on entry.  The result is the error text, or
  the host, the port and the canonical address.  \<open>net_finish\<close> is the part after the three-way branch.
\<close>

definition net_finish :: "string \<Rightarrow> int \<Rightarrow> bool \<Rightarrow> string \<Rightarrow> string option \<Rightarrow> string + (string \<times> int \<times> string)" where
  "net_finish address port0 ipv6 host port_str =
     (if host = [] then Inl (''no host in '' @ quoted (c_str address))
      else (let bad = \<lambda>s. Inl (''bad port number '' @ quoted (c_str s) @ '' in '' @ quoted (c_str address));
                ok = \<lambda>p. Inr (host, p, if ipv6 then ''['' @ c_str host @ '']:'' @ dec_int p
                                       else c_str host @ '':'' @ dec_int p)
            in case port_str of
                 None \<Rightarrow> ok port0
               | Some s \<Rightarrow>
                   (case sscanf_d s of
                      None \<Rightarrow> bad s
                    | Some p \<Rightarrow> if p \<le> 0 \<or> p > 65535 then bad s else ok p)))"

definition ParseNetAddress :: "string \<Rightarrow> int \<Rightarrow> string + (string \<times> int \<times> string)" where
  "ParseNetAddress address port0 =
     (let colons = count_list address CHR '':'';
          dots = count_list address CHR ''.''
      in if address \<noteq> [] \<and> hd address = CHR ''['' then
           (case (find_sub '']:'' address, rfind_sub '']:'' address) of
              (Some i, Some j) \<Rightarrow>
                net_finish address port0 True (take (i - 1) (drop 1 address)) (Some (drop (j + 2) address))
            | _ \<Rightarrow> Inl (''bad IPv6 address '' @ quoted (c_str address)))
         else if dots = 0 \<and> colons \<ge> 2 \<and> colons \<le> 7 then net_finish address port0 True address None
         else if colons \<le> 1 then
           (case split_loop '':'' address of
              [] \<Rightarrow> net_finish address port0 False [] None
            | [h] \<Rightarrow> net_finish address port0 False h None
            | h # p # _ \<Rightarrow> net_finish address port0 False h (Some p))
         else net_finish address port0 True [] None)"

section \<open>Path components (file.cpp)\<close>

definition PATH_MAX :: nat where "PATH_MAX = 4096"

text \<open>\<^verbatim>\<open>while (endp > path && P(*endp)) endp--;\<close> as an index.\<close>

fun back_while :: "(char \<Rightarrow> bool) \<Rightarrow> string \<Rightarrow> nat \<Rightarrow> nat" where
  "back_while P s 0 = 0"
| "back_while P s (Suc i) = (if P (s ! Suc i) then back_while P s i else Suc i)"

text \<open>\<^verbatim>\<open>_dirname_r\<close> and \<^verbatim>\<open>_basename_r\<close> with a buffer of \<^verbatim>\<open>PATH_MAX\<close>; too long a result is the empty string.\<close>

definition Dirname :: "string \<Rightarrow> string" where
  "Dirname path =
     (if path = [] then ''.''
      else (let e1 = back_while (\<lambda>c. c = CHR ''/'') path (length path - 1);
                e2 = back_while (\<lambda>c. c \<noteq> CHR ''/'') path e1
            in if e2 = 0 then (if path ! 0 = CHR ''/'' then ''/'' else ''.'')
               else (let e3 = back_while (\<lambda>c. c = CHR ''/'') path (e2 - 1);
                         len = e3 + 1
                     in if len + 1 > PATH_MAX then [] else take len path)))"

text \<open>\<^verbatim>\<open>while (startp > path && *(startp - 1) != '/') startp--;\<close>\<close>

fun back_start :: "string \<Rightarrow> nat \<Rightarrow> nat" where
  "back_start s 0 = 0"
| "back_start s (Suc i) = (if s ! i \<noteq> CHR ''/'' then back_start s i else Suc i)"

definition Basename :: "string \<Rightarrow> string" where
  "Basename path =
     (if path = [] then ''.''
      else (let e1 = back_while (\<lambda>c. c = CHR ''/'') path (length path - 1)
            in if e1 = 0 \<and> path ! 0 = CHR ''/'' then ''/''
               else (let start = back_start path e1;
                         len = e1 - start + 1
                     in if len > PATH_MAX - 1 then [] else take len (drop start path))))"

section \<open>Lemmas\<close>

lemma split_loop_nonempty [simp]: "split_loop d s \<noteq> []"
  by (subst split_loop.simps) (auto split: list.splits)

lemma split_loop_Nil [simp]: "split_loop d [] = [[]]"
  by (simp add: split_loop.simps)

lemma split_loop_delim: "c \<in> set d \<Longrightarrow> split_loop d (c # s) = [] # split_loop d s"
  by (simp add: split_loop.simps [of d "c # s"])

lemma split_loop_other:
  "c \<notin> set d \<Longrightarrow> split_loop d (c # s) = (c # hd (split_loop d s)) # tl (split_loop d s)"
  by (cases "dropWhile (\<lambda>c. c \<notin> set d) s")
    (simp_all add: split_loop.simps [of d "c # s"] split_loop.simps [of d s] del: dropWhile_eq_Nil_conv)

lemma Join_Cons: "xs \<noteq> [] \<Longrightarrow> Join (x # xs) sep = x @ sep @ Join xs sep"
  by (cases xs) auto

lemma Join_hd: "xs \<noteq> [] \<Longrightarrow> Join ((c # hd xs) # tl xs) sep = c # Join xs sep"
  by (cases xs; cases "tl xs") auto

lemma Join_split: "Join (split_loop [c] s) [c] = s"
proof (induction s)
  case (Cons x s)
  then show ?case by (cases "x = c") (simp_all add: split_loop_delim split_loop_other Join_Cons Join_hd)
qed simp

lemma split_loop_append:
  "\<forall>c\<in>set p. c \<notin> set d \<Longrightarrow> split_loop d (p @ s) = (p @ hd (split_loop d s)) # tl (split_loop d s)"
  by (induction p) (simp_all add: split_loop_other)

lemma split_Join:
  "ps \<noteq> [] \<Longrightarrow> \<forall>p\<in>set ps. c \<notin> set p \<Longrightarrow> split_loop [c] (Join ps [c]) = ps"
proof (induction ps "[c]" rule: Join.induct)
  case (2 x)
  then have "\<forall>y\<in>set x. y \<notin> set [c]" by auto
  from split_loop_append [OF this, of "[]"] show ?case by simp
next
  case (3 x y r)
  then have "\<forall>z\<in>set x. z \<notin> set [c]" by auto
  from split_loop_append [OF this, of "c # Join (y # r) [c]"] 3 show ?case by (simp add: split_loop_delim)
qed simp

lemma tokenize_split: "tokenize_loop d s = filter (\<lambda>p. p \<noteq> []) (split_loop d s)"
proof (induction s rule: measure_induct_rule [of length])
  case (less s)
  show ?case
  proof (cases s)
    case (Cons c r)
    show ?thesis
    proof (cases "c \<in> set d")
      case True
      have "tokenize_loop d (c # r) = tokenize_loop d r"
        using True by (simp add: tokenize_loop.simps [of d "c # r"] tokenize_loop.simps [of d r])
      with True less [of r] Cons show ?thesis by (simp add: split_loop_delim)
    next
      case False
      let ?t = "dropWhile (\<lambda>c. c \<notin> set d) r"
      have t: "tokenize_loop d s = (c # takeWhile (\<lambda>c. c \<notin> set d) r) # tokenize_loop d ?t"
        using False Cons by (subst tokenize_loop.simps) (simp add: Let_def)
      show ?thesis
      proof (cases ?t)
        case Nil
        then show ?thesis using t False Cons
          by (simp add: split_loop_other split_loop.simps [of d r] tokenize_loop.simps [of d "[]"]
              del: dropWhile_eq_Nil_conv)
      next
        case (Cons e u)
        have e: "e \<in> set d" using Cons by (metis hd_dropWhile list.distinct(1) list.sel(1))
        have u: "length ?t < length s"
          using \<open>s = c # r\<close> length_dropWhile_le [of "\<lambda>c. c \<notin> set d" r] by simp
        show ?thesis using t False Cons \<open>s = c # r\<close> e less [OF u]
          by (simp add: split_loop_other split_loop.simps [of d r] split_loop_delim)
      qed
    qed
  qed (simp add: tokenize_loop.simps)
qed

text \<open>Decimal numbers print and parse back.\<close>

lemma dec_digits: "\<forall>c\<in>set (dec n). is_digit_in 10 c"
  by (simp add: dec_def to_base_digits)

lemma of_base_dec [simp]: "of_base 10 (dec n) = n"
  by (simp add: dec_def of_base_to_base)

lemma dec_nonempty [simp]: "dec n \<noteq> []"
  by (simp add: dec_def)

lemma digit10_plain:
  assumes "is_digit_in 10 c"
  shows "c \<noteq> CHR 0x00" "\<not> is_space c" "c \<noteq> CHR ''-''" "c \<noteq> CHR ''+''" "c \<noteq> CHR ''x''" "c \<noteq> CHR ''X''"
    "c \<noteq> CHR '':''" "c \<noteq> CHR '']''"
proof -
  have "is_digit_in 16 c" using assms by (simp add: is_digit_in_def)
  from digit_not_special [OF this] show "c \<noteq> CHR 0x00" "\<not> is_space c" "c \<noteq> CHR ''-''" "c \<noteq> CHR ''+''"
    "c \<noteq> CHR ''x''" "c \<noteq> CHR ''X''" .
  show "c \<noteq> CHR '':''" "c \<noteq> CHR '']''" using assms by (auto simp: is_digit_in_def digit_value_def)
qed

lemma dec_no_nul: "CHR 0x00 \<notin> set (dec n)"
  using dec_digits digit10_plain(1) by blast

lemma dec_int_no_nul: "CHR 0x00 \<notin> set (dec_int i)"
  using dec_no_nul by (auto simp: dec_int_def)

lemma strto_scan_dec: "strto_scan 10 (dec n) = (False, dec n, [])"
  by (rule strto_scan_digits) (simp_all add: dec_digits)

lemma strto_scan_neg: "strto_scan 10 (CHR ''-'' # dec n) = (True, dec n, [])"
proof -
  obtain c r where d: "dec n = c # r" using dec_nonempty by (meson list.exhaust)
  have c: "c_str (CHR ''-'' # dec n) = CHR ''-'' # dec n"
    using dec_no_nul by (intro c_str_id) auto
  have "\<not> is_space CHR ''-''" by (simp add: is_space_def)
  moreover have "skip_prefix 10 (dec n) = dec n" by (simp add: skip_prefix_def split: list.splits)
  moreover have "takeWhile (is_digit_in 10) (dec n) = dec n" "dropWhile (is_digit_in 10) (dec n) = []"
    using dec_digits by (simp_all add: takeWhile_eq_all_conv dropWhile_eq_Nil_conv)
  ultimately show ?thesis unfolding strto_scan_def c Let_def
    by (simp only: dropWhile.simps list.case simp_thms if_True if_False dec_nonempty)
qed

lemma dec_head: "\<exists>c r. dec n = c # r \<and> is_digit_in 10 c"
  using dec_nonempty [of n] dec_digits [of n] by (cases "dec n") auto

lemma number_base_dec: "number_base (dec n) = 10"
proof -
  obtain c r where d: "dec n = c # r" "\<forall>x\<in>set r. is_digit_in 10 x"
    using dec_nonempty [of n] dec_digits [of n] by (cases "dec n") auto
  then show ?thesis using digit10_plain(5,6) by (auto simp: number_base_def split: list.splits)
qed

lemma ParseInt_dec_int:
  assumes "mn \<le> i" "i \<le> mx" "- (2 ^ 63) \<le> i" "i < 2 ^ 63"
  shows "ParseInt (dec_int i) mn mx = Some i"
proof -
  have c: "c_str (dec_int i) = dec_int i" by (rule c_str_id [OF dec_int_no_nul])
  show ?thesis
  proof (cases "i < 0")
    case True
    then have "dropWhile is_space (dec_int i) = CHR ''-'' # dec (nat (- i))"
      by (simp add: dec_int_def is_space_def)
    moreover have "number_base (CHR ''-'' # dec (nat (- i))) = 10"
      by (auto simp: number_base_def split: list.splits)
    ultimately show ?thesis using True assms by (simp add: ParseInt_def c strto_scan_neg Let_def)
  next
    case False
    obtain d r where "dec (nat i) = d # r" "is_digit_in 10 d" using dec_head by blast
    then have "dropWhile is_space (dec (nat i)) = dec (nat i)" using digit10_plain(2) by simp
    with False c assms show ?thesis by (simp add: ParseInt_def dec_int_def strto_scan_dec number_base_dec Let_def)
  qed
qed

text \<open>Addresses.\<close>

lemma sscanf_d_dec_int:
  assumes "0 < p" "p \<le> 65535"
  shows "sscanf_d (dec_int p) = Some p"
proof -
  have "sint (word_of_int p :: 32 word) = p" using assms by (simp add: signed_of_int signed_take_bit_int_eq_self)
  with assms show ?thesis by (simp add: sscanf_d_def dec_int_def strto_scan_dec)
qed

lemma find_sub_bracket:
  "find_sub '']:'' h = None \<Longrightarrow> find_sub '']:'' (h @ '']:'' @ d) = Some (length h)"
proof (induction h)
  case (Cons c h)
  then show ?case by (cases h) (auto split: if_splits)
qed simp

lemma rfind_sub_none: "CHR '']'' \<notin> set d \<Longrightarrow> rfind_sub '']:'' d = None"
  by (induction d) auto

lemma rfind_sub_bracket:
  "CHR '']'' \<notin> set d \<Longrightarrow> rfind_sub '']:'' (h @ '']:'' @ d) = Some (length h)"
  by (induction h) (auto simp: rfind_sub_none)

lemma split_loop_hd: "hd (split_loop d s) = takeWhile (\<lambda>c. c \<notin> set d) s"
  by (subst split_loop.simps) (auto split: list.splits)

lemma net_finish_Inr:
  assumes "net_finish a p0 ipv6 host ps = Inr (h, port, canon)"
  shows "h = host" "host \<noteq> []"
    "canon = (if ipv6 then ''['' @ c_str host @ '']:'' @ dec_int port else c_str host @ '':'' @ dec_int port)"
  using assms by (auto simp: net_finish_def Let_def split: if_splits option.splits)

lemma ParseNetAddress_finish:
  assumes "ParseNetAddress a p0 = Inr r"
  obtains ipv6 h ps where "net_finish a p0 ipv6 h ps = Inr r"
    "ipv6 \<or> \<not> (a \<noteq> [] \<and> hd a = CHR ''['') \<and> h = takeWhile (\<lambda>c. c \<notin> set '':'') a"
proof -
  let ?br = "a \<noteq> [] \<and> hd a = CHR ''[''" and ?n = "count_list a CHR '':''"
  let ?v6 = "count_list a CHR ''.'' = 0 \<and> ?n \<ge> 2 \<and> ?n \<le> 7"
  obtain h t where sp: "split_loop '':'' a = h # t" by (meson split_loop_nonempty list.exhaust)
  then have h: "h = takeWhile (\<lambda>c. c \<notin> set '':'') a" using split_loop_hd [of "'':''" a] by simp
  note def = assms [unfolded ParseNetAddress_def Let_def sp list.case]
  consider (br) ?br | (v6) "\<not> ?br" ?v6 | (v4) "\<not> ?br" "\<not> ?v6" "?n \<le> 1" | (no) "\<not> ?br" "\<not> ?v6" "\<not> ?n \<le> 1" by blast
  then show ?thesis
  proof cases
    case br
    from def [unfolded if_P [OF this]] obtain i j where
      "net_finish a p0 True (take (i - 1) (drop 1 a)) (Some (drop (j + 2) a)) = Inr r"
      by (auto split: option.splits)
    then show ?thesis using that by blast
  next
    case v6
    from def [unfolded if_not_P [OF v6(1)] if_P [OF v6(2)]] show ?thesis using that by blast
  next
    case v4
    from def [unfolded if_not_P [OF v4(1)] if_not_P [OF v4(2)] if_P [OF v4(3)]] h v4(1) show ?thesis
      using that [of False h] by (cases t) auto
  next
    case no
    from def [unfolded if_not_P [OF no(1)] if_not_P [OF no(2)] if_not_P [OF no(3)]] show ?thesis using that by blast
  qed
qed

lemma dec_int_pos_plain: "0 < p \<Longrightarrow> CHR '']'' \<notin> set (dec_int p) \<and> CHR '':'' \<notin> set (dec_int p)"
  using dec_digits digit10_plain(7,8) by (auto simp: dec_int_def)

lemma ParseNetAddress_v6:
  assumes "0 < port" "port \<le> 65535" "host \<noteq> []" "find_sub '']:'' host = None" "CHR 0x00 \<notin> set host"
  shows "ParseNetAddress (''['' @ host @ '']:'' @ dec_int port) p0 = Inr (host, port, ''['' @ host @ '']:'' @ dec_int port)"
proof -
  let ?a = "''['' @ host @ '']:'' @ dec_int port"
  have f: "find_sub '']:'' (host @ '']:'' @ dec_int port) = Some (length host)"
    by (rule find_sub_bracket [OF assms(4)])
  have r: "rfind_sub '']:'' (host @ '']:'' @ dec_int port) = Some (length host)"
    using dec_int_pos_plain [OF assms(1)] by (intro rfind_sub_bracket) simp
  have "find_sub '']:'' ?a = Some (Suc (length host))" "rfind_sub '']:'' ?a = Some (Suc (length host))"
    using f r by simp_all
  then have "ParseNetAddress ?a p0 = net_finish ?a p0 True host (Some (dec_int port))"
    by (simp add: ParseNetAddress_def)
  then show ?thesis
    using assms by (simp add: net_finish_def sscanf_d_dec_int c_str_id)
qed

lemma count_list_none: "x \<notin> set xs \<Longrightarrow> count_list xs x = 0"
  by (induction xs) auto

lemma ParseNetAddress_v4:
  assumes "0 < port" "port \<le> 65535" "host \<noteq> []" "CHR '':'' \<notin> set host" "hd host \<noteq> CHR ''[''" "CHR 0x00 \<notin> set host"
  shows "ParseNetAddress (host @ '':'' @ dec_int port) p0 = Inr (host, port, host @ '':'' @ dec_int port)"
proof -
  let ?a = "host @ '':'' @ dec_int port"
  have d: "CHR '':'' \<notin> set (dec_int port)" using dec_int_pos_plain [OF assms(1)] by simp
  have c: "count_list ?a CHR '':'' = 1" using assms(4) d by (simp add: count_list_none)
  have "split_loop '':'' (Join [host, dec_int port] '':'') = [host, dec_int port]"
    using assms(4) d by (intro split_Join) auto
  then have sp: "split_loop '':'' ?a = [host, dec_int port]" by simp
  have hd: "?a \<noteq> []" "hd ?a \<noteq> CHR ''[''" using assms(3,5) by simp_all
  have "ParseNetAddress ?a p0 = net_finish ?a p0 False host (Some (dec_int port))"
    unfolding ParseNetAddress_def Let_def c sp using hd by simp
  then show ?thesis using assms by (simp add: net_finish_def sscanf_d_dec_int c_str_id)
qed

text \<open>Paths.\<close>

lemma back_while_stop: "\<not> P (s ! i) \<Longrightarrow> back_while P s i = i"
  by (cases i) auto

lemma back_while_skip:
  "k \<le> i \<Longrightarrow> (\<And>j. k < j \<Longrightarrow> j \<le> i \<Longrightarrow> P (s ! j)) \<Longrightarrow> back_while P s i = back_while P s k"
proof (induction i)
  case (Suc i)
  show ?case
  proof (cases "k = Suc i")
    case False
    with Suc.prems have "P (s ! Suc i)" by auto
    with Suc False show ?thesis by simp
  qed simp
qed simp

lemma back_while_to:
  assumes "k \<le> i" "\<And>j. k < j \<Longrightarrow> j \<le> i \<Longrightarrow> P (s ! j)" "\<not> P (s ! k)"
  shows "back_while P s i = k"
  using back_while_skip [of k i P s] back_while_stop [of P s k] assms by simp

lemma back_while_le: "back_while P s i \<le> i"
  by (induction P s i rule: back_while.induct) auto

lemma back_start_skip:
  "k \<le> i \<Longrightarrow> (\<And>j. k \<le> j \<Longrightarrow> j < i \<Longrightarrow> s ! j \<noteq> CHR ''/'') \<Longrightarrow> back_start s i = back_start s k"
proof (induction i)
  case (Suc i)
  show ?case
  proof (cases "k = Suc i")
    case False
    with Suc.prems have "s ! i \<noteq> CHR ''/''" by auto
    with Suc False show ?thesis by simp
  qed simp
qed simp

lemma Dirname_shorter:
  "Dirname p = ''.'' \<or> Dirname p = ''/'' \<or> length (Dirname p) < length p"
proof (cases "p = []")
  case False
  define e1 where "e1 = back_while (\<lambda>c. c = CHR ''/'') p (length p - 1)"
  define e2 where "e2 = back_while (\<lambda>c. c \<noteq> CHR ''/'') p e1"
  define e3 where "e3 = back_while (\<lambda>c. c = CHR ''/'') p (e2 - 1)"
  have le: "e1 \<le> length p - 1" "e2 \<le> e1" "e3 \<le> e2 - 1"
    unfolding e1_def e2_def e3_def by (rule back_while_le)+
  have "0 < length p" using False by simp
  with le have "e2 \<noteq> 0 \<Longrightarrow> e3 + 1 < length p" by linarith
  with False show ?thesis
    unfolding Dirname_def Let_def e1_def [symmetric] e2_def [symmetric] e3_def [symmetric] by auto
qed (simp add: Dirname_def)

section \<open>Properties\<close>

text \<open>Splitting at a character and joining with it are inverse: joining the pieces gives back
  the text, and splitting a joined non-empty list of pieces free of the character gives back the list.\<close>

lemma split_join_inverse:
  "Join (split_loop [c] s) [c] = s \<and>
   (ps \<noteq> [] \<and> (\<forall>p\<in>set ps. c \<notin> set p) \<longrightarrow> Split (Join ps [c]) [c] = Done ps)"
  by (simp add: Join_split split_Join Split_def)

text \<open>C31: the canonical address \<^verbatim>\<open>ParseNetAddress\<close> returns parses again to the same host, port and
  canonical address, for every host without a NUL and without the closing \<^verbatim>\<open>]:\<close> sequence, whatever
  port was preset.\<close>

theorem net_address_canonical:
  assumes "ParseNetAddress a p0 = Inr (host, port, canon)" "0 < port" "port \<le> 65535"
    and "CHR 0x00 \<notin> set host" "find_sub '']:'' host = None"
  shows "ParseNetAddress canon p1 = Inr (host, port, canon)"
proof -
  obtain ipv6 h ps where f: "net_finish a p0 ipv6 h ps = Inr (host, port, canon)"
      and v4: "ipv6 \<or> \<not> (a \<noteq> [] \<and> hd a = CHR ''['') \<and> h = takeWhile (\<lambda>c. c \<notin> set '':'') a"
    by (rule ParseNetAddress_finish [OF assms(1)])
  note host = net_finish_Inr [OF f]
  show ?thesis
  proof (cases ipv6)
    case True
    with host assms(4) show ?thesis using ParseNetAddress_v6 [OF assms(2,3) _ assms(5,4)] by (simp add: c_str_id)
  next
    case False
    then have h: "host = takeWhile (\<lambda>c. c \<notin> set '':'') a" "\<not> (a \<noteq> [] \<and> hd a = CHR ''['')"
      using v4 host(1) by simp_all
    have "CHR '':'' \<notin> set host" using h(1) set_takeWhileD [of "CHR '':''" _ a] by fastforce
    moreover have "hd host \<noteq> CHR ''[''" using h host(1,2) by (cases a) (simp_all split: if_splits)
    ultimately have "CHR '':'' \<notin> set host" "hd host \<noteq> CHR ''[''" .
    with False host assms(4) show ?thesis
      using ParseNetAddress_v4 [OF assms(2,3) _ _ _ assms(4)] by (simp add: c_str_id)
  qed
qed

theorem net_address_canonical_witness:
  "ParseNetAddress ''[::1]:7'' 0 = Inr (''::1'', 7, ''[::1]:7'')"
proof -
  have d: "dec_int 7 = ''7''" by code_simp
  have "ParseNetAddress ''::1'' 7 = Inr (''::1'', 7, ''[::1]:7'')"
    by (simp add: ParseNetAddress_def net_finish_def c_str_def d)
  from net_address_canonical [OF this, of 0] show ?thesis by simp
qed

text \<open>\<^verbatim>\<open>Dirname\<close> and \<^verbatim>\<open>Basename\<close> take a path \<open>d/b\<close> apart, for a non-empty \<open>d\<close> that does not end
  in a slash, a non-empty \<open>b\<close> without slashes, and any number of slashes between and after them.\<close>

lemma dirname_basename:
  assumes "d \<noteq> []" "last d \<noteq> CHR ''/''" "b \<noteq> []" "CHR ''/'' \<notin> set b" "length d < 4095" "length b < 4095"
  shows "Dirname (d @ replicate (Suc m) CHR ''/'' @ b @ replicate n CHR ''/'') = d
    \<and> Basename (d @ replicate (Suc m) CHR ''/'' @ b @ replicate n CHR ''/'') = b"
proof -
  define p where "p = d @ replicate (Suc m) CHR ''/'' @ b @ replicate n CHR ''/''"
  define i where "i = length d + Suc m"
  have len: "length p = i + length b + n" by (simp add: p_def i_def)
  have pb: "p ! j = b ! (j - i)" if "i \<le> j" "j < i + length b" for j
    using that by (auto simp: p_def i_def nth_append simp del: replicate_Suc)
  have ps: "p ! j = CHR ''/''" if "length d \<le> j \<and> j < i \<or> i + length b \<le> j \<and> j < length p" for j
    using that by (auto simp: p_def i_def nth_append simp del: replicate_Suc)
  have bslash: "p ! j \<noteq> CHR ''/''" if "i \<le> j" "j < i + length b" for j
  proof -
    have "j - i < length b" using that by linarith
    then have "b ! (j - i) \<in> set b" by (rule nth_mem)
    then show ?thesis using pb [OF that] assms(4) by metis
  qed
  have bl: "0 < length b" "0 < length d" using assms(1,3) by auto
  let ?last = "i + length b - 1"
  have e1: "back_while (\<lambda>c. c = CHR ''/'') p (length p - 1) = ?last"
  proof (rule back_while_to)
    show "p ! ?last \<noteq> CHR ''/''" using bl by (intro bslash) linarith+
    show "p ! j = CHR ''/''" if "?last < j" "j \<le> length p - 1" for j
      using that len bl by (intro ps) linarith
  qed (use len in linarith)
  have e2: "back_while (\<lambda>c. c \<noteq> CHR ''/'') p ?last = i - 1"
  proof (rule back_while_to)
    show "\<not> p ! (i - 1) \<noteq> CHR ''/''" using ps [of "i - 1"] by (simp add: i_def)
    show "p ! j \<noteq> CHR ''/''" if "i - 1 < j" "j \<le> ?last" for j
      using that bl by (intro bslash) linarith+
  qed (use bl in linarith)
  have "p ! (length d - 1) = last d" using bl by (simp add: p_def nth_append last_conv_nth)
  then have e3: "back_while (\<lambda>c. c = CHR ''/'') p (i - 1 - 1) = length d - 1"
  proof (intro back_while_to)
    show "p ! j = CHR ''/''" if "length d - 1 < j" "j \<le> i - 1 - 1" for j
    proof -
      have "length d \<le> j" "j < i" using that bl unfolding i_def by linarith+
      then show ?thesis by (intro ps) simp
    qed
  qed (use bl assms(2) in \<open>simp_all add: i_def\<close>)
  have "Dirname p = take (length d - 1 + 1) p"
    unfolding Dirname_def Let_def e1 e2 e3 using bl assms(5) by (simp add: PATH_MAX_def i_def p_def)
  moreover have st: "back_start p ?last = i"
  proof -
    have "back_start p ?last = back_start p i"
    proof (rule back_start_skip)
      show "p ! j \<noteq> CHR ''/''" if "i \<le> j" "j < ?last" for j using that by (intro bslash) linarith+
    qed (use bl in linarith)
    also have "\<dots> = i" using ps [of "i - 1"] by (simp add: i_def)
    finally show ?thesis .
  qed
  then have "Basename p = take (length b) (drop i p)"
    unfolding Basename_def Let_def e1 st using bl assms(6) by (simp add: PATH_MAX_def i_def p_def)
  ultimately show ?thesis using bl by (simp add: p_def i_def)
qed

end
