(* ===== verification/Adb_Utils.thy ===== *)
theory Adb_Utils
  imports Libbase Packet
begin

text \<open>
  \<^verbatim>\<open>adb/adb_utils.h\<close> and \<^verbatim>\<open>adb/adb_utils.cpp\<close>: shell quoting, directory creation, packet dumps,
  validation of forwarding targets, and text helpers of the packet handlers.
\<close>

section \<open>Shell quoting\<close>

text \<open>The loop of \<^verbatim>\<open>escape_arg\<close>, on the text from \<^verbatim>\<open>base\<close> on.\<close>

function escape_loop :: "string \<Rightarrow> string" where
  "escape_loop s =
     (case dropWhile (\<lambda>c. c \<noteq> CHR 0x27) s of
        [] \<Rightarrow> takeWhile (\<lambda>c. c \<noteq> CHR 0x27) s
      | _ # rest \<Rightarrow>
          takeWhile (\<lambda>c. c \<noteq> CHR 0x27) s @ [CHR 0x27, CHR 0x5C, CHR 0x27, CHR 0x27] @ escape_loop rest)"
  by pat_completeness auto
termination
proof (relation "measure length", goal_cases)
  case (2 s x rest)
  have "length (dropWhile (\<lambda>c. c \<noteq> CHR 0x27) s) \<le> length s" by (rule length_dropWhile_le)
  with 2 show ?case by simp
qed simp

declare escape_loop.simps [simp del]

definition escape_arg :: "string \<Rightarrow> string" where
  "escape_arg s = CHR 0x27 # escape_loop s @ [CHR 0x27]"

text \<open>
  What a POSIX shell makes of a word: quotes are removed, a backslash outside quotes takes the next
  character literally, and an unquoted blank or operator ends the word.  The result is the word and
  the text behind it.
\<close>

definition sh_plain :: "char \<Rightarrow> bool" where
  "sh_plain c \<longleftrightarrow> c \<notin> set '' ;&|<>()$`*?[#~=%{}!'' \<and> c \<noteq> CHR 0x22 \<and> c \<noteq> CHR 0x27 \<and> c \<noteq> CHR 0x5C
     \<and> c \<noteq> CHR 0x09 \<and> c \<noteq> CHR 0x0A \<and> c \<noteq> CHR 0x00"

fun sh_word :: "bool \<Rightarrow> string \<Rightarrow> (string \<times> string) option" where
  "sh_word False [] = Some ([], [])"
| "sh_word True [] = None"
| "sh_word True (c # s) =
     (if c = CHR 0x27 then sh_word False s
      else map_option (\<lambda>(w, r). (c # w, r)) (sh_word True s))"
| "sh_word False (c # s) =
     (if c = CHR 0x27 then sh_word True s
      else if c = CHR 0x5C then
        (case s of [] \<Rightarrow> None | d # s' \<Rightarrow> map_option (\<lambda>(w, r). (d # w, r)) (sh_word False s'))
      else if sh_plain c then map_option (\<lambda>(w, r). (c # w, r)) (sh_word False s)
      else Some ([], c # s))"

section \<open>Directories\<close>

text \<open>
  \<^verbatim>\<open>mkdirs\<close> over the file system operations it calls: \<open>is_dir\<close> is \<^verbatim>\<open>stat\<close> with \<^verbatim>\<open>S_ISDIR\<close>,
  \<open>mk\<close> is \<^verbatim>\<open>adb_mkdir\<close>, which returns whether it succeeded.
\<close>

definition path_depth :: "string \<Rightarrow> nat" where
  "path_depth p = (if p = ''.'' \<or> p = ''/'' then 0 else Suc (length p))"

lemma path_depth_Dirname: "Dirname p \<noteq> p \<Longrightarrow> path_depth (Dirname p) < path_depth p"
proof -
  assume "Dirname p \<noteq> p"
  moreover have "Dirname ''.'' = ''.''" "Dirname ''/'' = ''/''" by (simp_all add: Dirname_def)
  ultimately show ?thesis using Dirname_shorter [of p] by (auto simp: path_depth_def)
qed

function mkdirs :: "('fs \<Rightarrow> string \<Rightarrow> bool) \<Rightarrow> ('fs \<Rightarrow> string \<Rightarrow> bool \<times> 'fs) \<Rightarrow> 'fs \<Rightarrow> string \<Rightarrow> bool \<times> 'fs" where
  "mkdirs is_dir mk fs path =
     (if is_dir fs path then (True, fs)
      else if Dirname path = path then (False, fs)
      else (case mkdirs is_dir mk fs (Dirname path) of
              (False, fs1) \<Rightarrow> (False, fs1)
            | (True, fs1) \<Rightarrow>
                (case mk fs1 path of
                   (True, fs2) \<Rightarrow> (True, fs2)
                 | (False, fs2) \<Rightarrow> (is_dir fs2 path, fs2))))"
  by pat_completeness auto

termination
  by (relation "measure (\<lambda>(d, m, fs, p). path_depth p)") (auto simp: path_depth_Dirname)

declare mkdirs.simps [simp del]

section \<open>Dumps\<close>

definition is_print :: "char \<Rightarrow> bool" where
  "is_print c \<longleftrightarrow> 32 \<le> (of_char c :: nat) \<and> (of_char c :: nat) < 127"

definition dump_hex :: "string \<Rightarrow> string" where
  "dump_hex bytes =
     (let truncated = length bytes > 16; p = (if truncated then take 16 bytes else bytes) in
      concat (map (\<lambda>c. pad0 2 (to_base 16 (of_char c))) p) @ '' '' @ map (\<lambda>c. if is_print c then c else CHR ''.'') p
      @ (if truncated then '' [truncated]'' else []))"

text \<open>\<^verbatim>\<open>%d\<close> of a 32-bit value, and the two forms of an argument.\<close>

definition fmt_d :: "u32 \<Rightarrow> string" where
  "fmt_d w = dec_int (sint w)"

definition fmt_arg :: "u32 \<Rightarrow> string" where
  "fmt_arg w = (if w < 256 then fmt_d w else ''0x'' @ to_base 16 (unat w))"

definition dump_header :: "amessage \<Rightarrow> string" where
  "dump_header m =
     (let bytes = map (\<lambda>n. unat (drop_bit (n * 8) (m_command m) AND 255)) [0, 1, 2, 3];
          cmd = (if list_all (\<lambda>b. \<not> (b < 32 \<or> b \<ge> 127)) bytes then map char_of bytes
                 else pad0 8 (to_base 16 (unat (m_command m))))
      in ''['' @ cmd @ ''] arg0='' @ fmt_arg (m_arg0 m) @ '' arg1='' @ fmt_arg (m_arg1 m)
         @ '' (len='' @ fmt_d (m_data_length m) @ '') '')"

definition dump_packet :: "string \<Rightarrow> string \<Rightarrow> apacket \<Rightarrow> string" where
  "dump_packet name func p = name @ '': '' @ func @ '': '' @ dump_header (p_msg p) @ dump_hex (p_payload p)"

section \<open>Forwarding targets and text helpers\<close>

text \<open>The error text, if the targets are not valid.\<close>

definition forward_targets_are_valid :: "string \<Rightarrow> string \<Rightarrow> string option" where
  "forward_targets_are_valid source dest =
     (if StartsWith source ''tcp:'' \<and>
         (case ParseInt (drop 4 source) INT_MIN INT_MAX of None \<Rightarrow> True | Some port \<Rightarrow> port < 0)
      then Some (''Invalid source port: '' @ quoted (c_str (drop 4 source)))
      else if StartsWith dest ''tcp:'' \<and>
         (case ParseInt (drop 4 dest) INT_MIN INT_MAX of None \<Rightarrow> True | Some port \<Rightarrow> port \<le> 0)
      then Some (''Invalid destination port: '' @ quoted (c_str (drop 4 dest)))
      else None)"

definition StripTrailingNulls :: "string \<Rightarrow> string" where
  "StripTrailingNulls s = take (length s - length (takeWhile (\<lambda>c. c = CHR 0x00) (rev s))) s"

text \<open>
  \<^verbatim>\<open>ParseUint\<close> on a view, through \<^verbatim>\<open>std::from_chars\<close>: decimal digits, a value below the given limit,
  and the text behind them.  Without a place for the remaining text it must be empty.
\<close>

definition ParseUint_view :: "nat \<Rightarrow> string \<Rightarrow> (nat \<times> string) option" where
  "ParseUint_view limit s =
     (let ds = takeWhile (is_digit_in 10) s in
      if ds = [] \<or> of_base 10 ds \<ge> limit then None else Some (of_base 10 ds, drop (length ds) s))"

definition ParseUint_all :: "nat \<Rightarrow> string \<Rightarrow> nat option" where
  "ParseUint_all limit s = (case ParseUint_view limit s of Some (v, []) \<Rightarrow> Some v | _ \<Rightarrow> None)"

section \<open>Lemmas and properties\<close>

lemma sh_word_quoted_run:
  "CHR 0x27 \<notin> set p \<Longrightarrow> sh_word True (p @ s) = map_option (\<lambda>(w, r). (p @ w, r)) (sh_word True s)"
proof (induction p)
  case Nil
  then show ?case by (cases "sh_word True s") auto
next
  case (Cons c p)
  then show ?case by (cases "sh_word True s") (auto split: prod.splits)
qed

lemma sh_word_escape_loop:
  "sh_word True (escape_loop s @ CHR 0x27 # rest) = map_option (\<lambda>(w, r). (s @ w, r)) (sh_word False rest)"
proof (induction s rule: escape_loop.induct)
  case (1 s)
  let ?p = "takeWhile (\<lambda>c. c \<noteq> CHR 0x27) s"
  have p: "CHR 0x27 \<notin> set ?p" by (auto dest: set_takeWhileD)
  show ?case
  proof (cases "dropWhile (\<lambda>c. c \<noteq> CHR 0x27) s")
    case Nil
    then have ps: "?p = s" by (metis append_Nil2 takeWhile_dropWhile_id)
    have "escape_loop s = s" unfolding escape_loop.simps [of s] Nil ps by simp
    moreover have "CHR 0x27 \<notin> set s" using p ps by simp
    ultimately show ?thesis using sh_word_quoted_run [of s "CHR 0x27 # rest"] by simp
  next
    case (Cons q t)
    have q: "q = CHR 0x27" using Cons by (metis (full_types) hd_dropWhile list.distinct(1) list.sel(1))
    have s: "s = ?p @ CHR 0x27 # t" using Cons q by (metis takeWhile_dropWhile_id)
    have "escape_loop s = ?p @ [CHR 0x27, CHR 0x5C, CHR 0x27, CHR 0x27] @ escape_loop t"
      using Cons by (simp add: escape_loop.simps [of s])
    then have "sh_word True (escape_loop s @ CHR 0x27 # rest)
        = map_option (\<lambda>(w, r). (?p @ CHR 0x27 # w, r)) (sh_word True (escape_loop t @ CHR 0x27 # rest))"
      using sh_word_quoted_run [OF p] by (auto simp: option.map_comp comp_def prod.case_distrib split: option.splits)
    also have "\<dots> = map_option (\<lambda>(w, r). ((?p @ CHR 0x27 # t) @ w, r)) (sh_word False rest)"
      unfolding "1.IH" [OF Cons] by (cases "sh_word False rest") auto
    finally show ?thesis using s by metis
  qed
qed

text \<open>C30: \<^verbatim>\<open>escape_arg\<close> quotes correctly: a shell reads the result followed by the end of the line or
  by a blank as exactly one word, and the word is the argument, whatever characters it has.\<close>

theorem escape_arg_one_word:
  "sh_word False (escape_arg s) = Some (s, []) \<and>
   sh_word False (escape_arg s @ CHR '' '' # rest) = Some (s, CHR '' '' # rest)"
  using sh_word_escape_loop [of s "[]"] sh_word_escape_loop [of s "CHR '' '' # rest"]
  by (simp add: escape_arg_def sh_plain_def)

text \<open>\<^verbatim>\<open>mkdirs\<close> always ends, and when it returns true the path is a directory, provided that a
  successful \<^verbatim>\<open>mkdir\<close> makes its path a directory.\<close>

lemma mkdirs_ok:
  assumes "\<And>fs p fs'. mk fs p = (True, fs') \<Longrightarrow> is_dir fs' p"
    and "mkdirs is_dir mk fs path = (True, fs')"
  shows "is_dir fs' path"
proof -
  consider "is_dir fs path" "fs' = fs" | fs1 where "mk fs1 path = (True, fs')" | "is_dir fs' path"
    using assms(2) mkdirs.simps [of is_dir mk fs path]
    by (auto split: if_splits prod.splits bool.splits)
  then show ?thesis using assms(1) by cases auto
qed

lemma forward_source_port:
  "0 \<le> p \<Longrightarrow> p \<le> INT_MAX \<Longrightarrow> ParseInt (dec_int p) INT_MIN INT_MAX = Some p"
  by (rule ParseInt_dec_int) (auto simp: INT_MIN_def INT_MAX_def)

text \<open>Forwarding targets: \<^verbatim>\<open>tcp:\<close> with a decimal port is accepted exactly when the source port is
  not negative and the destination port is positive.\<close>

lemma forward_targets_tcp:
  assumes "INT_MIN \<le> sp" "sp \<le> INT_MAX" "INT_MIN \<le> dp" "dp \<le> INT_MAX"
  shows "forward_targets_are_valid (''tcp:'' @ dec_int sp) (''tcp:'' @ dec_int dp) = None \<longleftrightarrow> 0 \<le> sp \<and> 0 < dp"
proof -
  have "ParseInt (dec_int sp) INT_MIN INT_MAX = Some sp" "ParseInt (dec_int dp) INT_MIN INT_MAX = Some dp"
    using assms by (auto intro!: ParseInt_dec_int simp: INT_MIN_def INT_MAX_def)
  then show ?thesis by (auto simp: forward_targets_are_valid_def StartsWith_def)
qed

end
