(* ===== verification/Transport.thy ===== *)
theory Transport
  imports Adb_Utils "HOL-Library.AList" "HOL-Library.Char_ord" "HOL-Library.List_Lexorder"
    "HOL-Library.Product_Lexorder" "HOL-Library.Multiset"
begin

text \<open>
  Transports (\<^verbatim>\<open>adb/transport.h\<close>, \<^verbatim>\<open>adb/transport.cpp\<close>): the state of one connection to a device,
  feature negotiation, target matching, the choice of a transport for a client, the list of
  devices, and the allow-list of reverse forwards.  What the connection object below a transport
  does is recorded in the transport: the packets it was given and whether it was told to stop.
\<close>

section \<open>Data\<close>

datatype transport_type = kTransportUsb | kTransportLocal | kTransportAny | kTransportHost

datatype connection_state =
    kCsAny | kCsConnecting | kCsAuthorizing | kCsUnauthorized | kCsNoPerm | kCsDetached | kCsOffline
  | kCsBootloader | kCsDevice | kCsHost | kCsRecovery | kCsSideload | kCsRescue

primrec type_rank :: "transport_type \<Rightarrow> nat" where
  "type_rank kTransportUsb = 0"
| "type_rank kTransportLocal = 1"
| "type_rank kTransportAny = 2"
| "type_rank kTransportHost = 3"

definition ConnectionStateIsOnline :: "connection_state \<Rightarrow> bool" where
  "ConnectionStateIsOnline s \<longleftrightarrow>
     s \<in> {kCsBootloader, kCsDevice, kCsHost, kCsRecovery, kCsSideload, kCsRescue}"

text \<open>
  What comes from outside: environment variables, and the help texts on USB permissions.
\<close>

record env =
  ADB_VENDOR_KEYS :: "string option"
  UsbNoPermissionsShortHelpText :: string
  UsbNoPermissionsLongHelpText :: string
  delayed_ack_enabled :: bool

definition state_to_string :: "env \<Rightarrow> connection_state \<Rightarrow> string" where
  "state_to_string e s =
     (case s of
        kCsOffline \<Rightarrow> ''offline''
      | kCsBootloader \<Rightarrow> ''bootloader''
      | kCsDevice \<Rightarrow> ''device''
      | kCsHost \<Rightarrow> ''host''
      | kCsRecovery \<Rightarrow> ''recovery''
      | kCsRescue \<Rightarrow> ''rescue''
      | kCsNoPerm \<Rightarrow> UsbNoPermissionsShortHelpText e
      | kCsSideload \<Rightarrow> ''sideload''
      | kCsUnauthorized \<Rightarrow> ''unauthorized''
      | kCsAuthorizing \<Rightarrow> ''authorizing''
      | kCsConnecting \<Rightarrow> ''connecting''
      | kCsDetached \<Rightarrow> ''detached''
      | kCsAny \<Rightarrow> ''unknown'')"

text \<open>\<^verbatim>\<open>ConnectionWaitable\<close>: the two flags under its mutex.\<close>

record waitable =
  established_ready :: bool
  established :: bool

definition waitable_set :: "waitable \<Rightarrow> bool \<Rightarrow> waitable" where
  "waitable_set w success =
     (if established_ready w then w else w\<lparr>established_ready := True, established := success\<rparr>)"

text \<open>What \<^verbatim>\<open>WaitForConnection\<close> returns once the wait is over, by notification or timeout.\<close>

definition waitable_result :: "waitable \<Rightarrow> bool" where
  "waitable_result w \<longleftrightarrow> established_ready w \<and> established w"

text \<open>
  \<open>t_accepts\<close> is whether \<^verbatim>\<open>Connection::Write\<close> takes packets, \<open>t_sent\<close> the packets it took, and
  \<open>t_started\<close> and \<open>t_stopped\<close> whether \<^verbatim>\<open>Connection::Start\<close> was called and then \<^verbatim>\<open>Stop\<close> or \<^verbatim>\<open>Reset\<close>;
  \<open>t_emulator_port\<close> is the port of an \<^verbatim>\<open>EmulatorConnection\<close>, \<open>t_reconnect\<close> the address of the reconnect
  callback, \<open>None\<close> for the one that gives up.  Keys and disconnect callbacks
  are names.
\<close>

record atransport =
  t_id :: nat
  t_online :: bool
  t_type :: transport_type
  t_serial :: string
  t_product :: string
  t_model :: string
  t_device :: string
  t_devpath :: string
  t_use_tls :: bool
  t_tls_version :: u32
  t_failed_auth_attempts :: nat
  t_kicked :: bool
  t_features :: "string list"
  t_protocol_version :: int
  t_max_payload :: nat
  t_disconnects :: "nat list"
  t_state :: connection_state
  t_keys :: "nat list"
  t_waitable :: waitable
  t_delayed_ack :: bool
  t_reverse_forwards :: "(string \<times> string) list"
  t_accepts :: bool
  t_sent :: "apacket list"
  t_started :: bool
  t_stopped :: bool
  t_emulator_port :: "int option"
  t_reconnect :: "string option"

definition new_atransport :: "nat \<Rightarrow> connection_state \<Rightarrow> atransport" where
  "new_atransport i st =
     \<lparr>t_id = i, t_online = False, t_type = kTransportAny, t_serial = [], t_product = [], t_model = [],
      t_device = [], t_devpath = [], t_use_tls = False, t_tls_version = A_STLS_VERSION,
      t_failed_auth_attempts = 0, t_kicked = False, t_features = [], t_protocol_version = A_VERSION_MIN,
      t_max_payload = MAX_PAYLOAD, t_disconnects = [], t_state = st, t_keys = [],
      t_waitable = \<lparr>established_ready = False, established = False\<rparr>, t_delayed_ack = False,
      t_reverse_forwards = [], t_accepts = True, t_sent = [], t_started = False, t_stopped = False,
      t_emulator_port = None, t_reconnect = None\<rparr>"

definition IsTcpDevice :: "atransport \<Rightarrow> bool" where
  "IsTcpDevice t \<longleftrightarrow> t_type t = kTransportLocal"

definition serial_name :: "atransport \<Rightarrow> string" where
  "serial_name t = (if t_serial t \<noteq> [] then t_serial t else ''<unknown>'')"

section \<open>Connection\<close>

text \<open>\<^verbatim>\<open>Write\<close>, \<^verbatim>\<open>Kick\<close> and \<^verbatim>\<open>Reset\<close>; \<open>transport_Write\<close> gives whether it returned 0.\<close>

definition transport_Write :: "atransport \<Rightarrow> apacket \<Rightarrow> bool \<times> atransport" where
  "transport_Write t p = (if t_accepts t then (True, t\<lparr>t_sent := t_sent t @ [p]\<rparr>) else (False, t))"

text \<open>Stopping, or resetting, a connection does nothing before it is started.\<close>

definition connection_Stop :: "atransport \<Rightarrow> atransport" where
  "connection_Stop t = (if t_started t then t\<lparr>t_stopped := True\<rparr> else t)"

definition transport_Kick :: "atransport \<Rightarrow> atransport" where
  "transport_Kick t = (if \<not> t_kicked t then connection_Stop (t\<lparr>t_kicked := True\<rparr>) else t)"

definition transport_Reset :: "atransport \<Rightarrow> atransport" where
  "transport_Reset t = (if \<not> t_kicked t then connection_Stop (t\<lparr>t_kicked := True\<rparr>) else t)"

text \<open>\<^verbatim>\<open>send_packet\<close>.\<close>

definition send_packet_on :: "apacket \<Rightarrow> atransport \<Rightarrow> atransport run" where
  "send_packet_on p t =
     bindR (seal_packet (t_protocol_version t) p) (\<lambda>p.
       case transport_Write t p of (ok, t) \<Rightarrow> Done (if \<not> ok then transport_Kick t else t))"

definition update_version :: "int \<Rightarrow> nat \<Rightarrow> atransport \<Rightarrow> atransport" where
  "update_version version payload t =
     t\<lparr>t_protocol_version := min version A_VERSION, t_max_payload := min payload MAX_PAYLOAD\<rparr>"

definition SetConnectionEstablished :: "bool \<Rightarrow> atransport \<Rightarrow> atransport" where
  "SetConnectionEstablished success t = t\<lparr>t_waitable := waitable_set (t_waitable t) success\<rparr>"

section \<open>Keys\<close>

definition transport_Key :: "atransport \<Rightarrow> nat option" where
  "transport_Key t = (case t_keys t of [] \<Rightarrow> None | k # _ \<Rightarrow> Some k)"

text \<open>\<open>all_keys\<close> is \<^verbatim>\<open>adb_auth_get_private_keys()\<close>.\<close>

definition NextKey :: "nat list \<Rightarrow> atransport \<Rightarrow> (nat option \<times> atransport) run" where
  "NextKey all_keys t =
     (if t_keys t = []
      then bindR (checkR (all_keys \<noteq> [])) (\<lambda>_. let t = t\<lparr>t_keys := all_keys\<rparr> in Done (transport_Key t, t))
      else (let t = t\<lparr>t_keys := tl (t_keys t)\<rparr> in Done (transport_Key t, t)))"

definition ResetKeys :: "atransport \<Rightarrow> atransport" where
  "ResetKeys t = t\<lparr>t_keys := []\<rparr>"

section \<open>Features\<close>

definition supported_features :: "env \<Rightarrow> string list" where
  "supported_features e =
     [''shell_v2'', ''cmd'', ''stat_v2'', ''ls_v2'', ''fixed_push_mkdir'', ''apex'', ''abb'',
      ''fixed_push_symlink_timestamp'', ''abb_exec'', ''remount_shell'', ''track_app'', ''sendrecv_v2'',
      ''sendrecv_v2_brotli'', ''sendrecv_v2_lz4'', ''sendrecv_v2_zstd'', ''sendrecv_v2_dry_run_send'',
      ''openscreen_mdns'', ''devicetracker_proto_format'', ''devraw'', ''app_info'', ''server_status'']
     @ (if delayed_ack_enabled e then [''delayed_ack''] else [])"

definition FeatureSetToString :: "string list \<Rightarrow> string" where
  "FeatureSetToString fs = Join fs '',''"

definition StringToFeatureSet :: "string \<Rightarrow> string list" where
  "StringToFeatureSet s = (if s = [] then [] else split_loop '','' s)"

definition CanUseFeature :: "env \<Rightarrow> string list \<Rightarrow> string \<Rightarrow> bool" where
  "CanUseFeature e fs f \<longleftrightarrow> f \<in> set fs \<and> f \<in> set (supported_features e)"

definition has_feature :: "atransport \<Rightarrow> string \<Rightarrow> bool" where
  "has_feature t f \<longleftrightarrow> f \<in> set (t_features t)"

definition SetFeatures :: "env \<Rightarrow> string \<Rightarrow> atransport \<Rightarrow> atransport" where
  "SetFeatures e s t =
     (let fs = StringToFeatureSet s in
      t\<lparr>t_features := fs, t_delayed_ack := CanUseFeature e fs ''delayed_ack''\<rparr>)"

section \<open>Target matching\<close>

definition is_alnum :: "char \<Rightarrow> bool" where
  "is_alnum c \<longleftrightarrow> digit_value c < 36"

text \<open>
  \<^verbatim>\<open>qual_match\<close>: the walk over the C string of \<open>to_test\<close> stops at its NUL, which no character of
  \<^verbatim>\<open>prefix\<close> equals; a NUL inside \<open>qual\<close> (unless sanitised) does equal it and steps past the end.
\<close>

fun match_run :: "string \<Rightarrow> string \<Rightarrow> string option run" where
  "match_run [] ptr = Done (Some ptr)"
| "match_run (c # cs) ptr =
     (case ptr of
        [] \<Rightarrow> if c = CHR 0x00 then Stop OutOfRange else Done None
      | d # ptr' \<Rightarrow> if c \<noteq> d then Done None else match_run cs ptr')"

definition qual_match :: "string \<Rightarrow> string \<Rightarrow> string \<Rightarrow> bool \<Rightarrow> bool run" where
  "qual_match to_test pref qual sanitize_qual =
     (if to_test = [] then Done (qual = [])
      else if qual = [] then Done False
      else bindR (match_run pref (c_str to_test)) (\<lambda>r.
        case r of
          None \<Rightarrow> Done False
        | Some ptr \<Rightarrow>
            bindR (match_run (map (\<lambda>ch. if sanitize_qual \<and> \<not> is_alnum ch then CHR ''_'' else ch) qual) ptr) (\<lambda>r.
              Done (r = Some []))))"

definition or_run :: "bool run \<Rightarrow> bool run \<Rightarrow> bool run" where
  "or_run a b = bindR a (\<lambda>x. if x then Done True else b)"

definition MatchesTarget :: "atransport \<Rightarrow> string \<Rightarrow> bool run" where
  "MatchesTarget t target =
     (if t_serial t \<noteq> [] \<and>
         (target = t_serial t \<or>
          (t_type t = kTransportLocal \<and>
           (let local_target = (if StartsWith target ''tcp:'' \<or> StartsWith target ''udp:''
                                then drop 4 (c_str target) else c_str target)
            in case ParseNetAddress (t_serial t) (- 1) of
                 Inl _ \<Rightarrow> False
               | Inr (serial_host, serial_port, _) \<Rightarrow>
                   (case ParseNetAddress local_target serial_port of
                      Inl _ \<Rightarrow> False
                    | Inr (target_host, target_port, _) \<Rightarrow>
                        serial_host = target_host \<and> serial_port = target_port))))
      then Done True
      else or_run (Done (target = t_devpath t))
          (or_run (qual_match target ''product:'' (t_product t) False)
          (or_run (qual_match target ''model:'' (t_model t) True)
                  (qual_match target ''device:'' (t_device t) False))))"

section \<open>Choosing a transport\<close>

text \<open>
  The loop of \<^verbatim>\<open>acquire_one_transport\<close> over \<^verbatim>\<open>transport_list\<close>, given as references with their
  objects.  The state is the result so far, the error text and the ambiguity flag.
\<close>

definition type_matches :: "transport_type \<Rightarrow> atransport \<Rightarrow> bool" where
  "type_matches type t \<longleftrightarrow>
     (type = kTransportUsb \<and> t_type t = kTransportUsb) \<or>
     (type = kTransportLocal \<and> t_type t = kTransportLocal) \<or>
     type = kTransportAny"

definition ambiguous_error :: "transport_type \<Rightarrow> string" where
  "ambiguous_error type =
     (if type = kTransportUsb then ''more than one USB device''
      else if type = kTransportLocal then ''more than one emulator''
      else ''more than one device/emulator'')"

fun acquire_loop ::
    "env \<Rightarrow> transport_type \<Rightarrow> string option \<Rightarrow> nat \<Rightarrow> (nat \<times> atransport) list \<Rightarrow> (nat \<times> atransport) option \<Rightarrow> string
     \<Rightarrow> ((nat \<times> atransport) option \<times> string \<times> bool) run" where
  "acquire_loop e type serial tid [] result err = Done (result, err, False)"
| "acquire_loop e type serial tid ((r, t) # ts) result err =
     (if t_state t = kCsNoPerm then acquire_loop e type serial tid ts result (UsbNoPermissionsLongHelpText e)
      else if tid \<noteq> 0 then
        (if t_id t = tid then Done (Some (r, t), err, False)
         else acquire_loop e type serial tid ts result err)
      else (case serial of
         Some sn \<Rightarrow>
           bindR (MatchesTarget t sn) (\<lambda>m.
             if m then
               (if result \<noteq> None then Done (None, ''more than one device with serial '' @ sn, True)
                else acquire_loop e type serial tid ts (Some (r, t)) err)
             else acquire_loop e type serial tid ts result err)
       | None \<Rightarrow>
           if type_matches type t then
             (if result \<noteq> None then Done (None, ambiguous_error type, True)
              else acquire_loop e type serial tid ts (Some (r, t)) err)
           else acquire_loop e type serial tid ts result err))"

definition initial_error :: "transport_type \<Rightarrow> string option \<Rightarrow> nat \<Rightarrow> string" where
  "initial_error type serial tid =
     (if tid \<noteq> 0 then ''no device with transport id '' @ quoted (dec tid)
      else (case serial of
         Some sn \<Rightarrow> ''device '' @ quoted sn @ '' not found''
       | None \<Rightarrow>
           if type = kTransportLocal then ''no emulators found''
           else if type = kTransportAny then ''no devices/emulators found''
           else ''no devices found''))"

definition unauthorized_error :: "env \<Rightarrow> string" where
  "unauthorized_error e =
     ''device unauthorized.'' @ [CHR 0x0A] @ ''This adb server'' @ [CHR 0x27] @ ''s $ADB_VENDOR_KEYS is ''
     @ (case ADB_VENDOR_KEYS e of Some k \<Rightarrow> k | None \<Rightarrow> ''not set'') @ [CHR 0x0A]
     @ ''Try '' @ quoted ''adb kill-server'' @ '' if that seems wrong.'' @ [CHR 0x0A]
     @ ''Otherwise check for a confirmation dialog on your device.''"

definition state_error :: "env \<Rightarrow> connection_state \<Rightarrow> string option" where
  "state_error e st =
     (case st of
        kCsConnecting \<Rightarrow> Some ''device still connecting''
      | kCsAuthorizing \<Rightarrow> Some ''device still authorizing''
      | kCsUnauthorized \<Rightarrow> Some (unauthorized_error e)
      | kCsOffline \<Rightarrow> Some ''device offline''
      | _ \<Rightarrow> None)"

text \<open>The chosen transport, the error text and the ambiguity flag.\<close>

definition acquire_one_transport ::
    "env \<Rightarrow> (nat \<times> atransport) list \<Rightarrow> transport_type \<Rightarrow> string option \<Rightarrow> nat \<Rightarrow> bool
     \<Rightarrow> (nat option \<times> string \<times> bool) run" where
  "acquire_one_transport e ts type serial tid accept_any_state =
     bindR (acquire_loop e type serial tid ts None (initial_error type serial tid)) (\<lambda>(result, err, amb).
       Done (case result of
               None \<Rightarrow> (None, err, amb)
             | Some (r, t) \<Rightarrow>
                 (case (if accept_any_state then None else state_error e (t_state t)) of
                    Some err \<Rightarrow> (None, err, amb)
                  | None \<Rightarrow> (Some r, ''success'', amb))))"

definition find_transport :: "(nat \<times> atransport) list \<Rightarrow> string \<Rightarrow> nat option" where
  "find_transport ts serial = map_option fst (find (\<lambda>(r, t). c_str serial = c_str (t_serial t)) ts)"

section \<open>The device list\<close>

datatype tracker_output = SHORT_TEXT | LONG_TEXT | PROTOBUF | TEXT_PROTOBUF

definition sanitize :: "string \<Rightarrow> bool \<Rightarrow> string" where
  "sanitize s alphanumeric =
     map (\<lambda>c. if (if alphanumeric then \<not> is_alnum c else c = CHR 0x0A) then CHR ''_'' else c) s"

definition append_transport_info :: "string \<Rightarrow> string \<Rightarrow> string \<Rightarrow> bool \<Rightarrow> string" where
  "append_transport_info result key v alphanumeric =
     (if v = [] then result else result @ '' '' @ key @ sanitize v alphanumeric)"

text \<open>\<^verbatim>\<open>%-22s\<close>\<close>

definition pad_right :: "nat \<Rightarrow> string \<Rightarrow> string" where
  "pad_right w s = s @ replicate (w - length s) CHR '' ''"

definition append_transport :: "env \<Rightarrow> atransport \<Rightarrow> string \<Rightarrow> bool \<Rightarrow> string" where
  "append_transport e t result long_listing =
     (let serial = (if t_serial t = [] then ''(no serial number)'' else t_serial t);
          r1 = (if \<not> long_listing then result @ serial @ [CHR 0x09] @ state_to_string e (t_state t)
                else (let r = result @ pad_right 22 (c_str serial) @ '' '' @ c_str (state_to_string e (t_state t));
                          r = append_transport_info r [] (t_devpath t) False;
                          r = append_transport_info r ''product:'' (t_product t) False;
                          r = append_transport_info r ''model:'' (t_model t) True;
                          r = append_transport_info r ''device:'' (t_device t) False
                      in r @ '' transport_id:'' @ dec (t_id t)))
      in r1 @ [CHR 0x0A])"

definition transportListToText :: "env \<Rightarrow> atransport list \<Rightarrow> bool \<Rightarrow> string" where
  "transportListToText e ts long_listing = foldl (\<lambda>r t. append_transport e t r long_listing) [] ts"

definition sort_transports :: "atransport list \<Rightarrow> atransport list" where
  "sort_transports ts = sort_key (\<lambda>t. (type_rank (t_type t), t_serial t)) ts"

text \<open>The protobuf encoders are generated code, given by \<open>to_proto\<close>.\<close>

definition list_transports :: "env \<Rightarrow> (atransport list \<Rightarrow> bool \<Rightarrow> string) \<Rightarrow> atransport list \<Rightarrow> tracker_output \<Rightarrow> string" where
  "list_transports e to_proto ts out =
     (let sorted = sort_transports ts in
      case out of
        SHORT_TEXT \<Rightarrow> transportListToText e sorted False
      | LONG_TEXT \<Rightarrow> transportListToText e sorted True
      | PROTOBUF \<Rightarrow> to_proto sorted False
      | TEXT_PROTOBUF \<Rightarrow> to_proto sorted True)"

section \<open>Reverse forwards\<close>

text \<open>\<^verbatim>\<open>reverse_forwards_\<close> as an association list with one entry for a key.\<close>

definition split_at_char :: "char \<Rightarrow> string \<Rightarrow> (string \<times> string) option" where
  "split_at_char c s =
     (case dropWhile (\<lambda>x. x \<noteq> c) s of [] \<Rightarrow> None | _ # r \<Rightarrow> Some (takeWhile (\<lambda>x. x \<noteq> c) s, r))"

definition UpdateReverseConfig :: "string \<Rightarrow> atransport \<Rightarrow> atransport run" where
  "UpdateReverseConfig service_addr t =
     (let rf = t_reverse_forwards t in
      case ConsumePrefix service_addr ''reverse:'' of
        None \<Rightarrow> Done t
      | Some a \<Rightarrow>
          (case ConsumePrefix a ''forward:'' of
             Some b \<Rightarrow>
               (let (norebind, b) = (case ConsumePrefix b ''norebind:'' of Some b' \<Rightarrow> (True, b') | None \<Rightarrow> (False, b)) in
                case split_at_char CHR '';'' b of
                  None \<Rightarrow> Done t
                | Some (remote, local) \<Rightarrow>
                    if norebind \<and> map_of rf remote \<noteq> None then Done t
                    else Done (t\<lparr>t_reverse_forwards := AList.update remote local rf\<rparr>))
           | None \<Rightarrow>
               (case ConsumePrefix a ''killforward:'' of
                  Some b \<Rightarrow>
                    (if split_at_char CHR '';'' b \<noteq> None then Done t
                     else Done (t\<lparr>t_reverse_forwards := AList.delete b rf\<rparr>))
                | None \<Rightarrow>
                    if a = ''killforward-all'' then Done (t\<lparr>t_reverse_forwards := []\<rparr>)
                    else if a = ''list-forward'' then Done t
                    else Stop LogFatal)))"

definition IsReverseConfigured :: "string \<Rightarrow> atransport \<Rightarrow> bool" where
  "IsReverseConfigured local_addr t = list_ex (\<lambda>(remote, local). local = local_addr) (t_reverse_forwards t)"

section \<open>Lemmas\<close>

text \<open>Whether the loop without a transport id takes a transport as a candidate.\<close>

definition wanted :: "transport_type \<Rightarrow> string option \<Rightarrow> atransport \<Rightarrow> bool run" where
  "wanted type serial t =
     (if t_state t = kCsNoPerm then Done False
      else (case serial of Some sn \<Rightarrow> MatchesTarget t sn | None \<Rightarrow> Done (type_matches type t)))"

definition clash_error :: "transport_type \<Rightarrow> string option \<Rightarrow> string" where
  "clash_error type serial =
     (case serial of Some sn \<Rightarrow> ''more than one device with serial '' @ sn | None \<Rightarrow> ambiguous_error type)"

lemma acquire_loop_wanted:
  "tid = 0 \<Longrightarrow>
   acquire_loop e type serial tid ((r, t) # ts) result err =
     bindR (wanted type serial t) (\<lambda>m.
       if m then
         (if result \<noteq> None then Done (None, clash_error type serial, True)
          else acquire_loop e type serial tid ts (Some (r, t)) err)
       else acquire_loop e type serial tid ts result
         (if t_state t = kCsNoPerm then UsbNoPermissionsLongHelpText e else err))"
  by (cases serial) (auto simp: wanted_def clash_error_def intro!: bindR_cong)

declare acquire_loop.simps(2) [simp del]

lemma acquire_loop_candidates:
  assumes "\<forall>(r, t)\<in>set ts. wanted type serial t = Done (P t)"
  shows "\<exists>err'. acquire_loop e type serial 0 ts result err =
    (case (case result of None \<Rightarrow> [] | Some rt \<Rightarrow> [rt]) @ filter (\<lambda>(r, t). P t) ts of
       [] \<Rightarrow> Done (None, err', False)
     | [rt] \<Rightarrow> Done (Some rt, err', False)
     | _ # _ # _ \<Rightarrow> Done (None, clash_error type serial, True))"
  using assms
proof (induction ts arbitrary: result err)
  case Nil
  then show ?case by (cases result) auto
next
  case (Cons rt ts)
  obtain r t where rt: "rt = (r, t)" by fastforce
  have w: "wanted type serial t = Done (P t)" using Cons.prems rt by auto
  let ?err = "if t_state t = kCsNoPerm then UsbNoPermissionsLongHelpText e else err"
  have IH: "\<exists>err'. acquire_loop e type serial 0 ts result' err2 =
    (case (case result' of None \<Rightarrow> [] | Some rt \<Rightarrow> [rt]) @ filter (\<lambda>(r, t). P t) ts of
       [] \<Rightarrow> Done (None, err', False)
     | [rt] \<Rightarrow> Done (Some rt, err', False)
     | _ # _ # _ \<Rightarrow> Done (None, clash_error type serial, True))" for result' err2
    using Cons by auto
  show ?case
  proof (cases "P t")
    case True
    then show ?thesis using IH [of "Some (r, t)" err] w
      by (cases result) (simp_all add: rt acquire_loop_wanted [OF refl])
  next
    case False
    then show ?thesis using IH [of result ?err] w by (simp add: rt acquire_loop_wanted [OF refl])
  qed
qed

lemma map_of_reverse_update [simp]:
  "map_of (AList.update k v xs) = (map_of xs)(k \<mapsto> v)" "map_of (AList.delete k xs) = (map_of xs)(k := None)"
  by (simp_all add: update_conv' delete_conv')

definition reverse_ok :: "atransport \<Rightarrow> bool" where
  "reverse_ok t \<longleftrightarrow> distinct (map fst (t_reverse_forwards t))"

lemma IsReverseConfigured_iff:
  "reverse_ok t \<Longrightarrow> IsReverseConfigured l t \<longleftrightarrow> (\<exists>remote. map_of (t_reverse_forwards t) remote = Some l)"
proof
  assume ok: "reverse_ok t" and "IsReverseConfigured l t"
  then obtain remote where "(remote, l) \<in> set (t_reverse_forwards t)"
    by (auto simp: IsReverseConfigured_def list_ex_iff)
  with ok show "\<exists>remote. map_of (t_reverse_forwards t) remote = Some l"
    by (auto simp: reverse_ok_def)
next
  assume "\<exists>remote. map_of (t_reverse_forwards t) remote = Some l"
  then show "IsReverseConfigured l t"
    using map_of_SomeD by (fastforce simp: IsReverseConfigured_def list_ex_iff)
qed

text \<open>The requests that put a local address on the allow-list.\<close>

definition forwards_to :: "string \<Rightarrow> string \<Rightarrow> bool" where
  "forwards_to l service \<longleftrightarrow> (\<exists>remote.
     service = ''reverse:forward:'' @ remote @ '';'' @ l \<or> service = ''reverse:forward:norebind:'' @ remote @ '';'' @ l)"

lemma ConsumePrefix_Some: "ConsumePrefix s p = Some r \<longleftrightarrow> s = p @ r"
  unfolding ConsumePrefix_def StartsWith_def using append_eq_conv_conj [of p r s] by auto

lemma split_at_char_Some: "split_at_char c s = Some (a, b) \<Longrightarrow> s = a @ c # b"
proof -
  assume sp: "split_at_char c s = Some (a, b)"
  then obtain x where d: "dropWhile (\<lambda>x. x \<noteq> c) s = x # b" "a = takeWhile (\<lambda>x. x \<noteq> c) s"
    by (auto simp: split_at_char_def split: list.splits)
  then have "x = c" using hd_dropWhile [of "\<lambda>x. x \<noteq> c" s] by simp
  with d show ?thesis by (metis takeWhile_dropWhile_id)
qed

lemma UpdateReverseConfig_forward:
  assumes "UpdateReverseConfig service t = Done t'"
    and "ConsumePrefix service ''reverse:'' = Some a" "ConsumePrefix a ''forward:'' = Some b"
  shows "t' = t \<or> (\<exists>remote local. t' = t\<lparr>t_reverse_forwards := AList.update remote local (t_reverse_forwards t)\<rparr>
    \<and> forwards_to local service)"
proof -
  define nb where "nb = (case ConsumePrefix b ''norebind:'' of Some b' \<Rightarrow> (True, b') | None \<Rightarrow> (False, b))"
  obtain nr b' where nb: "nb = (nr, b')" by fastforce
  have srv: "service = ''reverse:'' @ ''forward:'' @ b" using assms(2,3) by (simp only: ConsumePrefix_Some)
  have b': "b = b' \<or> b = ''norebind:'' @ b'"
    using nb by (auto simp: nb_def ConsumePrefix_Some split: option.splits)
  note def = assms(1) [unfolded UpdateReverseConfig_def Let_def assms(2) option.case assms(3) nb_def [symmetric] nb prod.case]
  show ?thesis
  proof (cases "split_at_char CHR '';'' b'")
    case None
    with def show ?thesis by simp
  next
    case (Some rl)
    obtain remote local where rl: "rl = (remote, local)" by fastforce
    have "b' = remote @ '';'' @ local" using split_at_char_Some Some rl by fastforce
    with b' srv have "forwards_to local service"
      unfolding forwards_to_def by (intro exI [of _ remote]) (elim disjE; simp)
    with def [unfolded Some rl option.case prod.case] show ?thesis
      by (simp only: run.inject split: if_splits) blast+
  qed
qed

lemma UpdateReverseConfig_other:
  assumes "UpdateReverseConfig service t = Done t'"
    and "ConsumePrefix service ''reverse:'' = Some a" "ConsumePrefix a ''forward:'' = None"
  shows "t' = t \<or> (\<exists>b. t' = t\<lparr>t_reverse_forwards := AList.delete b (t_reverse_forwards t)\<rparr>) \<or> t' = t\<lparr>t_reverse_forwards := []\<rparr>"
proof -
  note def = assms(1) [unfolded UpdateReverseConfig_def Let_def assms(2) option.case assms(3)]
  show ?thesis
  proof (cases "ConsumePrefix a ''killforward:''")
    case None
    from def [unfolded None option.case] show ?thesis
      by (simp only: run.inject run.distinct split: if_splits) blast+
  next
    case (Some b)
    from def [unfolded Some option.case] show ?thesis
      by (simp only: run.inject split: if_splits) blast+
  qed
qed

lemma UpdateReverseConfig_step:
  assumes "UpdateReverseConfig service t = Done t'" "reverse_ok t"
  shows "reverse_ok t' \<and> (IsReverseConfigured l t' \<longrightarrow> IsReverseConfigured l t \<or> forwards_to l service)"
proof -
  let ?rf = "t_reverse_forwards t"
  have dist: "distinct (map fst (AList.update k v ?rf))" "distinct (map fst (AList.delete k ?rf))" for k v
    using assms(2) by (simp_all add: reverse_ok_def distinct_update distinct_delete)
  consider (same) "t' = t"
    | (upd) remote local where "t' = t\<lparr>t_reverse_forwards := AList.update remote local ?rf\<rparr>" "forwards_to local service"
    | (del) b where "t' = t\<lparr>t_reverse_forwards := AList.delete b ?rf\<rparr>"
    | (clr) "t' = t\<lparr>t_reverse_forwards := []\<rparr>"
  proof (cases "ConsumePrefix service ''reverse:''")
    case None
    with assms(1) that(1) show ?thesis by (simp add: UpdateReverseConfig_def)
  next
    case (Some a)
    show ?thesis
    proof (cases "ConsumePrefix a ''forward:''")
      case None
      from UpdateReverseConfig_other [OF assms(1) Some None] that show ?thesis by blast
    next
      case fw: (Some b)
      from UpdateReverseConfig_forward [OF assms(1) Some fw] that show ?thesis by blast
    qed
  qed
  then show ?thesis
  proof cases
    case upd
    have ok: "reverse_ok t'" using upd(1) dist(1) by (simp add: reverse_ok_def)
    have "map_of (t_reverse_forwards t') r = Some l \<Longrightarrow> map_of ?rf r = Some l \<or> l = local" for r
      using upd(1) by (simp split: if_splits)
    then show ?thesis
      using ok upd(2) unfolding IsReverseConfigured_iff [OF ok] IsReverseConfigured_iff [OF assms(2)] by blast
  next
    case (del b)
    have ok: "reverse_ok t'" using del dist(2) by (simp add: reverse_ok_def)
    have "map_of (t_reverse_forwards t') r = Some l \<Longrightarrow> map_of ?rf r = Some l" for r
      using del by (simp split: if_splits)
    then show ?thesis
      using ok unfolding IsReverseConfigured_iff [OF ok] IsReverseConfigured_iff [OF assms(2)] by blast
  qed (use assms(2) in \<open>auto simp: reverse_ok_def IsReverseConfigured_def\<close>)
qed

fun reverse_requests :: "string list \<Rightarrow> atransport \<Rightarrow> atransport run" where
  "reverse_requests [] t = Done t"
| "reverse_requests (s # ss) t = bindR (UpdateReverseConfig s t) (reverse_requests ss)"

lemma reverse_requests_allow:
  "reverse_requests ss t = Done t' \<Longrightarrow> reverse_ok t \<Longrightarrow> IsReverseConfigured l t' \<Longrightarrow>
     IsReverseConfigured l t \<or> list_ex (forwards_to l) ss"
proof (induction ss arbitrary: t)
  case (Cons s ss)
  then obtain t1 where 1: "UpdateReverseConfig s t = Done t1" "reverse_requests ss t1 = Done t'" by auto
  from UpdateReverseConfig_step [OF 1(1) Cons.prems(2), of l] Cons.IH [OF 1(2)] Cons.prems show ?case by auto
qed simp

text \<open>Newlines of the listing.\<close>

abbreviation newlines :: "string \<Rightarrow> nat" where
  "newlines s \<equiv> count_list s CHR 0x0A"

lemma newlines_append: "newlines (a @ b) = newlines a + newlines b"
  by (induction a) auto

lemma count_list_notin: "x \<notin> set xs \<Longrightarrow> count_list xs x = 0"
  by (induction xs) auto

lemma newlines_sanitize: "newlines (sanitize s al) = 0"
  by (rule count_list_notin) (auto simp: sanitize_def is_alnum_def digit_value_def split: if_splits)

lemma newlines_info: "CHR 0x0A \<notin> set key \<Longrightarrow> newlines (append_transport_info r key v al) = newlines r"
  by (simp add: append_transport_info_def newlines_append newlines_sanitize count_list_notin)

lemma newlines_dec: "newlines (dec n) = 0"
proof (rule count_list_notin)
  show "CHR 0x0A \<notin> set (dec n)"
    using dec_digits [of n] by (auto simp: is_digit_in_def digit_value_def)
qed

lemma newlines_c_str: "newlines s = 0 \<Longrightarrow> newlines (c_str s) = 0"
  by (induction s) (auto simp: c_str_def)

lemma append_transport_line:
  assumes "CHR 0x0A \<notin> set (t_serial t)" "newlines (state_to_string e (t_state t)) = 0"
  shows "newlines (append_transport e t r long_listing) = Suc (newlines r)"
proof -
  let ?s = "if t_serial t = [] then ''(no serial number)'' else t_serial t"
  have "newlines ?s = 0" using assms(1) by (auto simp: count_list_notin)
  moreover from this have "newlines (pad_right 22 (c_str ?s)) = 0"
    using newlines_c_str [of ?s] by (simp add: pad_right_def newlines_append count_list_notin del: if_split)
  moreover have c: "newlines (c_str (state_to_string e (t_state t))) = 0" by (rule newlines_c_str [OF assms(2)])
  ultimately show ?thesis
    unfolding append_transport_def Let_def
    by (cases long_listing) (simp_all only: if_True if_False not_True_eq_False not_False_eq_True,
        simp_all add: newlines_append newlines_info newlines_dec assms(2) del: if_split)
qed

lemma transportListToText_lines:
  "\<forall>t\<in>set ts. CHR 0x0A \<notin> set (t_serial t) \<and> newlines (state_to_string e (t_state t)) = 0 \<Longrightarrow>
     newlines (foldl (\<lambda>r t. append_transport e t r l) r ts) = newlines r + length ts"
proof (induction ts arbitrary: r)
  case (Cons t ts)
  from Cons.prems have "newlines (append_transport e t r l) = Suc (newlines r)"
    by (intro append_transport_line) auto
  with Cons.IH [of "append_transport e t r l"] Cons.prems show ?case by simp
qed simp

text \<open>The answers of successive \<^const>\<open>NextKey\<close> calls.\<close>

primrec next_keys :: "nat list \<Rightarrow> nat \<Rightarrow> atransport \<Rightarrow> (nat option list \<times> atransport) run" where
  "next_keys ks 0 t = Done ([], t)"
| "next_keys ks (Suc n) t =
     bindR (NextKey ks t) (\<lambda>(k, t1). bindR (next_keys ks n t1) (\<lambda>(r, t2). Done (k # r, t2)))"

lemma next_keys_rest:
  "t_keys t = k # ks \<Longrightarrow> next_keys all_keys (Suc (length ks)) t = Done (map Some ks @ [None], t\<lparr>t_keys := []\<rparr>)"
proof (induction ks arbitrary: k t)
  case Nil
  then show ?case by (simp add: NextKey_def transport_Key_def)
next
  case (Cons k' ks)
  have "next_keys all_keys (Suc (length ks)) (t\<lparr>t_keys := k' # ks\<rparr>) = Done (map Some ks @ [None], t\<lparr>t_keys := []\<rparr>)"
    using Cons.IH [of "t\<lparr>t_keys := k' # ks\<rparr>" k'] by simp
  moreover have "NextKey all_keys t = Done (Some k', t\<lparr>t_keys := k' # ks\<rparr>)"
    using Cons.prems by (simp add: NextKey_def transport_Key_def)
  ultimately show ?case by (simp del: next_keys.simps add: next_keys.simps(2) [of all_keys "Suc (length ks)"])
qed

section \<open>Properties\<close>

text \<open>C16: \<^verbatim>\<open>acquire_one_transport\<close> without a transport id, by serial or by type, for a request whose
  matching runs normally: with no matching transport (inaccessible ones do not count) it finds
  nothing, with two or more it reports ambiguity and returns none of them, and with exactly one it
  returns that one, unless its state is one that cannot serve and the caller did not accept any state.\<close>

theorem acquire_unique:
  assumes "\<forall>(r, t)\<in>set ts. wanted type serial t = Done (P t)"
  shows "ends (acquire_one_transport e ts type serial 0 any) (\<lambda>(result, err, amb).
    case filter (\<lambda>(r, t). P t) ts of
      [] \<Rightarrow> result = None \<and> \<not> amb
    | [(r, t)] \<Rightarrow> \<not> amb \<and> result = (if any \<or> state_error e (t_state t) = None then Some r else None)
    | _ # _ # _ \<Rightarrow> result = None \<and> amb \<and> err = clash_error type serial)"
proof -
  obtain err' where "acquire_loop e type serial 0 ts None (initial_error type serial 0) =
    (case filter (\<lambda>(r, t). P t) ts of
       [] \<Rightarrow> Done (None, err', False)
     | [rt] \<Rightarrow> Done (Some rt, err', False)
     | _ # _ # _ \<Rightarrow> Done (None, clash_error type serial, True))"
    using acquire_loop_candidates [OF assms, of e None "initial_error type serial 0"] by auto
  then show ?thesis
    by (cases "filter (\<lambda>(r, t). P t) ts"; cases "tl (filter (\<lambda>(r, t). P t) ts)")
      (auto simp: acquire_one_transport_def split: option.splits if_splits)
qed

definition sample_device :: "nat \<Rightarrow> string \<Rightarrow> connection_state \<Rightarrow> atransport" where
  "sample_device i sn st = (new_atransport i st)\<lparr>t_serial := sn, t_type := kTransportUsb\<rparr>"

definition sample_env :: env where
  "sample_env = \<lparr>ADB_VENDOR_KEYS = None, UsbNoPermissionsShortHelpText = ''no permissions'',
     UsbNoPermissionsLongHelpText = ''insufficient permissions'', delayed_ack_enabled = False\<rparr>"

theorem acquire_unique_witness:
  "ends (acquire_one_transport sample_env
      [(7, sample_device 1 ''A'' kCsDevice), (8, sample_device 2 ''B'' kCsNoPerm)] kTransportUsb None 0 False)
     (\<lambda>(result, err, amb). \<not> amb \<and> result = Some 7)"
  using acquire_unique [of "[(7, sample_device 1 ''A'' kCsDevice), (8, sample_device 2 ''B'' kCsNoPerm)]"
      kTransportUsb None "\<lambda>t. t_state t \<noteq> kCsNoPerm" sample_env False]
  by (simp add: wanted_def type_matches_def sample_device_def new_atransport_def state_error_def)

text \<open>Feature lists survive the banner: joining with commas and splitting again gives the list,
  for features without a comma, except for the list of one empty name.\<close>

lemma features_round_trip:
  assumes "\<forall>f\<in>set fs. CHR '','' \<notin> set f" "fs \<noteq> [[]]"
  shows "StringToFeatureSet (FeatureSetToString fs) = fs"
proof (cases "fs = []")
  case False
  have split: "split_loop '','' (Join fs '','') = fs" using split_Join [OF False] assms(1) by simp
  show ?thesis
  proof (cases "Join fs '','' = []")
    case True
    then have "fs = [[]]" using split by simp
    with assms(2) show ?thesis by simp
  next
    case False
    with split show ?thesis by (simp add: StringToFeatureSet_def FeatureSetToString_def)
  qed
qed (simp add: StringToFeatureSet_def FeatureSetToString_def)

text \<open>C18: the reverse allow-list: on a new transport, after any sequence of requests that are sent to
  the device, a local address is allowed only if one of them was a
  \<^verbatim>\<open>reverse:forward\<close> request naming exactly this address.\<close>

theorem reverse_allow_list:
  assumes "reverse_requests services (new_atransport i st) = Done t" "IsReverseConfigured l t"
  shows "list_ex (forwards_to l) services"
proof -
  have "reverse_ok (new_atransport i st)" "\<not> IsReverseConfigured l (new_atransport i st)"
    by (simp_all add: reverse_ok_def new_atransport_def IsReverseConfigured_def)
  with reverse_requests_allow [OF assms(1) _ assms(2)] show ?thesis by blast
qed

theorem reverse_allow_list_witness:
  "list_ex (forwards_to ''tcp:8080'') [''shell:ls'', ''reverse:forward:tcp:1;tcp:8080'']"
proof -
  let ?t = "(new_atransport 1 kCsDevice)\<lparr>t_reverse_forwards := [(''tcp:1'', ''tcp:8080'')]\<rparr>"
  have "reverse_requests [''shell:ls'', ''reverse:forward:tcp:1;tcp:8080''] (new_atransport 1 kCsDevice) = Done ?t"
    by (simp add: UpdateReverseConfig_def ConsumePrefix_def StartsWith_def split_at_char_def new_atransport_def)
  then show ?thesis by (rule reverse_allow_list) (simp add: IsReverseConfigured_def)
qed

text \<open>The device list is sorted by connection type and serial, lists every transport once, and has
  exactly one line for each, as long as serials and the permission text have no line break.\<close>

lemma list_transports_lines:
  assumes "\<forall>t\<in>set ts. CHR 0x0A \<notin> set (t_serial t)" "newlines (UsbNoPermissionsShortHelpText e) = 0"
    and "out = SHORT_TEXT \<or> out = LONG_TEXT"
  shows "newlines (list_transports e to_proto ts out) = length ts
    \<and> mset (sort_transports ts) = mset ts
    \<and> sorted (map (\<lambda>t. (type_rank (t_type t), t_serial t)) (sort_transports ts))"
proof -
  have st: "newlines (state_to_string e st) = 0" for st
    using assms(2) by (cases st) (simp_all add: state_to_string_def)
  have "\<forall>t\<in>set (sort_transports ts). CHR 0x0A \<notin> set (t_serial t) \<and> newlines (state_to_string e (t_state t)) = 0"
    using assms(1) st by (simp add: sort_transports_def)
  from transportListToText_lines [OF this, of _ "[]"] have "newlines (list_transports e to_proto ts out) = length ts"
    using assms(3) by (auto simp: list_transports_def transportListToText_def sort_transports_def)
  then show ?thesis by (simp add: sort_transports_def)
qed

text \<open>Authentication goes through the private keys once: the first calls of \<^verbatim>\<open>NextKey\<close> on a transport
  without keys return all of them in order, and the call after that returns none.\<close>

lemma next_keys_enumerate:
  assumes "t_keys t = []" "ks \<noteq> []"
  shows "next_keys ks (Suc (length ks)) t = Done (map Some ks @ [None], t)"
proof -
  obtain k r where ks: "ks = k # r" using assms(2) by (meson list.exhaust)
  have "NextKey ks t = Done (Some k, t\<lparr>t_keys := ks\<rparr>)"
    using assms ks by (simp add: NextKey_def transport_Key_def)
  moreover have "next_keys ks (Suc (length r)) (t\<lparr>t_keys := ks\<rparr>) = Done (map Some r @ [None], t\<lparr>t_keys := []\<rparr>)"
    using next_keys_rest [of "t\<lparr>t_keys := ks\<rparr>" k r ks] ks by simp
  moreover have "t\<lparr>t_keys := []\<rparr> = t" using assms(1) by simp
  ultimately show ?thesis unfolding next_keys.simps(2) [of ks "length ks"] by (simp add: ks del: next_keys.simps)
qed


end
