(* ===== verification/Fdevent.thy ===== *)
theory Fdevent
  imports C_Text "HOL-Library.AList"
begin

text \<open>
  The event loop's bookkeeping (\<^verbatim>\<open>adb/fdevent/fdevent.cpp\<close>, \<^verbatim>\<open>adb/fdevent/fdevent_epoll.cpp\<close>): the
  installed events by file descriptor, and beside them the interest list the kernel keeps for the
  epoll descriptor.  \<^verbatim>\<open>epoll_ctl\<close> fails when a descriptor is added twice, or changed or deleted
  without having been added; the code answers each failure with \<^verbatim>\<open>LOG(FATAL)\<close>.

  What an event's callback and argument are is a type parameter.  Times are milliseconds.  An
  \<^verbatim>\<open>fdevent*\<close> is the descriptor it is installed under, which is how \<^verbatim>\<open>installed_fdevents_\<close> owns it.
\<close>

section \<open>Data\<close>

datatype fde_flag = FDE_READ | FDE_WRITE | FDE_ERROR | FDE_TIMEOUT

datatype epoll_flag = EPOLLIN | EPOLLOUT | EPOLLERR | EPOLLHUP | EPOLLRDHUP

record 'o fdevent =
  fde_id :: "64 word"
  fde_state :: "fde_flag set"
  fde_timeout :: "int option"
  fde_last_active :: int
  fde_owner :: 'o

record 'o fdevent_context =
  installed_fdevents :: "(nat \<times> 'o fdevent) list"
  fdevent_next_id :: "64 word"
  epoll_interest :: "(nat \<times> epoll_flag set) list"

definition new_context :: "'o fdevent_context" where
  "new_context = \<lparr>installed_fdevents = [], fdevent_next_id = 0, epoll_interest = []\<rparr>"

section \<open>The epoll backend\<close>

definition calculate_epoll_event :: "'o fdevent \<Rightarrow> epoll_flag set" where
  "calculate_epoll_event fde =
     (if FDE_READ \<in> fde_state fde then {EPOLLIN} else {})
     \<union> (if FDE_WRITE \<in> fde_state fde then {EPOLLOUT} else {})
     \<union> (if FDE_ERROR \<in> fde_state fde then {EPOLLERR} else {})
     \<union> {EPOLLRDHUP}"

definition fde_Register :: "nat \<Rightarrow> 'o fdevent \<Rightarrow> 'o fdevent_context \<Rightarrow> 'o fdevent_context run" where
  "fde_Register fd fde c =
     (if map_of (epoll_interest c) fd \<noteq> None then Stop LogFatal
      else Done (c\<lparr>epoll_interest := AList.update fd (calculate_epoll_event fde) (epoll_interest c)\<rparr>))"

definition fde_Unregister :: "nat \<Rightarrow> 'o fdevent_context \<Rightarrow> 'o fdevent_context run" where
  "fde_Unregister fd c =
     (if map_of (epoll_interest c) fd = None then Stop LogFatal
      else Done (c\<lparr>epoll_interest := AList.delete fd (epoll_interest c)\<rparr>))"

text \<open>\<^verbatim>\<open>fdevent_context_epoll::Set\<close>; a pointer that is not installed is dangling.\<close>

definition fdevent_set :: "nat \<Rightarrow> fde_flag set \<Rightarrow> 'o fdevent_context \<Rightarrow> 'o fdevent_context run" where
  "fdevent_set fd events c =
     (case map_of (installed_fdevents c) fd of
        None \<Rightarrow> Stop BadAccess
      | Some fde \<Rightarrow>
          let previous_state = fde_state fde;
              fde = fde\<lparr>fde_state := events\<rparr>;
              c = c\<lparr>installed_fdevents := AList.update fd fde (installed_fdevents c)\<rparr>
          in if previous_state - {FDE_TIMEOUT} = events - {FDE_TIMEOUT} then Done c
             else if map_of (epoll_interest c) fd = None then Stop LogFatal
             else Done (c\<lparr>epoll_interest := AList.update fd (calculate_epoll_event fde) (epoll_interest c)\<rparr>))"

section \<open>Installing and removing events\<close>

text \<open>\<^verbatim>\<open>Create\<close>: \<open>None\<close> stands for an invalid descriptor.\<close>

definition fdevent_create :: "nat option \<Rightarrow> 'o \<Rightarrow> 'o fdevent_context \<Rightarrow> 'o fdevent_context run" where
  "fdevent_create fd owner c =
     (case fd of
        None \<Rightarrow> Stop CheckFailed
      | Some fd_num \<Rightarrow>
          bindR (checkR (map_of (installed_fdevents c) fd_num = None)) (\<lambda>_.
            let fde = \<lparr>fde_id = fdevent_next_id c, fde_state = {}, fde_timeout = None,
                       fde_last_active = 0, fde_owner = owner\<rparr>
            in fde_Register fd_num fde
                 (c\<lparr>installed_fdevents := AList.update fd_num fde (installed_fdevents c),
                    fdevent_next_id := fdevent_next_id c + 1\<rparr>)))"

text \<open>\<^verbatim>\<open>Destroy\<close> of a non-null event; the descriptor it returns is the one it is named by.\<close>

definition fdevent_release :: "nat \<Rightarrow> 'o fdevent_context \<Rightarrow> 'o fdevent_context run" where
  "fdevent_release fd c =
     (if map_of (installed_fdevents c) fd = None then Stop BadAccess
      else bindR (fde_Unregister fd c) (\<lambda>c.
           bindR (checkR (map_of (installed_fdevents c) fd \<noteq> None)) (\<lambda>_.
             Done (c\<lparr>installed_fdevents := AList.delete fd (installed_fdevents c)\<rparr>))))"

definition fdevent_add :: "nat \<Rightarrow> fde_flag set \<Rightarrow> 'o fdevent_context \<Rightarrow> 'o fdevent_context run" where
  "fdevent_add fd events c =
     bindR (checkR (FDE_TIMEOUT \<notin> events)) (\<lambda>_.
       case map_of (installed_fdevents c) fd of
         None \<Rightarrow> Stop BadAccess
       | Some fde \<Rightarrow> fdevent_set fd (fde_state fde \<union> events) c)"

definition fdevent_del :: "nat \<Rightarrow> fde_flag set \<Rightarrow> 'o fdevent_context \<Rightarrow> 'o fdevent_context run" where
  "fdevent_del fd events c =
     bindR (checkR (FDE_TIMEOUT \<notin> events)) (\<lambda>_.
       case map_of (installed_fdevents c) fd of
         None \<Rightarrow> Stop BadAccess
       | Some fde \<Rightarrow> fdevent_set fd (fde_state fde - events) c)"

definition fdevent_set_timeout ::
    "int \<Rightarrow> nat \<Rightarrow> int option \<Rightarrow> 'o fdevent_context \<Rightarrow> 'o fdevent_context run" where
  "fdevent_set_timeout now fd timeout c =
     (case map_of (installed_fdevents c) fd of
        None \<Rightarrow> Stop BadAccess
      | Some fde \<Rightarrow> Done (c\<lparr>installed_fdevents :=
          AList.update fd (fde\<lparr>fde_timeout := timeout, fde_last_active := now\<rparr>) (installed_fdevents c)\<rparr>))"

section \<open>One turn of the loop\<close>

text \<open>\<^verbatim>\<open>CalculatePollDuration\<close>.\<close>

definition time_left :: "int \<Rightarrow> 'o fdevent \<Rightarrow> int option" where
  "time_left now fde =
     map_option (\<lambda>timeout. let left = fde_last_active fde + timeout - now in if left < 0 then 0 else left)
       (fde_timeout fde)"

definition CalculatePollDuration :: "int \<Rightarrow> 'o fdevent_context \<Rightarrow> int option" where
  "CalculatePollDuration now c =
     fold (\<lambda>(fd, fde) result.
         case time_left now fde of
           None \<Rightarrow> result
         | Some t \<Rightarrow> (case result of None \<Rightarrow> Some t | Some r \<Rightarrow> Some (min r t)))
       (installed_fdevents c) None"

text \<open>What the loop makes of one answer of \<^verbatim>\<open>epoll_wait\<close>.\<close>

definition epoll_to_fde :: "'o fdevent \<Rightarrow> epoll_flag set \<Rightarrow> fde_flag set run" where
  "epoll_to_fde fde evs =
     bindR (checkR (EPOLLIN \<in> evs \<longrightarrow> FDE_READ \<in> fde_state fde)) (\<lambda>_.
     bindR (checkR (EPOLLOUT \<in> evs \<longrightarrow> FDE_WRITE \<in> fde_state fde)) (\<lambda>_.
       Done ((if EPOLLIN \<in> evs then {FDE_READ} else {})
             \<union> (if EPOLLOUT \<in> evs then {FDE_WRITE} else {})
             \<union> (if evs \<inter> {EPOLLERR, EPOLLHUP, EPOLLRDHUP} \<noteq> {} then {FDE_READ, FDE_ERROR} else {}))))"

fun collect_events ::
    "int \<Rightarrow> (nat \<times> epoll_flag set) list \<Rightarrow> 'o fdevent_context
     \<Rightarrow> ((nat \<times> fde_flag set) list \<times> 'o fdevent_context) run" where
  "collect_events post_poll [] c = Done ([], c)"
| "collect_events post_poll ((fd, evs) # rest) c =
     (case map_of (installed_fdevents c) fd of
        None \<Rightarrow> Stop BadAccess
      | Some fde \<Rightarrow>
          bindR (epoll_to_fde fde evs) (\<lambda>events.
          bindR (collect_events post_poll rest
                   (c\<lparr>installed_fdevents :=
                      AList.update fd (fde\<lparr>fde_last_active := post_poll\<rparr>) (installed_fdevents c)\<rparr>)) (\<lambda>(es, c).
            Done ((fd, events) # es, c))))"

text \<open>The scan for expired timeouts, in the order of \<^verbatim>\<open>installed_fdevents_\<close>.\<close>

fun collect_timeouts ::
    "int \<Rightarrow> (nat \<times> fde_flag set) list \<Rightarrow> (nat \<times> 'o fdevent) list
     \<Rightarrow> (nat \<times> fde_flag set) list \<times> (nat \<times> 'o fdevent) list" where
  "collect_timeouts post_poll seen [] = ([], [])"
| "collect_timeouts post_poll seen ((fd, fde) # rest) =
     (case collect_timeouts post_poll seen rest of (es, inst) \<Rightarrow>
        let events = (case map_of seen fd of Some e \<Rightarrow> e | None \<Rightarrow> {});
            late = (case fde_timeout fde of
                      None \<Rightarrow> False
                    | Some timeout \<Rightarrow> fde_last_active fde + timeout < post_poll)
        in if events = {} \<and> late
           then ((fd, {FDE_TIMEOUT}) # es, (fd, fde\<lparr>fde_last_active := post_poll\<rparr>) # inst)
           else (es, (fd, fde) # inst))"

text \<open>The events of one turn, as they are handed to \<^verbatim>\<open>HandleEvents\<close>.\<close>

definition poll_events ::
    "int \<Rightarrow> (nat \<times> epoll_flag set) list \<Rightarrow> 'o fdevent_context
     \<Rightarrow> ((nat \<times> fde_flag set) list \<times> 'o fdevent_context) run" where
  "poll_events post_poll answers c =
     bindR (collect_events post_poll answers c) (\<lambda>(es, c).
       case collect_timeouts post_poll es (sort_key fst (installed_fdevents c)) of (ts, inst) \<Rightarrow>
         Done (es @ ts, c\<lparr>installed_fdevents := inst\<rparr>))"

text \<open>\<^verbatim>\<open>HandleEvents\<close>: the event whose callback is invoked.\<close>

definition event_to_invoke :: "(nat \<times> fde_flag set) list \<Rightarrow> 'o fdevent_context \<Rightarrow> (nat \<times> fde_flag set) option" where
  "event_to_invoke events c = find (\<lambda>(fd, ev). map_of (installed_fdevents c) fd \<noteq> None) events"

definition dump_fde :: "nat \<Rightarrow> 'o fdevent \<Rightarrow> string" where
  "dump_fde fd fde =
     ''(fdevent '' @ dec (unat (fde_id fde)) @ '': fd '' @ dec fd @ '' ''
     @ (if FDE_READ \<in> fde_state fde then ''R'' else []) @ (if FDE_WRITE \<in> fde_state fde then ''W'' else [])
     @ (if FDE_ERROR \<in> fde_state fde then ''E'' else []) @ '')''"

section \<open>The interest list mirrors the installed events\<close>

definition context_ok :: "'o fdevent_context \<Rightarrow> bool" where
  "context_ok c \<longleftrightarrow> distinct (map fst (installed_fdevents c)) \<and>
     (\<forall>fd. map_of (epoll_interest c) fd = map_option calculate_epoll_event (map_of (installed_fdevents c) fd))"

lemma context_ok_new [simp]: "context_ok new_context"
  by (simp add: context_ok_def new_context_def)

lemma interest_mirrors:
  "context_ok c \<Longrightarrow> map_of (epoll_interest c) fd = map_option calculate_epoll_event (map_of (installed_fdevents c) fd)"
  by (simp add: context_ok_def)

lemma distinct_fst_update [simp]: "distinct (map fst al) \<Longrightarrow> distinct (map fst (AList.update k v al))"
  by (rule distinct_update)

lemma distinct_fst_delete [simp]: "distinct (map fst al) \<Longrightarrow> distinct (map fst (AList.delete k al))"
  by (rule distinct_delete)

lemmas alist_convs [simp] = update_conv' delete_conv'

lemma calculate_ignores_timeout:
  "fde_state a - {FDE_TIMEOUT} = fde_state b - {FDE_TIMEOUT} \<Longrightarrow> calculate_epoll_event a = calculate_epoll_event b"
proof -
  assume "fde_state a - {FDE_TIMEOUT} = fde_state b - {FDE_TIMEOUT}"
  then have "f \<in> fde_state a \<longleftrightarrow> f \<in> fde_state b" if "f \<noteq> FDE_TIMEOUT" for f
    using that by blast
  then show ?thesis by (simp add: calculate_epoll_event_def)
qed

lemma fdevent_create_ok:
  assumes "context_ok c" "map_of (installed_fdevents c) fd = None"
  shows "\<exists>c'. fdevent_create (Some fd) o' c = Done c' \<and> context_ok c' \<and>
    (\<exists>fde. fde_state fde = {} \<and> fde_owner fde = o' \<and> fde_timeout fde = None
       \<and> map_of (installed_fdevents c') = (map_of (installed_fdevents c))(fd \<mapsto> fde))"
proof -
  let ?fde = "\<lparr>fde_id = fdevent_next_id c, fde_state = {}, fde_timeout = None, fde_last_active = 0,
    fde_owner = o'\<rparr>"
  have "map_of (epoll_interest c) fd = None" using assms by (simp add: interest_mirrors)
  then show ?thesis using assms
    by (simp add: fdevent_create_def fde_Register_def Let_def context_ok_def)
      (rule exI [of _ ?fde], simp)
qed

lemma fdevent_release_ok:
  assumes "context_ok c" "map_of (installed_fdevents c) fd \<noteq> None"
  shows "\<exists>c'. fdevent_release fd c = Done c' \<and> context_ok c'
    \<and> map_of (installed_fdevents c') = (map_of (installed_fdevents c))(fd := None)"
  using assms by (auto simp: fdevent_release_def fde_Unregister_def interest_mirrors context_ok_def)

lemma fdevent_set_ok:
  assumes "context_ok c" "map_of (installed_fdevents c) fd = Some fde"
  shows "\<exists>c'. fdevent_set fd events c = Done c' \<and> context_ok c'
    \<and> map_of (installed_fdevents c') = (map_of (installed_fdevents c))(fd \<mapsto> fde\<lparr>fde_state := events\<rparr>)"
proof (cases "fde_state fde - {FDE_TIMEOUT} = events - {FDE_TIMEOUT}")
  case True
  then have "calculate_epoll_event (fde\<lparr>fde_state := events\<rparr>) = calculate_epoll_event fde"
    by (intro calculate_ignores_timeout) simp
  with True assms show ?thesis by (auto simp: fdevent_set_def Let_def context_ok_def)
next
  case False
  with assms show ?thesis by (auto simp: fdevent_set_def Let_def context_ok_def)
qed

lemma fdevent_add_ok:
  assumes "context_ok c" "map_of (installed_fdevents c) fd = Some fde" "FDE_TIMEOUT \<notin> ev"
  shows "\<exists>c'. fdevent_add fd ev c = Done c' \<and> context_ok c'
    \<and> map_of (installed_fdevents c') = (map_of (installed_fdevents c))(fd \<mapsto> fde\<lparr>fde_state := fde_state fde \<union> ev\<rparr>)"
  using fdevent_set_ok [OF assms(1,2)] assms by (simp add: fdevent_add_def)

lemma fdevent_del_ok:
  assumes "context_ok c" "map_of (installed_fdevents c) fd = Some fde" "FDE_TIMEOUT \<notin> ev"
  shows "\<exists>c'. fdevent_del fd ev c = Done c' \<and> context_ok c'
    \<and> map_of (installed_fdevents c') = (map_of (installed_fdevents c))(fd \<mapsto> fde\<lparr>fde_state := fde_state fde - ev\<rparr>)"
  using fdevent_set_ok [OF assms(1,2)] assms by (simp add: fdevent_del_def)

lemma fdevent_set_timeout_ok:
  assumes "context_ok c" "map_of (installed_fdevents c) fd = Some fde"
  shows "\<exists>c'. fdevent_set_timeout now fd t c = Done c' \<and> context_ok c'
    \<and> map_of (installed_fdevents c') =
        (map_of (installed_fdevents c))(fd \<mapsto> fde\<lparr>fde_timeout := t, fde_last_active := now\<rparr>)"
  using assms by (auto simp: fdevent_set_timeout_def context_ok_def calculate_epoll_event_def)


section \<open>Reachable contexts\<close>

text \<open>What the rest of the program does with the context between two turns of the loop.\<close>

datatype 'o fde_op =
    OpCreate "nat option" 'o
  | OpRelease nat
  | OpSet nat "fde_flag set"
  | OpAdd nat "fde_flag set"
  | OpDel nat "fde_flag set"
  | OpTimeout int nat "int option"
  | OpPoll int "(nat \<times> epoll_flag set) list"

fun run_op :: "'o fde_op \<Rightarrow> 'o fdevent_context \<Rightarrow> 'o fdevent_context run" where
  "run_op (OpCreate fd ow) c = fdevent_create fd ow c"
| "run_op (OpRelease fd) c = fdevent_release fd c"
| "run_op (OpSet fd ev) c = fdevent_set fd ev c"
| "run_op (OpAdd fd ev) c = fdevent_add fd ev c"
| "run_op (OpDel fd ev) c = fdevent_del fd ev c"
| "run_op (OpTimeout now fd t) c = fdevent_set_timeout now fd t c"
| "run_op (OpPoll now answers) c = bindR (poll_events now answers c) (\<lambda>(es, c). Done c)"

inductive reachable_context :: "'o fdevent_context \<Rightarrow> bool" where
  init: "reachable_context new_context"
| step: "reachable_context c \<Longrightarrow> run_op op c = Done c' \<Longrightarrow> reachable_context c'"

lemma calculate_last_active [simp]:
  "calculate_epoll_event (fde\<lparr>fde_last_active := t\<rparr>) = calculate_epoll_event fde"
  by (simp add: calculate_epoll_event_def)

lemma touch_ok:
  "context_ok c \<Longrightarrow> map_of (installed_fdevents c) fd = Some fde \<Longrightarrow>
   context_ok (c\<lparr>installed_fdevents := AList.update fd (fde\<lparr>fde_last_active := t\<rparr>) (installed_fdevents c)\<rparr>)"
  by (auto simp: context_ok_def)

lemma collect_events_ok:
  "context_ok c \<Longrightarrow> collect_events t answers c = Done (es, c') \<Longrightarrow> context_ok c' \<and> epoll_interest c' = epoll_interest c
     \<and> map fst es = map fst answers"
proof (induction t answers c arbitrary: es c' rule: collect_events.induct)
  case (2 t fd evs rest c)
  then show ?case
    by (auto split: option.splits dest!: touch_ok [of c fd _ t])
qed simp

lemma collect_timeouts_keys:
  "map fst (snd (collect_timeouts t seen inst)) = map fst inst
   \<and> map (\<lambda>(fd, fde). (fd, calculate_epoll_event fde)) (snd (collect_timeouts t seen inst))
       = map (\<lambda>(fd, fde). (fd, calculate_epoll_event fde)) inst"
  by (induction t seen inst rule: collect_timeouts.induct) (auto simp: Let_def split: prod.splits)

lemma map_of_map_snd: "map_of (map (\<lambda>(k, v). (k, g v)) al) k = map_option g (map_of al k)"
  by (induction al) auto

lemma poll_events_context_ok:
  assumes "context_ok c" "poll_events t answers c = Done (es, c')"
  shows "context_ok c'"
proof -
  from assms(2) obtain es1 c1 where c1: "collect_events t answers c = Done (es1, c1)"
    and c': "c' = c1\<lparr>installed_fdevents := snd (collect_timeouts t es1 (sort_key fst (installed_fdevents c1)))\<rparr>"
    by (auto simp: poll_events_def case_prod_beta)
  let ?inst = "sort_key fst (installed_fdevents c1)"
  let ?inst' = "snd (collect_timeouts t es1 ?inst)"
  from collect_events_ok [OF assms(1) c1] have ok: "context_ok c1" by simp
  then have d: "distinct (map fst (installed_fdevents c1))" by (simp add: context_ok_def)
  then have d': "distinct (map fst ?inst)"
    by (simp add: distinct_map distinct_sort inj_on_def)
  then have "map_of ?inst = map_of (installed_fdevents c1)"
    by (intro map_of_inject_set [THEN iffD2, rotated 2, OF _ d' d]) simp
  moreover have "map_option calculate_epoll_event (map_of ?inst' fd) = map_option calculate_epoll_event (map_of ?inst fd)" for fd
    using collect_timeouts_keys [of t es1 ?inst] map_of_map_snd [of calculate_epoll_event ?inst' fd]
      map_of_map_snd [of calculate_epoll_event ?inst fd] by simp
  ultimately show ?thesis
    using ok d' collect_timeouts_keys [of t es1 ?inst] by (simp add: c' context_ok_def)
qed


definition mirrored :: "'o fdevent_context run \<Rightarrow> bool" where
  "mirrored r \<longleftrightarrow> (case r of Done c \<Rightarrow> context_ok c | Stop e \<Rightarrow> e \<noteq> LogFatal)"

lemma mirrored_Done: "\<exists>c. r = Done c \<and> context_ok c \<and> P c \<Longrightarrow> mirrored r"
  by (auto simp: mirrored_def)

lemma mirrored_Bad [simp]: "mirrored (Stop BadAccess)" "mirrored (Stop CheckFailed)"
  by (simp_all add: mirrored_def)

lemma mirrored_installed:
  "(\<And>fde. map_of (installed_fdevents c) fd = Some fde \<Longrightarrow> mirrored r) \<Longrightarrow>
   (map_of (installed_fdevents c) fd = None \<Longrightarrow> r = Stop BadAccess) \<Longrightarrow> mirrored r"
  by (cases "map_of (installed_fdevents c) fd") auto

lemma mirrored_set: "context_ok c \<Longrightarrow> mirrored (fdevent_set fd ev c)"
  by (rule mirrored_installed [of c fd], erule mirrored_Done [OF fdevent_set_ok])
    (auto simp: fdevent_set_def)

lemma mirrored_release: "context_ok c \<Longrightarrow> mirrored (fdevent_release fd c)"
  by (rule mirrored_installed [of c fd], rule mirrored_Done [OF fdevent_release_ok])
    (auto simp: fdevent_release_def)

lemma mirrored_set_timeout: "context_ok c \<Longrightarrow> mirrored (fdevent_set_timeout now fd t c)"
  by (rule mirrored_installed [of c fd], erule mirrored_Done [OF fdevent_set_timeout_ok])
    (auto simp: fdevent_set_timeout_def)

lemma mirrored_create:
  assumes "context_ok c"
  shows "mirrored (fdevent_create fd ow c)"
proof (cases "\<exists>n. fd = Some n \<and> map_of (installed_fdevents c) n = None")
  case True
  then show ?thesis using mirrored_Done [OF fdevent_create_ok [OF assms]] by auto
qed (auto simp: fdevent_create_def checkR_def split: option.splits)

lemma run_op_mirrored:
  assumes "context_ok c"
  shows "mirrored (run_op op c)"
proof (cases op)
  case (OpPoll now answers)
  have "e \<noteq> LogFatal" if "collect_events now answers c = Stop e" for e
    using that by (induction now answers c rule: collect_events.induct)
      (auto simp: bindR_Stop_iff epoll_to_fde_def checkR_def split: option.splits if_splits)
  then have "e \<noteq> LogFatal" if "poll_events now answers c = Stop e" for e
    using that by (auto simp: poll_events_def bindR_Stop_iff split: prod.splits)
  with OpPoll poll_events_context_ok [OF assms, of now answers] show ?thesis
    by (cases "poll_events now answers c") (auto simp: mirrored_def split: prod.splits)
qed (use assms in \<open>auto simp: mirrored_create mirrored_release mirrored_set mirrored_set_timeout
  fdevent_add_def fdevent_del_def checkR_def split: option.splits\<close>)

lemma reachable_context_ok: "reachable_context c \<Longrightarrow> context_ok c"
proof (induction rule: reachable_context.induct)
  case (step c op c')
  with run_op_mirrored [of c op] show ?case by (simp add: mirrored_def)
qed simp

text \<open>
  What the kernel answers: flags it was asked for, and errors and hang-ups it always reports.
\<close>

definition kernel_answers :: "(nat \<times> epoll_flag set) list \<Rightarrow> (nat \<times> epoll_flag set) list \<Rightarrow> bool" where
  "kernel_answers interest answers \<longleftrightarrow> (\<forall>(fd, evs)\<in>set answers.
     \<exists>asked. map_of interest fd = Some asked \<and> evs \<subseteq> asked \<union> {EPOLLERR, EPOLLHUP})"

lemma collect_events_safe:
  "context_ok c \<Longrightarrow> kernel_answers (epoll_interest c) answers \<Longrightarrow> \<exists>r. collect_events t answers c = Done r"
proof (induction t answers c rule: collect_events.induct)
  case (2 t fd evs rest c)
  from "2.prems" obtain fde where fde: "map_of (installed_fdevents c) fd = Some fde"
    and evs: "evs \<subseteq> calculate_epoll_event fde \<union> {EPOLLERR, EPOLLHUP}"
    by (auto simp: kernel_answers_def interest_mirrors)
  from evs have "EPOLLIN \<in> evs \<longrightarrow> FDE_READ \<in> fde_state fde" "EPOLLOUT \<in> evs \<longrightarrow> FDE_WRITE \<in> fde_state fde"
    by (auto simp: calculate_epoll_event_def split: if_splits)
  then obtain events where ev: "epoll_to_fde fde evs = Done events"
    by (simp add: epoll_to_fde_def checkR_def)
  from "2.IH" [OF fde ev] touch_ok [OF "2.prems"(1) fde, of t] "2.prems"(2) fde ev show ?case
    by (fastforce simp: kernel_answers_def)
qed simp

lemma epoll_to_fde_no_timeout: "epoll_to_fde fde evs = Done events \<Longrightarrow> FDE_TIMEOUT \<notin> events"
  by (auto simp: epoll_to_fde_def split: if_splits)

lemma collect_events_no_timeout:
  "collect_events t answers c = Done (es, c') \<Longrightarrow> (fd, ev) \<in> set es \<Longrightarrow> FDE_TIMEOUT \<notin> ev"
proof (induction t answers c arbitrary: es c' rule: collect_events.induct)
  case (2 t fd' evs rest c)
  from "2.prems"(1) obtain fde events es' where fde: "map_of (installed_fdevents c) fd' = Some fde"
    and ev: "epoll_to_fde fde evs = Done events"
    and rec: "collect_events t rest (c\<lparr>installed_fdevents :=
      AList.update fd' (fde\<lparr>fde_last_active := t\<rparr>) (installed_fdevents c)\<rparr>) = Done (es', c')"
    and es: "es = (fd', events) # es'"
    by (auto split: option.splits)
  show ?case
  proof (cases "(fd, ev) \<in> set es'")
    case True
    with "2.IH" [OF fde ev rec] show ?thesis .
  next
    case False
    with "2.prems"(2) es epoll_to_fde_no_timeout [OF ev] show ?thesis by simp
  qed
qed simp

lemma collect_timeouts_touched:
  "(fd, ev) \<in> set (fst (collect_timeouts t seen inst)) \<Longrightarrow>
     \<exists>fde. (fd, fde) \<in> set (snd (collect_timeouts t seen inst)) \<and> fde_last_active fde = t"
  by (induction t seen inst rule: collect_timeouts.induct)
    (auto simp: Let_def split: prod.splits if_splits)

lemma poll_events_touched:
  assumes "context_ok c" "poll_events t answers c = Done (es, c')" "(fd, {FDE_TIMEOUT}) \<in> set es"
  shows "\<exists>fde. map_of (installed_fdevents c') fd = Some fde \<and> fde_last_active fde = t"
proof -
  from assms(2) obtain es1 c1 where c1: "collect_events t answers c = Done (es1, c1)"
    and es: "es = es1 @ fst (collect_timeouts t es1 (sort_key fst (installed_fdevents c1)))"
    and inst: "installed_fdevents c' = snd (collect_timeouts t es1 (sort_key fst (installed_fdevents c1)))"
    by (auto simp: poll_events_def case_prod_beta)
  have "(fd, {FDE_TIMEOUT}) \<notin> set es1" using collect_events_no_timeout [OF c1] by blast
  with assms(3) es have "(fd, {FDE_TIMEOUT}) \<in> set (fst (collect_timeouts t es1 (sort_key fst (installed_fdevents c1))))"
    by simp
  from collect_timeouts_touched [OF this] obtain fde where
    fde: "(fd, fde) \<in> set (installed_fdevents c')" "fde_last_active fde = t" by (auto simp: inst)
  moreover have "distinct (map fst (installed_fdevents c'))"
    using poll_events_context_ok [OF assms(1,2)] by (simp add: context_ok_def)
  ultimately show ?thesis by (auto intro: map_of_is_SomeI)
qed

section \<open>Properties\<close>

text \<open>
  C11: In every context the program can reach through the functions of the event loop, the kernel's
  interest list is exactly what the states of the installed events ask for, so none of the
  \<^verbatim>\<open>epoll_ctl\<close> calls fails; and a turn of the loop ends without a failed \<^verbatim>\<open>CHECK\<close> on whatever the
  kernel answers.
\<close>

theorem event_loop_invariant:
  assumes "reachable_context c"
  shows "(\<forall>fd. map_of (epoll_interest c) fd = map_option calculate_epoll_event (map_of (installed_fdevents c) fd))
    \<and> run_op op c \<noteq> Stop LogFatal
    \<and> (kernel_answers (epoll_interest c) answers \<longrightarrow> (\<exists>es c'. poll_events t answers c = Done (es, c')))"
proof -
  from assms have ok: "context_ok c" by (rule reachable_context_ok)
  moreover have "run_op op c \<noteq> Stop LogFatal"
    using run_op_mirrored [OF ok, of op] by (auto simp: mirrored_def)
  moreover have "\<exists>es c'. poll_events t answers c = Done (es, c')" if "kernel_answers (epoll_interest c) answers"
    using collect_events_safe [OF ok that, of t] by (auto simp: poll_events_def case_prod_beta)
  ultimately show ?thesis by (simp add: interest_mirrors)
qed

definition sample_context :: "unit fdevent_context" where
  "sample_context =
     \<lparr>installed_fdevents = [(7, \<lparr>fde_id = 0, fde_state = {FDE_READ}, fde_timeout = None, fde_last_active = 0,
        fde_owner = ()\<rparr>)], fdevent_next_id = 1, epoll_interest = [(7, {EPOLLIN, EPOLLRDHUP})]\<rparr>"

lemma sample_context_reachable: "reachable_context sample_context"
proof -
  let ?c = "\<lparr>installed_fdevents = [(7, \<lparr>fde_id = 0, fde_state = {}, fde_timeout = None, fde_last_active = 0,
        fde_owner = ()\<rparr>)], fdevent_next_id = 1, epoll_interest = [(7, {EPOLLRDHUP})]\<rparr>"
  have "run_op (OpCreate (Some 7) ()) new_context = Done ?c"
    by (simp add: fdevent_create_def new_context_def fde_Register_def calculate_epoll_event_def)
  then have "reachable_context ?c" by (rule step [OF init])
  moreover have "run_op (OpAdd 7 {FDE_READ}) ?c = Done sample_context"
    by (simp add: fdevent_add_def fdevent_set_def calculate_epoll_event_def sample_context_def
        insert_commute)
  ultimately show ?thesis by (rule step)
qed

theorem event_loop_invariant_witness:
  "run_op (OpAdd 7 {FDE_WRITE}) sample_context \<noteq> Stop LogFatal
   \<and> kernel_answers (epoll_interest sample_context) [(7, {EPOLLIN, EPOLLHUP})]
   \<and> (\<exists>es c'. poll_events 5 [(7, {EPOLLIN, EPOLLHUP})] sample_context = Done (es, c'))"
proof -
  have k: "kernel_answers (epoll_interest sample_context) [(7, {EPOLLIN, EPOLLHUP})]"
    by (simp add: kernel_answers_def sample_context_def)
  with event_loop_invariant [OF sample_context_reachable, of "OpAdd 7 {FDE_WRITE}" "[(7, {EPOLLIN, EPOLLHUP})]" 5]
  show ?thesis by blast
qed

text \<open>
  C39: When a turn of the loop finds a timeout expired, it restarts that event's clock at once, but
  only the first event of the turn has its callback invoked: any other timeout is lost until it
  has run a second time.
\<close>

theorem timeout_lost:
  assumes "reachable_context c" "poll_events t answers c = Done (es, c')"
    and "(fd, {FDE_TIMEOUT}) \<in> set es" "event_to_invoke es c' = Some (first, ev)" "first \<noteq> fd"
  shows "\<exists>fde. map_of (installed_fdevents c') fd = Some fde \<and> time_left t fde = map_option (max 0) (fde_timeout fde)
    \<and> event_to_invoke es c' \<noteq> Some (fd, {FDE_TIMEOUT})"
  using poll_events_touched [OF reachable_context_ok [OF assms(1)] assms(2,3)] assms(4,5)
  by (auto simp: time_left_def Let_def max_def intro!: option.map_cong)

definition two_timeouts :: "unit fdevent_context" where
  "two_timeouts =
     \<lparr>installed_fdevents =
        [(4, \<lparr>fde_id = 0, fde_state = {}, fde_timeout = Some 1000, fde_last_active = 0, fde_owner = ()\<rparr>),
         (5, \<lparr>fde_id = 1, fde_state = {}, fde_timeout = Some 1000, fde_last_active = 0, fde_owner = ()\<rparr>)],
      fdevent_next_id = 2, epoll_interest = [(4, {EPOLLRDHUP}), (5, {EPOLLRDHUP})]\<rparr>"

lemma two_timeouts_reachable: "reachable_context two_timeouts"
proof -
  let ?fde = "\<lambda>i t. \<lparr>fde_id = i, fde_state = {}, fde_timeout = t, fde_last_active = 0, fde_owner = ()\<rparr>"
  let ?c1 = "\<lparr>installed_fdevents = [(4, ?fde 0 None)], fdevent_next_id = 1, epoll_interest = [(4, {EPOLLRDHUP})]\<rparr>"
  let ?c2 = "?c1\<lparr>installed_fdevents := [(4, ?fde 0 (Some 1000))]\<rparr>"
  let ?c3 = "two_timeouts\<lparr>installed_fdevents := [(4, ?fde 0 (Some 1000)), (5, ?fde 1 None)]\<rparr>"
  have "run_op (OpCreate (Some 4) ()) new_context = Done ?c1"
    by (simp add: fdevent_create_def new_context_def fde_Register_def calculate_epoll_event_def)
  then have "reachable_context ?c1" by (rule step [OF init])
  moreover have "run_op (OpTimeout 0 4 (Some 1000)) ?c1 = Done ?c2"
    by (simp add: fdevent_set_timeout_def)
  ultimately have "reachable_context ?c2" by (rule step)
  moreover have "run_op (OpCreate (Some 5) ()) ?c2 = Done ?c3"
    by (simp add: fdevent_create_def fde_Register_def calculate_epoll_event_def two_timeouts_def)
  ultimately have "reachable_context ?c3" by (rule step)
  moreover have "run_op (OpTimeout 0 5 (Some 1000)) ?c3 = Done two_timeouts"
    by (simp add: fdevent_set_timeout_def two_timeouts_def)
  ultimately show ?thesis by (rule step)
qed

theorem timeout_lost_witness:
  "\<exists>es c'. poll_events 1001 [] two_timeouts = Done (es, c') \<and> event_to_invoke es c' = Some (4, {FDE_TIMEOUT})
     \<and> (\<exists>fde. map_of (installed_fdevents c') 5 = Some fde \<and> time_left 1001 fde = map_option (max 0) (fde_timeout fde))"
proof -
  let ?es = "[(4, {FDE_TIMEOUT}), (5, {FDE_TIMEOUT})] :: (nat \<times> fde_flag set) list"
  obtain c' where c': "poll_events 1001 [] two_timeouts = Done (?es, c')"
      "event_to_invoke ?es c' = Some (4, {FDE_TIMEOUT})"
    by (simp add: poll_events_def two_timeouts_def event_to_invoke_def)
  from timeout_lost [OF two_timeouts_reachable c'(1) _ c'(2), of 5] c' show ?thesis by auto
qed

end
