(* ===== verification/Host_Service.thy ===== *)
theory Host_Service
  imports Adb_Utils
begin

text \<open>
  The text of client requests (\<^verbatim>\<open>adb/sockets.cpp\<close>): \<^verbatim>\<open>unhex\<close>, which reads the length prefix of a
  request, and \<^verbatim>\<open>parse_host_service\<close>, which splits \<^verbatim>\<open><serial>:<command>\<close> where the serial may itself
  contain colons.  The two views of the parser are a length and an offset into the request.
\<close>

section \<open>Length prefixes\<close>

text \<open>The loop of \<^verbatim>\<open>unhex\<close>; the end of the buffer is its NUL, which is no digit.\<close>

fun unhex_loop :: "string \<Rightarrow> nat \<Rightarrow> u32 \<Rightarrow> u32" where
  "unhex_loop s 0 n = n"
| "unhex_loop [] (Suc len) n = 0xffffffff"
| "unhex_loop (c # s) (Suc len) n =
     (if \<not> is_digit_in 16 c then 0xffffffff
      else unhex_loop s len (push_bit 4 n OR word_of_nat (digit_value c)))"

definition unhex :: "string \<Rightarrow> nat \<Rightarrow> u32" where
  "unhex s len = unhex_loop s len 0"

section \<open>Serial and command\<close>

text \<open>\<open>serial\<close> is the first \<open>ser_len\<close> bytes of the request, \<open>command\<close> what starts at \<open>cmd_off\<close>.\<close>

record views =
  ser_len :: nat
  cmd_off :: nat

definition serial_of :: "string \<Rightarrow> views \<Rightarrow> string" where
  "serial_of full v = take (ser_len v) full"

definition command_of :: "string \<Rightarrow> views \<Rightarrow> string" where
  "command_of full v = drop (cmd_off v) full"

definition consume :: "string \<Rightarrow> nat \<Rightarrow> views \<Rightarrow> views run" where
  "consume full count v =
     bindR (checkR (count \<le> length (command_of full v))) (\<lambda>_.
     bindR (checkR (serial_of full v \<noteq> [] \<longrightarrow> ser_len v = cmd_off v)) (\<lambda>_.
       Done \<lparr>ser_len = ser_len v + count, cmd_off = cmd_off v + count\<rparr>))"

definition finish_views :: "string \<Rightarrow> views \<Rightarrow> (string \<times> string) option run" where
  "finish_views full v =
     (if serial_of full v = [] \<or> command_of full v = [] then Done None
      else bindR (checkR (last (serial_of full v) = CHR '':'')) (\<lambda>_.
        Done (Some (butlast (serial_of full v), command_of full v))))"

definition host_prefixes :: "string list" where
  "host_prefixes = [''usb:'', ''product:'', ''model:'', ''device:'', ''localfilesystem:'']"

text \<open>Taking the text up to and with the next colon.\<close>

definition consume_colon :: "string \<Rightarrow> views \<Rightarrow> views option run" where
  "consume_colon full v =
     (case index_in (command_of full v) CHR '':'' of
        None \<Rightarrow> Done None
      | Some offset \<Rightarrow> bindR (consume full (offset + 1) v) (\<lambda>v. Done (Some v)))"

text \<open>The IPv6 address, if there is one: \<open>None\<close> for a syntax error, else whether an address was found.\<close>

definition consume_ipv6 :: "string \<Rightarrow> views \<Rightarrow> (bool \<times> views) option run" where
  "consume_ipv6 full v =
     bindR (at (command_of full v) 0) (\<lambda>c0.
       if c0 \<noteq> CHR ''['' then Done (Some (False, v))
       else (case index_in (command_of full v) CHR '']'' of
          None \<Rightarrow> Done (Some (False, v))
        | Some ipv6_end \<Rightarrow>
            bindR (consume full (ipv6_end + 1) v) (\<lambda>v.
              if command_of full v = [] then Done None
              else bindR (at (command_of full v) 0) (\<lambda>c.
                if c \<noteq> CHR '':'' then Done None
                else bindR (consume full 1 v) (\<lambda>v. Done (Some (True, v)))))))"

text \<open>The port, if what stands before the next colon is a number.\<close>

definition consume_port :: "string \<Rightarrow> views \<Rightarrow> (string \<times> string) option run" where
  "consume_port full v =
     (case index_in (command_of full v) CHR '':'' of
        None \<Rightarrow> finish_views full v
      | Some next_colon \<Rightarrow>
          if length (command_of full v) \<le> next_colon then Done None
          else if \<forall>digit\<in>set (take next_colon (command_of full v)). is_digit_in 10 digit
          then bindR (consume full (next_colon + 1) v) (finish_views full)
          else finish_views full v)"

definition parse_address :: "string \<Rightarrow> views \<Rightarrow> (string \<times> string) option run" where
  "parse_address full v =
     bindR (consume_ipv6 full v) (\<lambda>r.
       case r of
         None \<Rightarrow> Done None
       | Some (True, v) \<Rightarrow> consume_port full v
       | Some (False, v) \<Rightarrow>
           bindR (consume_colon full v) (\<lambda>r.
             case r of None \<Rightarrow> Done None | Some v \<Rightarrow> consume_port full v))"

text \<open>\<^verbatim>\<open>parse_host_service\<close>: serial and command when it returns true.\<close>

definition parse_host_service :: "string \<Rightarrow> (string \<times> string) option run" where
  "parse_host_service full =
     (if full = [] then Done None
      else (let v = \<lparr>ser_len = 0, cmd_off = 0\<rparr> in
        case find (StartsWith full) host_prefixes of
          Some pre \<Rightarrow>
            bindR (consume full (length pre) v) (\<lambda>v.
            bindR (consume_colon full v) (\<lambda>r.
              case r of None \<Rightarrow> Done None | Some v \<Rightarrow> finish_views full v))
        | None \<Rightarrow>
            bindR (if StartsWith full ''tcp:'' \<or> StartsWith full ''udp:''
                   then bindR (consume full 4 v) (\<lambda>v.
                     Done (if command_of full v = [] then None else Some v))
                   else Done (Some v)) (\<lambda>r.
              case r of
                None \<Rightarrow> Done None
              | Some v \<Rightarrow>
                  bindR (if StartsWith (command_of full v) ''vsock:'' then consume_colon full v
                         else Done (Some v)) (\<lambda>r.
                    case r of None \<Rightarrow> Done None | Some v \<Rightarrow> parse_address full v))))"

section \<open>Lemmas\<close>

text \<open>The views fit together, and the serial is empty or ends in a colon.\<close>

definition views_ok :: "string \<Rightarrow> views \<Rightarrow> bool" where
  "views_ok full v \<longleftrightarrow> ser_len v = cmd_off v \<and> cmd_off v \<le> length full"

definition at_colon :: "string \<Rightarrow> views \<Rightarrow> bool" where
  "at_colon full v \<longleftrightarrow> views_ok full v \<and> (cmd_off v = 0 \<or> full ! (cmd_off v - 1) = CHR '':'')"

text \<open>The outcomes a sound step may have.\<close>

definition good_split :: "string \<Rightarrow> (string \<times> string) option run \<Rightarrow> bool" where
  "good_split full r \<longleftrightarrow> ends r (\<lambda>x. case x of None \<Rightarrow> True
     | Some (serial, command) \<Rightarrow> full = serial @ '':'' @ command \<and> command \<noteq> [])"

lemma good_split_None [simp]: "good_split full (Done None)"
  by (simp add: good_split_def)

lemma good_split_bind:
  "ends m Q \<Longrightarrow> (\<And>x. Q x \<Longrightarrow> good_split full (f x)) \<Longrightarrow> good_split full (bindR m f)"
  unfolding good_split_def by (rule ends_bind)

lemma StartsWith_append: "StartsWith s p \<Longrightarrow> s = p @ drop (length p) s"
  by (metis StartsWith_def append_take_drop_id)

lemma StartsWith_length: "StartsWith s p \<Longrightarrow> length p \<le> length s"
  by (metis StartsWith_append length_append le_add1)

lemma index_in_Some: "index_in s c = Some i \<Longrightarrow> i < length s \<and> s ! i = c"
  by (induction s arbitrary: i) (auto split: if_splits)

lemma index_in_first: "c \<notin> set s \<Longrightarrow> index_in (s @ c # t) c = Some (length s)"
  by (induction s) auto

lemma consume_ok:
  "views_ok full v \<Longrightarrow> n \<le> length (command_of full v) \<Longrightarrow>
     consume full n v = Done \<lparr>ser_len = ser_len v + n, cmd_off = cmd_off v + n\<rparr>
     \<and> views_ok full \<lparr>ser_len = ser_len v + n, cmd_off = cmd_off v + n\<rparr>"
  by (auto simp: consume_def views_ok_def command_of_def)

lemma consume_colon_ok:
  assumes "views_ok full v"
  shows "ends (consume_colon full v) (\<lambda>r. case r of None \<Rightarrow> True
    | Some v' \<Rightarrow> at_colon full v' \<and> cmd_off v < cmd_off v')"
proof (cases "index_in (command_of full v) CHR '':''")
  case (Some i)
  with index_in_Some [OF Some] assms show ?thesis
    by (simp add: consume_colon_def consume_ok at_colon_def)
      (auto simp: command_of_def views_ok_def)
qed (simp add: consume_colon_def)

lemma finish_views_ok: "at_colon full v \<Longrightarrow> good_split full (finish_views full v)"
proof (cases "cmd_off v")
  case (Suc n)
  assume v: "at_colon full v"
  show ?thesis
  proof (cases "command_of full v = []")
    case False
    have n: "n < length full" "full ! n = CHR '':''" "ser_len v = Suc n"
      using v Suc by (auto simp: at_colon_def views_ok_def)
    then have "serial_of full v = take n full @ '':''"
      by (simp add: serial_of_def take_Suc_conv_app_nth)
    moreover have "full = take n full @ '':'' @ command_of full v"
      using n Suc id_take_nth_drop [OF n(1)] by (simp add: command_of_def)
    ultimately show ?thesis using False by (simp add: finish_views_def good_split_def)
  qed (simp add: finish_views_def good_split_def)
qed (simp add: finish_views_def good_split_def at_colon_def views_ok_def serial_of_def)

lemma consume_port_ok:
  assumes "at_colon full v"
  shows "good_split full (consume_port full v)"
proof (cases "index_in (command_of full v) CHR '':''")
  case (Some i)
  let ?v = "\<lparr>ser_len = ser_len v + (i + 1), cmd_off = cmd_off v + (i + 1)\<rparr>"
  have i: "i < length (command_of full v)" "command_of full v ! i = CHR '':''"
    using index_in_Some [OF Some] by auto
  have vo: "views_ok full v" using assms by (simp add: at_colon_def)
  have c: "consume full (i + 1) v = Done ?v" "views_ok full ?v"
    using consume_ok [OF vo, of "i + 1"] i by auto
  moreover have "at_colon full ?v" using c(2) i assms
    by (simp add: at_colon_def command_of_def views_ok_def)
  ultimately show ?thesis using Some i assms
    by (simp only: consume_port_def option.case) (simp add: finish_views_ok)
qed (use assms in \<open>simp add: consume_port_def finish_views_ok\<close>)

lemma consume_ipv6_ok:
  assumes "views_ok full v" "command_of full v \<noteq> []"
  shows "ends (consume_ipv6 full v) (\<lambda>r. case r of None \<Rightarrow> True
    | Some (found, v') \<Rightarrow> if found then at_colon full v' else v' = v)"
proof (cases "hd (command_of full v) = CHR ''['' \<and> index_in (command_of full v) CHR '']'' \<noteq> None")
  case True
  then obtain i where i: "index_in (command_of full v) CHR '']'' = Some i" by auto
  let ?v = "\<lparr>ser_len = ser_len v + (i + 1), cmd_off = cmd_off v + (i + 1)\<rparr>"
  have "i < length (command_of full v)" using index_in_Some [OF i] by simp
  then have c: "consume full (i + 1) v = Done ?v" "views_ok full ?v"
    using consume_ok [OF assms(1), of "i + 1"] by auto
  have f: "consume_ipv6 full v = bindR (consume full (i + 1) v) (\<lambda>v.
              if command_of full v = [] then Done None
              else bindR (at (command_of full v) 0) (\<lambda>c.
                if c \<noteq> CHR '':'' then Done None
                else bindR (consume full 1 v) (\<lambda>v. Done (Some (True, v)))))"
  proof -
    have "at (command_of full v) 0 = Done (CHR ''['')" using True assms(2) by (simp add: hd_conv_nth)
    with i show ?thesis by (simp only: consume_ipv6_def bindR.simps option.case) simp
  qed
  show ?thesis
  proof (cases "command_of full ?v")
    case (Cons a r)
    moreover have "full ! (cmd_off v + (i + 1)) = a"
      using Cons nth_via_drop by (fastforce simp: command_of_def)
    ultimately show ?thesis using c consume_ok [OF c(2), of 1]
      by (simp add: f at_colon_def)
  qed (simp only: f c bindR.simps refl if_True ends_Done option.case)
next
  case False
  with assms(2) show ?thesis
    by (cases "command_of full v") (auto simp: consume_ipv6_def)
qed

lemma parse_address_ok:
  assumes "views_ok full v" "command_of full v \<noteq> []"
  shows "good_split full (parse_address full v)"
  unfolding parse_address_def
  by (rule good_split_bind [OF consume_ipv6_ok [OF assms]])
    (auto simp: consume_port_ok assms(1) intro!: good_split_bind [OF consume_colon_ok]
      split: option.splits bool.splits if_splits)

lemma parse_address_empty: "command_of full v = [] \<Longrightarrow> parse_address full v = Stop OutOfRange"
  by (simp add: parse_address_def consume_ipv6_def at_def)

lemma vsock_colon:
  assumes "views_ok full v" "StartsWith (command_of full v) ''vsock:''"
  shows "consume_colon full v = Done (Some \<lparr>ser_len = cmd_off v + 6, cmd_off = cmd_off v + 6\<rparr>)"
proof -
  obtain r where r: "command_of full v = ''vsock:'' @ r"
    using StartsWith_append [OF assms(2)] by blast
  then have "index_in (command_of full v) CHR '':'' = Some 5" by simp
  with assms(1) r show ?thesis
    by (simp only: consume_colon_def option.case) (simp add: consume_ok views_ok_def)
qed

text \<open>From the optional \<^verbatim>\<open>vsock:\<close> prefix on.\<close>

definition parse_tail :: "string \<Rightarrow> views \<Rightarrow> (string \<times> string) option run" where
  "parse_tail full v =
     bindR (if StartsWith (command_of full v) ''vsock:'' then consume_colon full v else Done (Some v)) (\<lambda>r.
       case r of None \<Rightarrow> Done None | Some v \<Rightarrow> parse_address full v)"

lemma parse_tail_ok:
  assumes "views_ok full v" "command_of full v \<noteq> []"
  shows "if command_of full v = ''vsock:'' then parse_tail full v = Stop OutOfRange
         else good_split full (parse_tail full v)"
proof (cases "StartsWith (command_of full v) ''vsock:''")
  case True
  then obtain r where r: "command_of full v = ''vsock:'' @ r"
    using StartsWith_append by blast
  let ?v = "\<lparr>ser_len = cmd_off v + 6, cmd_off = cmd_off v + 6\<rparr>"
  have "drop 6 (command_of full v) = r" using r by simp
  then have c: "command_of full ?v = r" by (simp add: command_of_def add.commute)
  have "length (command_of full v) = 6 + length r" using r by simp
  then have "views_ok full ?v" using assms(1) by (simp add: views_ok_def command_of_def)
  moreover have "parse_tail full v = parse_address full ?v"
    using True vsock_colon [OF assms(1) True] by (simp add: parse_tail_def)
  ultimately show ?thesis using c r parse_address_empty [of full ?v] parse_address_ok [of full ?v]
    by auto
next
  case False
  then have "command_of full v \<noteq> ''vsock:''" by (auto simp: StartsWith_def)
  with False parse_address_ok [OF assms] show ?thesis by (simp add: parse_tail_def)
qed

lemma parse_host_service_cases:
  "parse_host_service full =
     (if full = [] then Done None
      else (case find (StartsWith full) host_prefixes of
          Some pre \<Rightarrow> bindR (consume full (length pre) \<lparr>ser_len = 0, cmd_off = 0\<rparr>) (\<lambda>v.
            bindR (consume_colon full v) (\<lambda>r.
              case r of None \<Rightarrow> Done None | Some v \<Rightarrow> finish_views full v))
        | None \<Rightarrow>
            if StartsWith full ''tcp:'' \<or> StartsWith full ''udp:''
            then if length full \<le> 4 then Done None else parse_tail full \<lparr>ser_len = 4, cmd_off = 4\<rparr>
            else parse_tail full \<lparr>ser_len = 0, cmd_off = 0\<rparr>))"
proof -
  have "4 \<le> length full" if "StartsWith full ''tcp:'' \<or> StartsWith full ''udp:''"
    using that StartsWith_length [of full "''tcp:''"] StartsWith_length [of full "''udp:''"] by auto
  then show ?thesis
    by (simp add: parse_host_service_def parse_tail_def consume_ok views_ok_def command_of_def
        split: option.split)
qed

lemma parse_host_service_outcome:
  "if full \<in> {''vsock:'', ''tcp:vsock:'', ''udp:vsock:''} then parse_host_service full = Stop OutOfRange
   else good_split full (parse_host_service full)"
proof (cases "find (StartsWith full) host_prefixes")
  case None
  note c = parse_host_service_cases [of full, unfolded None, simplified]
  show ?thesis
  proof (cases "StartsWith full ''tcp:'' \<or> StartsWith full ''udp:''")
    case pre: True
    then obtain r where r: "full = ''tcp:'' @ r \<or> full = ''udp:'' @ r" using StartsWith_append by blast
    then have iff: "full \<in> {''vsock:'', ''tcp:vsock:'', ''udp:vsock:''} \<longleftrightarrow> drop 4 full = ''vsock:''"
      by (elim disjE) simp_all
    show ?thesis
    proof (cases "drop 4 full = []")
      case True
      moreover from this have "length full \<le> 4" by simp
      ultimately show ?thesis using c pre iff by (auto simp: good_split_def)
    next
      case False
      then have "views_ok full \<lparr>ser_len = 4, cmd_off = 4\<rparr>" by (simp add: views_ok_def)
      from parse_tail_ok [OF this] False iff c pre show ?thesis
        by (auto simp: command_of_def)
    qed
  next
    case False
    then have n: "full \<noteq> ''tcp:vsock:''" "full \<noteq> ''udp:vsock:''" by (auto simp: StartsWith_def)
    show ?thesis
    proof (cases "full = []")
      case ne: False
      have "parse_host_service full = parse_tail full \<lparr>ser_len = 0, cmd_off = 0\<rparr>"
        using c False ne by simp
      with n ne parse_tail_ok [of full "\<lparr>ser_len = 0, cmd_off = 0\<rparr>"] show ?thesis
        by (auto simp: command_of_def views_ok_def split: if_splits)
    qed (simp add: parse_host_service_def)
  qed
next
  case (Some pre)
  then have p: "StartsWith full pre" "pre \<in> set host_prefixes" by (auto simp: find_Some_iff)
  then have "length pre \<le> length full" by (simp add: StartsWith_length)
  note c = consume_ok [of full "\<lparr>ser_len = 0, cmd_off = 0\<rparr>" "length pre"]
  have "find (StartsWith x) host_prefixes = None" if "x \<in> {''vsock:'', ''tcp:vsock:'', ''udp:vsock:''}" for x
    using that by (elim insertE emptyE) (simp_all add: host_prefixes_def StartsWith_def)
  with Some have nv: "full \<notin> {''vsock:'', ''tcp:vsock:'', ''udp:vsock:''}" by fastforce
  have "good_split full (parse_host_service full)"
  proof (cases "full = []")
    case False
    with Some c \<open>length pre \<le> _\<close> have e: "parse_host_service full =
        bindR (consume_colon full \<lparr>ser_len = length pre, cmd_off = length pre\<rparr>) (\<lambda>r.
          case r of None \<Rightarrow> Done None | Some v \<Rightarrow> finish_views full v)"
      by (simp add: parse_host_service_cases command_of_def views_ok_def)
    show ?thesis unfolding e
      by (rule good_split_bind [OF consume_colon_ok])
        (use \<open>length pre \<le> _\<close> in \<open>auto simp: views_ok_def finish_views_ok split: option.splits\<close>)
  qed (simp add: parse_host_service_def good_split_def)
  with nv show ?thesis by simp
qed

lemma shift_or_digit:
  assumes "d < 16"
  shows "push_bit 4 (word_of_nat m) OR word_of_nat d = (word_of_nat (m * 16 + d) :: u32)"
proof -
  have "\<not> bit (push_bit 4 (word_of_nat m) :: u32) k \<or> \<not> bit (word_of_nat d :: u32) k" for k
  proof (cases "k < 4")
    case False
    then have "d < 2 ^ k" using assms power_increasing [of 4 k "2 :: nat"] by simp
    then have "\<not> bit d k" by (simp add: bit_iff_odd)
    then have "\<not> bit (word_of_nat d :: u32) k" by transfer (simp add: bit_take_bit_iff bit_of_nat_iff_bit)
    then show ?thesis by simp
  qed (simp add: bit_push_bit_iff)
  from disjunctive_add [OF this] show ?thesis by (simp add: push_bit_eq_mult mult.commute)
qed

lemma unhex_loop_value:
  "\<forall>c\<in>set s. is_digit_in 16 c \<Longrightarrow>
     unhex_loop (s @ rest) (length s) (word_of_nat m) = word_of_nat (foldl (\<lambda>v c. v * 16 + digit_value c) m s)"
proof (induction s arbitrary: m)
  case (Cons c s)
  then have "digit_value c < 16" by (simp add: is_digit_in_def)
  from Cons shift_or_digit [OF this, of m] show ?case by (simp del: of_nat_add of_nat_mult)
qed simp

lemma unhex_hex04: "n < 65536 \<Longrightarrow> unhex (hex04 n @ rest) 4 = word_of_nat n"
  using unhex_loop_value [OF hex04_digits [of n], of rest 0] hex04_value [of n]
  by (simp add: unhex_def length_hex04 of_base_def)

lemma unhex_loop_take: "unhex_loop (take n s) n v = unhex_loop s n v"
  by (induction s n v rule: unhex_loop.induct) auto

lemma unhex_take: "unhex (take n s) n = unhex s n"
  by (simp add: unhex_def unhex_loop_take)

lemma StartsWith_colon:
  assumes "CHR '':'' \<notin> set host" "CHR '':'' \<notin> set p"
  shows "StartsWith (host @ '':'' @ r) (p @ '':'') \<longleftrightarrow> host = p"
proof
  assume "StartsWith (host @ '':'' @ r) (p @ '':'')"
  from StartsWith_append [OF this] obtain t where "host @ '':'' @ r = p @ '':'' @ t" by auto
  then have "takeWhile (\<lambda>c. c \<noteq> CHR '':'') (host @ '':'' @ r) = takeWhile (\<lambda>c. c \<noteq> CHR '':'') (p @ '':'' @ t)"
    by simp
  moreover have "takeWhile (\<lambda>c. c \<noteq> CHR '':'') (x @ '':'' @ y) = x" if "CHR '':'' \<notin> set x" for x y
    using that by (subst takeWhile_append2) auto
  ultimately show "host = p" using assms by simp
qed (simp add: StartsWith_def)

lemma plain_host:
  assumes "CHR '':'' \<notin> set host"
    and "host \<notin> {''usb'', ''product'', ''model'', ''device'', ''localfilesystem'', ''tcp'', ''udp'', ''vsock''}"
  shows "parse_host_service (host @ '':'' @ r) = parse_address (host @ '':'' @ r) \<lparr>ser_len = 0, cmd_off = 0\<rparr>"
proof -
  have n: "\<not> StartsWith (host @ '':'' @ r) (p @ '':'')"
    if "p \<in> {''usb'', ''product'', ''model'', ''device'', ''localfilesystem'', ''tcp'', ''udp'', ''vsock''}" for p
    using that assms StartsWith_colon [OF assms(1), of p r] by auto
  from n have "find (StartsWith (host @ '':'' @ r)) host_prefixes = None"
    using n [of "''usb''"] n [of "''product''"] n [of "''model''"] n [of "''device''"]
      n [of "''localfilesystem''"] by (simp add: host_prefixes_def)
  moreover have "\<not> StartsWith (host @ '':'' @ r) ''tcp:''" "\<not> StartsWith (host @ '':'' @ r) ''udp:''"
      "\<not> StartsWith (host @ '':'' @ r) ''vsock:''"
    using n [of "''tcp''"] n [of "''udp''"] n [of "''vsock''"] by simp_all
  ultimately show ?thesis by (simp add: parse_host_service_cases parse_tail_def command_of_def)
qed

text \<open>A host that is no keyword and no IPv6 address: the serial is the host, and the port if one follows.\<close>

lemma plain_host_port:
  assumes "host \<noteq> []" "CHR '':'' \<notin> set host" "hd host \<noteq> CHR ''[''"
    and "host \<notin> {''usb'', ''product'', ''model'', ''device'', ''localfilesystem'', ''tcp'', ''udp'', ''vsock''}"
  shows "parse_host_service (host @ '':'' @ r) = consume_port (host @ '':'' @ r) \<lparr>ser_len = length host + 1, cmd_off = length host + 1\<rparr>"
proof -
  let ?full = "host @ '':'' @ r"
  let ?n = "length host + 1"
  have v6: "consume_ipv6 ?full \<lparr>ser_len = 0, cmd_off = 0\<rparr> = Done (Some (False, \<lparr>ser_len = 0, cmd_off = 0\<rparr>))"
    using assms(1,3) by (cases host) (simp_all add: consume_ipv6_def command_of_def)
  have colon: "consume_colon ?full \<lparr>ser_len = 0, cmd_off = 0\<rparr> = Done (Some \<lparr>ser_len = ?n, cmd_off = ?n\<rparr>)"
    using index_in_first [OF assms(2), of r] by (simp add: consume_colon_def command_of_def consume_def serial_of_def)
  show ?thesis
    by (simp only: plain_host [OF assms(2,4)] parse_address_def v6 colon bindR.simps option.case prod.case bool.case)
qed

lemma split_network_serial:
  assumes "host \<noteq> []" "CHR '':'' \<notin> set host" "hd host \<noteq> CHR ''[''"
    and "host \<notin> {''usb'', ''product'', ''model'', ''device'', ''localfilesystem'', ''tcp'', ''udp'', ''vsock''}"
    and "port \<noteq> []" "\<forall>c\<in>set port. is_digit_in 10 c" "command \<noteq> []"
  shows "parse_host_service (host @ '':'' @ port @ '':'' @ command) = Done (Some (host @ '':'' @ port, command))"
proof -
  let ?full = "host @ '':'' @ port @ '':'' @ command"
  let ?n = "length host + 1" and ?m = "length host + length port + 2"
  have port: "CHR '':'' \<notin> set port" using assms(6) by (auto simp: is_digit_in_def digit_value_def)
  have "consume_port ?full \<lparr>ser_len = ?n, cmd_off = ?n\<rparr> = finish_views ?full \<lparr>ser_len = ?m, cmd_off = ?m\<rparr>"
    using index_in_first [OF port, of command] assms(6)
    by (simp add: consume_port_def command_of_def consume_def)
  moreover have "finish_views ?full \<lparr>ser_len = ?m, cmd_off = ?m\<rparr> = Done (Some (host @ '':'' @ port, command))"
    using assms(7) by (simp add: finish_views_def serial_of_def command_of_def butlast_append)
  ultimately show ?thesis using plain_host_port [OF assms(1-4), of "port @ '':'' @ command"] by simp
qed

text \<open>A serial without colons, before a command that does not start with a number and a colon.\<close>

lemma split_plain_serial:
  assumes "host \<noteq> []" "CHR '':'' \<notin> set host" "hd host \<noteq> CHR ''[''"
    and "host \<notin> {''usb'', ''product'', ''model'', ''device'', ''localfilesystem'', ''tcp'', ''udp'', ''vsock''}"
    and "command \<noteq> []" "\<not> is_digit_in 10 (hd command)" "hd command \<noteq> CHR '':''"
  shows "parse_host_service (host @ '':'' @ command) = Done (Some (host, command))"
proof -
  let ?full = "host @ '':'' @ command"
  let ?v = "\<lparr>ser_len = length host + 1, cmd_off = length host + 1\<rparr>"
  have cmd: "command_of ?full ?v = command" by (simp add: command_of_def)
  have fin: "finish_views ?full ?v = Done (Some (host, command))"
    using assms(5) by (simp add: finish_views_def serial_of_def command_of_def)
  have "consume_port ?full ?v = finish_views ?full ?v"
  proof (cases "index_in command CHR '':''")
    case None
    then show ?thesis by (simp only: consume_port_def cmd option.case)
  next
    case (Some k)
    then have k: "k < length command" "command ! k = CHR '':''" using index_in_Some by blast+
    then have "0 < k" using assms(5,7) by (cases k) (auto simp: hd_conv_nth)
    then have "hd command \<in> set (take k command)" using assms(5) by (cases command; cases k) auto
    with assms(6) Some k(1) show ?thesis by (auto simp: consume_port_def command_of_def)
  qed
  then show ?thesis using plain_host_port [OF assms(1-4), of command] fin by simp
qed

section \<open>Properties\<close>

text \<open>
  C28: \<^verbatim>\<open>parse_host_service\<close> never fails one of its \<^verbatim>\<open>CHECK\<close>s, and when it accepts a request, serial, a
  colon and a non-empty command put together are the request.  It reads past the end of its input
  exactly for the three requests that end right after \<^verbatim>\<open>vsock:\<close>.
\<close>

theorem parse_host_service_splits:
  "(case parse_host_service full of
      Done None \<Rightarrow> True
    | Done (Some (serial, command)) \<Rightarrow> full = serial @ '':'' @ command \<and> command \<noteq> []
    | Stop e \<Rightarrow> e = OutOfRange \<and> full \<in> {''vsock:'', ''tcp:vsock:'', ''udp:vsock:''})
   \<and> (full \<in> {''vsock:'', ''tcp:vsock:'', ''udp:vsock:''} \<longleftrightarrow> parse_host_service full = Stop OutOfRange)"
  using parse_host_service_outcome [of full]
  by (auto simp: good_split_def ends_def split: if_splits option.splits run.splits)

end
