(* ===== verification/Socket_Spec.thy ===== *)
theory Socket_Spec
  imports Host_Service
begin

text \<open>
  Socket specifications (\<^verbatim>\<open>adb/socket_spec.cpp\<close>): which texts name a socket, and how they are turned
  into connections and listening sockets.  What the system calls answer is the parameter \<open>net\<close>.
  A \<^verbatim>\<open>string_view\<close> handed to a function that takes a C string is taken as NUL-terminated behind its
  end, as the buffers of the callers are.
\<close>

section \<open>Data\<close>

datatype socket_namespace =
    ANDROID_SOCKET_NAMESPACE_ABSTRACT
  | ANDROID_SOCKET_NAMESPACE_RESERVED
  | ANDROID_SOCKET_NAMESPACE_FILESYSTEM

text \<open>\<^verbatim>\<open>kLocalSocketTypes\<close> on a Linux host: the name, its namespace, and whether it is available.\<close>

definition kLocalSocketTypes :: "(string \<times> socket_namespace \<times> bool) list" where
  "kLocalSocketTypes =
     [(''local'', ANDROID_SOCKET_NAMESPACE_FILESYSTEM, True),
      (''localreserved'', ANDROID_SOCKET_NAMESPACE_RESERVED, False),
      (''localabstract'', ANDROID_SOCKET_NAMESPACE_ABSTRACT, True),
      (''localfilesystem'', ANDROID_SOCKET_NAMESPACE_FILESYSTEM, True)]"

text \<open>The entry whose name and a colon start the text.  No two names can both do so.\<close>

definition local_socket_type :: "string \<Rightarrow> (string \<times> socket_namespace \<times> bool) option" where
  "local_socket_type spec = find (\<lambda>(name, ns, available). StartsWith spec (name @ '':'')) kLocalSocketTypes"

text \<open>
  The operating system: each function gives the error text or the new descriptor.  The last ones
  are \<^verbatim>\<open>socket(AF_VSOCK)\<close>, \<^verbatim>\<open>connect\<close> on it, \<^verbatim>\<open>bind\<close> with \<^verbatim>\<open>listen\<close> and \<^verbatim>\<open>getsockname\<close> (\<open>None\<close> if one of
  them fails), and for inherited descriptors whether \<^verbatim>\<open>FD_CLOEXEC\<close> is set, whether
  \<^verbatim>\<open>getsockopt(SO_TYPE)\<close> succeeds, and the duplicate.
\<close>

record net =
  network_loopback_client :: "int \<Rightarrow> string + nat"
  network_connect :: "string \<Rightarrow> int \<Rightarrow> string + nat"
  network_local_client :: "string \<Rightarrow> socket_namespace \<Rightarrow> string + nat"
  network_inaddr_any_server :: "int \<Rightarrow> string + nat"
  network_loopback_server :: "int \<Rightarrow> bool \<Rightarrow> string + nat"
  network_local_server :: "string \<Rightarrow> socket_namespace \<Rightarrow> string + nat"
  adb_socket_get_local_port :: "nat \<Rightarrow> int"
  vsock_socket :: "string + nat"
  vsock_connect :: "nat \<Rightarrow> u32 \<Rightarrow> u32 \<Rightarrow> bool"
  vsock_bind_listen :: "nat \<Rightarrow> int \<Rightarrow> int option"
  fd_cloexec_flag :: "nat \<Rightarrow> string + bool"
  fd_is_socket :: "nat \<Rightarrow> bool"
  fd_dup :: "nat \<Rightarrow> string + nat"

definition DEFAULT_ADB_LOCAL_TRANSPORT_PORT :: int where
  "DEFAULT_ADB_LOCAL_TRANSPORT_PORT = 5555"

section \<open>Parsing\<close>

text \<open>
  \<^verbatim>\<open>parse_tcp_socket_spec\<close>: the error text, or host name, port and the canonical serial (set only
  when the address is parsed by \<^const>\<open>ParseNetAddress\<close>).
\<close>

definition parse_tcp_socket_spec :: "string \<Rightarrow> string + (string \<times> int \<times> string option)" where
  "parse_tcp_socket_spec spec =
     (if \<not> StartsWith spec ''tcp:'' then Inl (''specification is not tcp: '' @ spec)
      else (case ParseInt (drop 4 spec) INT_MIN INT_MAX of
          Some port_value \<Rightarrow>
            if port_value < 0 \<or> port_value > 65535
            then Inl (''bad port number '' @ quoted (dec_int port_value))
            else Inr ([], port_value, None)
        | None \<Rightarrow>
            (case ParseNetAddress (drop 4 spec) DEFAULT_ADB_LOCAL_TRANSPORT_PORT of
               Inl err \<Rightarrow> Inl err
             | Inr (hostname, port, serial) \<Rightarrow> Inr (hostname, port, Some serial))))"

definition get_host_socket_spec_port :: "string \<Rightarrow> (string + int) run" where
  "get_host_socket_spec_port spec =
     (if StartsWith spec ''tcp:'' then
        Done (case parse_tcp_socket_spec spec of Inl err \<Rightarrow> Inl err | Inr (h, port, s) \<Rightarrow> Inr port)
      else if StartsWith spec ''vsock:'' then
        bindR (Split spec '':'') (\<lambda>fragments.
          if length fragments \<noteq> 2 then Done (Inl ''given vsock server socket string was invalid'')
          else Done (case ParseInt (fragments ! 1) INT_MIN INT_MAX of
                 None \<Rightarrow> Inl ''could not parse vsock port''
               | Some port \<Rightarrow> if port < 0 then Inl ''vsock port was negative.'' else Inr port))
      else Done (Inl ''given socket spec string was invalid''))"

definition tcp_host_is_local :: "string \<Rightarrow> bool" where
  "tcp_host_is_local hostname \<longleftrightarrow> hostname = [] \<or> hostname = ''localhost''"

definition is_socket_spec :: "string \<Rightarrow> bool" where
  "is_socket_spec spec \<longleftrightarrow>
     local_socket_type spec \<noteq> None \<or>
     StartsWith spec ''tcp:'' \<or> StartsWith spec ''acceptfd:'' \<or> StartsWith spec ''vsock:''"

definition is_local_socket_spec :: "string \<Rightarrow> bool" where
  "is_local_socket_spec spec \<longleftrightarrow>
     local_socket_type spec \<noteq> None \<or>
     (case parse_tcp_socket_spec spec of
        Inl err \<Rightarrow> False
      | Inr (hostname, port, serial) \<Rightarrow> tcp_host_is_local hostname)"

section \<open>Connecting\<close>

text \<open>
  The outcome of \<^verbatim>\<open>socket_spec_connect\<close>: what it returns, and what it leaves in \<^verbatim>\<open>*fd\<close> (\<open>None\<close> for no
  descriptor), \<^verbatim>\<open>*port\<close>, \<^verbatim>\<open>*serial\<close> and \<^verbatim>\<open>*error\<close>; \<open>None\<close> and the empty text stand for untouched.
\<close>

record spec_result =
  sr_ok :: bool
  sr_fd :: "nat option"
  sr_port :: "int option"
  sr_serial :: "string option"
  sr_error :: string

definition spec_fail :: "string \<Rightarrow> spec_result" where
  "spec_fail err = \<lparr>sr_ok = False, sr_fd = None, sr_port = None, sr_serial = None, sr_error = err\<rparr>"

definition connect_tcp :: "net \<Rightarrow> string \<Rightarrow> spec_result" where
  "connect_tcp n address =
     (case parse_tcp_socket_spec address of
        Inl err \<Rightarrow> spec_fail err
      | Inr (hostname, port_value, serial) \<Rightarrow>
          (case (if tcp_host_is_local hostname then network_loopback_client n port_value
                 else network_connect n hostname port_value) of
             Inl err \<Rightarrow> (spec_fail err)\<lparr>sr_serial := serial\<rparr>
           | Inr fd \<Rightarrow>
               if fd > 0
               then \<lparr>sr_ok = True, sr_fd = Some fd, sr_port = Some port_value, sr_serial = serial, sr_error = []\<rparr>
               else \<lparr>sr_ok = False, sr_fd = Some fd, sr_port = None, sr_serial = serial, sr_error = []\<rparr>))"

definition UINT_MAX :: nat where
  "UINT_MAX = 4294967295"

text \<open>\<open>port0\<close> is \<^verbatim>\<open>*port\<close> on entry, 0 if the caller passed no pointer.\<close>

definition connect_vsock :: "net \<Rightarrow> string \<Rightarrow> u32 \<Rightarrow> spec_result run" where
  "connect_vsock n address port0 =
     bindR (Split address '':'') (\<lambda>fragments. Done (
       if length fragments \<noteq> 2 \<and> length fragments \<noteq> 3
       then spec_fail (''expected vsock:cid or vsock:cid:port in '' @ quoted (c_str address))
       else (case ParseUint (fragments ! 1) UINT_MAX False of
          None \<Rightarrow> spec_fail (''could not parse vsock cid in '' @ quoted (c_str address))
        | Some cid \<Rightarrow>
            (case (if length fragments = 3 then ParseUint (fragments ! 2) UINT_MAX False
                   else Some (unat port0)) of
               None \<Rightarrow> spec_fail (''could not parse vsock port in '' @ quoted (c_str address))
             | Some port_value \<Rightarrow>
                 if port_value = 0 then spec_fail ''vsock port was not provided.''
                 else (case vsock_socket n of
                    Inl err \<Rightarrow> spec_fail ''could not open vsock socket''
                  | Inr fd \<Rightarrow>
                      let serial = ''vsock:'' @ dec cid @ '':'' @ dec_int (sint (word_of_nat port_value :: u32))
                      in if \<not> vsock_connect n fd (word_of_nat port_value) (word_of_nat cid)
                         then \<lparr>sr_ok = False, sr_fd = Some fd, sr_port = None, sr_serial = Some serial,
                               sr_error = ''could not connect to vsock address '' @ quoted (c_str address)\<rparr>
                         else \<lparr>sr_ok = True, sr_fd = Some fd, sr_port = Some (sint (word_of_nat port_value :: u32)),
                               sr_serial = Some serial, sr_error = []\<rparr>)))))"

definition connect_local :: "net \<Rightarrow> string \<Rightarrow> spec_result" where
  "connect_local n address =
     (case local_socket_type address of
        None \<Rightarrow> spec_fail (''unknown socket specification: '' @ address)
      | Some (name, ns, available) \<Rightarrow>
          if \<not> available then spec_fail (''socket type '' @ name @ '' is unavailable on this platform'')
          else (case network_local_client n (c_str (drop (length name + 1) address)) ns of
             Inl err \<Rightarrow> spec_fail (''could not connect to '' @ name @ '' address '' @ quoted (c_str address))
           | Inr fd \<Rightarrow>
               \<lparr>sr_ok = True, sr_fd = Some fd, sr_port = None, sr_serial = Some address, sr_error = []\<rparr>))"

definition socket_spec_connect :: "net \<Rightarrow> string \<Rightarrow> u32 \<Rightarrow> spec_result run" where
  "socket_spec_connect n address port0 =
     (if StartsWith address ''tcp:'' then Done (connect_tcp n address)
      else if StartsWith address ''vsock:'' then connect_vsock n address port0
      else if StartsWith address ''acceptfd:'' then Done (spec_fail ''cannot connect to acceptfd'')
      else Done (connect_local n address))"

section \<open>Listening\<close>

text \<open>
  \<^verbatim>\<open>socket_spec_listen\<close>: the error text, or the descriptor and the resolved port (0 if there is none).
  \<open>listen_all\<close> is \<^verbatim>\<open>gListenAll\<close>.
\<close>

definition listen_tcp :: "net \<Rightarrow> bool \<Rightarrow> string \<Rightarrow> string + (nat \<times> int)" where
  "listen_tcp n listen_all spec =
     (case parse_tcp_socket_spec spec of
        Inl err \<Rightarrow> Inl err
      | Inr (hostname, port, serial) \<Rightarrow>
          (case (if hostname = [] \<and> listen_all then network_inaddr_any_server n port
                 else if tcp_host_is_local hostname then network_loopback_server n port True
                 else if hostname = ''::1'' then network_loopback_server n port False
                 else Inl ''listening on specified hostname currently unsupported'') of
             Inl err \<Rightarrow> Inl err
           | Inr fd \<Rightarrow> Inr (fd, adb_socket_get_local_port n fd)))"

definition listen_vsock :: "net \<Rightarrow> string \<Rightarrow> (string + (nat \<times> int)) run" where
  "listen_vsock n spec =
     bindR (Split spec '':'') (\<lambda>fragments. Done (
       if length fragments \<noteq> 2 then Inl ''given vsock server socket string was invalid''
       else (case ParseInt (fragments ! 1) INT_MIN INT_MAX of
          None \<Rightarrow> Inl ''could not parse vsock port''
        | Some port \<Rightarrow>
            if port < 0 then Inl ''vsock port was negative.''
            else (case vsock_socket n of
               Inl err \<Rightarrow> Inl (''could not create vsock server: '' @ quoted err)
             | Inr fd \<Rightarrow> (case vsock_bind_listen n fd port of
                  None \<Rightarrow> Inl []
                | Some resolved \<Rightarrow> Inr (fd, resolved))))))"

definition listen_inherited :: "net \<Rightarrow> string \<Rightarrow> string + (nat \<times> int)" where
  "listen_inherited n rest =
     (case ParseUint_all (UINT_MAX + 1) rest of
        None \<Rightarrow> Inl ''invalid fd''
      | Some fd \<Rightarrow>
          if int fd > INT_MAX then Inl ''invalid fd''
          else (case fd_cloexec_flag n fd of
             Inl err \<Rightarrow> Inl (''could not get flags of inherited fd '' @ dec fd @ '': '' @ quoted err)
           | Inr True \<Rightarrow> Inl (''fd '' @ dec fd @ '' was not inherited from parent'')
           | Inr False \<Rightarrow>
               if \<not> fd_is_socket n fd then Inl (''fd '' @ dec fd @ '' does not refer to a socket'')
               else (case fd_dup n fd of
                  Inl err \<Rightarrow> Inl (''could not dup inherited fd '' @ dec fd @ '': '' @ quoted err)
                | Inr new_fd \<Rightarrow> Inr (new_fd, 0))))"

definition socket_spec_listen :: "net \<Rightarrow> bool \<Rightarrow> string \<Rightarrow> (string + (nat \<times> int)) run" where
  "socket_spec_listen n listen_all spec =
     (if StartsWith spec ''tcp:'' then Done (listen_tcp n listen_all spec)
      else if StartsWith spec ''vsock:'' then listen_vsock n spec
      else (case ConsumePrefix spec ''acceptfd:'' of
         Some rest \<Rightarrow>
           Done (listen_inherited n rest)
       | None \<Rightarrow>
           Done (case local_socket_type spec of
              None \<Rightarrow> Inl (''unknown socket specification:'' @ spec)
            | Some (name, ns, available) \<Rightarrow>
                if \<not> available then Inl (''attempted to listen on unavailable socket type: '' @ spec)
                else (case network_local_server n (c_str (drop (length name + 1) spec)) ns of
                   Inl err \<Rightarrow> Inl err
                 | Inr fd \<Rightarrow> Inr (fd, 0)))))"

section \<open>Lemmas and properties\<close>

lemma ParseInt_int_range:
  "INT_MIN \<le> p \<Longrightarrow> p \<le> INT_MAX \<Longrightarrow> ParseInt (dec_int p) INT_MIN INT_MAX = Some p"
  by (subst ParseInt_dec_int) (auto simp: INT_MIN_def INT_MAX_def)

text \<open>
  Of all the numbers an \<^verbatim>\<open>int\<close> can hold, exactly 0 to 65535 are accepted as the port of \<^verbatim>\<open>tcp:<port>\<close>,
  with no host; such a specification is local and names a socket.
\<close>

lemma tcp_port_bounds:
  assumes "INT_MIN \<le> p" "p \<le> INT_MAX"
  shows "parse_tcp_socket_spec (''tcp:'' @ dec_int p) =
      (if 0 \<le> p \<and> p \<le> 65535 then Inr ([], p, None) else Inl (''bad port number '' @ quoted (dec_int p)))
    \<and> is_socket_spec (''tcp:'' @ dec_int p)
    \<and> (is_local_socket_spec (''tcp:'' @ dec_int p) \<longleftrightarrow> 0 \<le> p \<and> p \<le> 65535)"
proof -
  have "StartsWith (''tcp:'' @ dec_int p) ''tcp:''" by (simp add: StartsWith_def)
  moreover have "local_socket_type (''tcp:'' @ dec_int p) = None"
    by (simp add: local_socket_type_def kLocalSocketTypes_def StartsWith_def)
  ultimately show ?thesis using ParseInt_int_range [OF assms]
    by (auto simp: parse_tcp_socket_spec_def is_socket_spec_def is_local_socket_spec_def tcp_host_is_local_def)
qed

end
