(* ===== verification/World.thy ===== *)
theory World
  imports Transport IO_Vector Fdevent Socket_Spec
begin

text \<open>
  The state of the server process: the heap of sockets (\<^verbatim>\<open>asocket\<close> of \<^verbatim>\<open>adb/socket.h\<close>, with the
  extra fields of a \<^verbatim>\<open>device_tracker\<close>), the global lists of \<^verbatim>\<open>adb/sockets.cpp\<close>, \<^verbatim>\<open>adb/transport.cpp\<close> and
  \<^verbatim>\<open>adb/adb_listeners.cpp\<close>, the heap of transports, the descriptors, the event loop's context and
  the queue of functions waiting for the looper thread.  All of it is touched by the looper thread
  only, so a computation is a function on this state that may stop the process.

  A pointer is a natural number, a null pointer \<open>None\<close>; using one that is not in the heap is
  \<^const>\<open>BadAccess\<close>.  The function pointers of a socket are constructors, one for each function the
  code ever stores there.
\<close>

section \<open>Sockets\<close>

datatype enqueue_fn = EnqueueLocal | EnqueueRemote | EnqueueSmart | EnqueueTracker
datatype ready_fn = ReadyLocal | ReadyNotify | ReadyRemote | ReadySmart | ReadyTracker
datatype shutdown_fn = ShutdownRemote
datatype close_fn = CloseLocal | CloseNotify | CloseRemote | CloseSmart | CloseTracker

record asocket =
  so_id :: u32
  so_closing :: bool
  so_has_write_error :: bool
  so_exit_on_close :: bool
  so_peer :: "nat option"
  so_enqueue :: enqueue_fn
  so_ready :: ready_fn
  so_shutdown :: "shutdown_fn option"
  so_close :: close_fn
  so_transport :: "nat option"
  so_fde :: "nat option"
  so_fd :: "nat option"
  so_packet_queue :: iovector
  so_available_send_bytes :: "int option"
  so_smart_socket_data :: string
  so_update_needed :: bool
  so_output_type :: tracker_output

definition new_asocket :: "enqueue_fn \<Rightarrow> ready_fn \<Rightarrow> shutdown_fn option \<Rightarrow> close_fn \<Rightarrow> asocket" where
  "new_asocket en rd sh cl =
     \<lparr>so_id = 0, so_closing = False, so_has_write_error = False, so_exit_on_close = False, so_peer = None,
      so_enqueue = en, so_ready = rd, so_shutdown = sh, so_close = cl, so_transport = None, so_fde = None,
      so_fd = None, so_packet_queue = empty_iov, so_available_send_bytes = None,
      so_smart_socket_data = [], so_update_needed = False, so_output_type = SHORT_TEXT\<rparr>"

section \<open>The rest of the process\<close>

text \<open>Whose callback an event has: a local socket's, a draining descriptor's with its start time, a listener's.\<close>

datatype fde_owner_t =
    SocketEvent nat
  | DrainEvent int
  | ListenerEvent nat
  | SmartListenerEvent nat

text \<open>The listeners of \<^verbatim>\<open>adb/adb_listeners.cpp\<close>; one with the name of \<open>kSmartSocketConnectTo\<close> is a smart socket.\<close>

definition kSmartSocketConnectTo :: string where
  "kSmartSocketConnectTo = ''*smartsocket*''"

record alistener =
  l_fde :: "nat option"
  l_local_name :: string
  l_connect_to :: string
  l_transport :: "nat option"

text \<open>A descriptor: what reads and writes will meet, and what was written.\<close>

record fd_io =
  io_in :: "rd_event list"
  io_out :: "wr_event list"
  io_log :: string

text \<open>Functions queued for the looper thread by \<^verbatim>\<open>fdevent_run_on_looper\<close>.\<close>

datatype looper_task =
    RunRegister nat
  | RunUnregister nat
  | RunHandlePacket apacket nat
  | RunHandleError nat

text \<open>A transport waiting to be reconnected, with the time of the next attempt and the attempts left after it.\<close>

record reconnect_attempt =
  ra_transport :: nat
  ra_time :: int
  ra_left :: nat

text \<open>Threads that were started, with their arguments.\<close>

datatype thread =
    WaitThread nat string nat string
  | ConnectThread nat string
  | PairThread nat string string
  | TlsThread nat

text \<open>
  What is fixed from outside: the environment, the answers of the network to the calls in turn, whether libusb is used, the protobuf
  encoders, the user's keys with their signing function, what \<^verbatim>\<open>Connection::Attach\<close> and \<^verbatim>\<open>Detach\<close>
  answer for a transport (an error text if they fail), the serialised server status and the
  environment variable \<^verbatim>\<open>ADBHOST\<close>.
\<close>

record config =
  c_env :: env
  c_net :: "nat \<Rightarrow> net"
  c_listen_all :: bool
  c_libusb_enabled :: bool
  c_start_detached :: bool
  c_to_proto :: "atransport list \<Rightarrow> bool \<Rightarrow> string"
  c_private_keys :: "nat list"
  c_sign :: "nat \<Rightarrow> string \<Rightarrow> string"
  c_userkey :: string
  c_attach :: "nat \<Rightarrow> string option"
  c_detach :: "nat \<Rightarrow> string option"
  c_server_status :: string
  c_adbhost :: "string option"

record world =
  w_sock :: "nat \<Rightarrow> asocket option"
  w_next_sock :: nat
  local_socket_list :: "nat list"
  local_socket_closing_list :: "nat list"
  local_socket_next_id :: u32
  w_io :: "nat \<Rightarrow> fd_io"
  w_context :: "fde_owner_t fdevent_context"
  w_transport :: "nat \<Rightarrow> atransport option"
  transport_list :: "nat list"
  pending_list :: "nat list"
  device_tracker_list :: "nat list"
  listener_list :: "(nat \<times> alistener) list"
  w_next_listener :: nat
  run_queue :: "looper_task list"
  reconnect_queue :: "reconnect_attempt list"
  reconnect_running :: bool
  local_transports :: "(int \<times> nat) list"
  retry_ports :: "(int \<times> u32) list"
  w_next_transport :: nat
  w_threads :: "thread list"
  transports_ready :: bool
  device_scan_complete :: bool
  reject_kill_server :: bool
  w_new_fds :: "nat option list"
  w_net_calls :: nat
  w_now :: int
  w_config :: config

section \<open>Computations on the state\<close>

type_synonym 'a act = "world \<Rightarrow> ('a \<times> world) run"

definition retA :: "'a \<Rightarrow> 'a act" where
  "retA x w = Done (x, w)"

definition stopA :: "stop \<Rightarrow> 'a act" where
  "stopA e w = Stop e"

definition bindA :: "'a act \<Rightarrow> ('a \<Rightarrow> 'b act) \<Rightarrow> 'b act" where
  "bindA m f w = bindR (m w) (\<lambda>(x, w'). f x w')"

definition thenA :: "'a act \<Rightarrow> 'b act \<Rightarrow> 'b act" where
  "thenA m n = bindA m (\<lambda>_. n)"

definition getA :: "(world \<Rightarrow> 'a) \<Rightarrow> 'a act" where
  "getA f w = Done (f w, w)"

definition modA :: "(world \<Rightarrow> world) \<Rightarrow> unit act" where
  "modA f w = Done ((), f w)"

definition liftA :: "'a run \<Rightarrow> 'a act" where
  "liftA r w = bindR r (\<lambda>x. Done (x, w))"

definition whenA :: "bool \<Rightarrow> unit act \<Rightarrow> unit act" where
  "whenA b m = (if b then m else retA ())"

definition checkA :: "bool \<Rightarrow> unit act" where
  "checkA b = liftA (checkR b)"

primrec forA :: "('a \<Rightarrow> unit act) \<Rightarrow> 'a list \<Rightarrow> unit act" where
  "forA f [] = retA ()"
| "forA f (x # xs) = thenA (f x) (forA f xs)"

text \<open>Following a pointer that may be null.\<close>

definition derefp :: "nat option \<Rightarrow> nat act" where
  "derefp p = (case p of None \<Rightarrow> stopA BadAccess | Some r \<Rightarrow> retA r)"

definition deref_sock :: "nat \<Rightarrow> asocket act" where
  "deref_sock s w = (case w_sock w s of None \<Rightarrow> Stop BadAccess | Some so \<Rightarrow> Done (so, w))"

definition mod_sock :: "nat \<Rightarrow> (asocket \<Rightarrow> asocket) \<Rightarrow> unit act" where
  "mod_sock s f w =
     (case w_sock w s of
        None \<Rightarrow> Stop BadAccess
      | Some so \<Rightarrow> Done ((), w\<lparr>w_sock := (w_sock w)(s \<mapsto> f so)\<rparr>))"

definition new_sock :: "asocket \<Rightarrow> nat act" where
  "new_sock so w =
     Done (w_next_sock w, w\<lparr>w_sock := (w_sock w)(w_next_sock w \<mapsto> so), w_next_sock := Suc (w_next_sock w)\<rparr>)"

definition delete_sock :: "nat \<Rightarrow> unit act" where
  "delete_sock s w =
     (case w_sock w s of None \<Rightarrow> Stop BadAccess | Some so \<Rightarrow> Done ((), w\<lparr>w_sock := (w_sock w)(s := None)\<rparr>))"

definition deref_tr :: "nat \<Rightarrow> atransport act" where
  "deref_tr t w = (case w_transport w t of None \<Rightarrow> Stop BadAccess | Some tr \<Rightarrow> Done (tr, w))"

definition mod_tr :: "nat \<Rightarrow> (atransport \<Rightarrow> atransport) \<Rightarrow> unit act" where
  "mod_tr t f w =
     (case w_transport w t of
        None \<Rightarrow> Stop BadAccess
      | Some tr \<Rightarrow> Done ((), w\<lparr>w_transport := (w_transport w)(t \<mapsto> f tr)\<rparr>))"

text \<open>The event loop's operations on the context inside the state; \<open>fde\<close> is an \<^verbatim>\<open>fdevent*\<close>.\<close>

definition on_context :: "(fde_owner_t fdevent_context \<Rightarrow> fde_owner_t fdevent_context run) \<Rightarrow> unit act" where
  "on_context f w = bindR (f (w_context w)) (\<lambda>c. Done ((), w\<lparr>w_context := c\<rparr>))"

definition fdevent_addA :: "nat option \<Rightarrow> fde_flag set \<Rightarrow> unit act" where
  "fdevent_addA fde ev = bindA (derefp fde) (\<lambda>fd. on_context (fdevent_add fd ev))"

definition fdevent_delA :: "nat option \<Rightarrow> fde_flag set \<Rightarrow> unit act" where
  "fdevent_delA fde ev = bindA (derefp fde) (\<lambda>fd. on_context (fdevent_del fd ev))"

text \<open>Writing with \<^const>\<open>WriteFdExactly\<close> and its relatives on a descriptor; an invalid one gives an error.\<close>

definition write_fd :: "nat option \<Rightarrow> (wr_event list \<Rightarrow> bool \<times> string \<times> wr_event list) \<Rightarrow> bool act" where
  "write_fd fd f w =
     (case fd of
        None \<Rightarrow> Done (False, w)
      | Some n \<Rightarrow>
          (case f (io_out (w_io w n)) of (ok, out, es) \<Rightarrow>
             Done (ok, w\<lparr>w_io := (w_io w)(n := (w_io w n)\<lparr>io_out := es, io_log := io_log (w_io w n) @ out\<rparr>)\<rparr>)))"

definition SendOkayA :: "nat option \<Rightarrow> unit act" where
  "SendOkayA fd = bindA (write_fd fd SendOkay) (\<lambda>_. retA ())"

definition SendFailA :: "nat option \<Rightarrow> string \<Rightarrow> unit act" where
  "SendFailA fd reason = bindA (write_fd fd (\<lambda>es. SendFail es reason)) (\<lambda>_. retA ())"

definition SendProtocolStringA :: "nat option \<Rightarrow> string \<Rightarrow> unit act" where
  "SendProtocolStringA fd s = bindA (write_fd fd (\<lambda>es. SendProtocolString es s)) (\<lambda>_. retA ())"

text \<open>
  \<^verbatim>\<open>adb_writev\<close>: the kernel takes at most \<open>0x7ffff000\<close> bytes in one call.
\<close>

definition MAX_RW_COUNT :: nat where
  "MAX_RW_COUNT = 0x7ffff000"

definition adb_writev :: "nat option \<Rightarrow> string list \<Rightarrow> wr_result act" where
  "adb_writev fd iov w =
     (case fd of
        None \<Rightarrow> Done (WrErr (EOTHER 9), w)
      | Some n \<Rightarrow>
          let p = take MAX_RW_COUNT (concat iov) in
          (case adb_write (io_out (w_io w n)) p of
             (WrErr e, es) \<Rightarrow> Done (WrErr e, w\<lparr>w_io := (w_io w)(n := (w_io w n)\<lparr>io_out := es\<rparr>)\<rparr>)
           | (WrBytes k, es) \<Rightarrow>
               Done (WrBytes k, w\<lparr>w_io := (w_io w)(n := (w_io w n)\<lparr>io_out := es,
                 io_log := io_log (w_io w n) @ take k p\<rparr>)\<rparr>)))"

text \<open>
  New descriptors.  The kernel never hands out one that is in use; where the given answers name
  one, the call counts as failed.  \<open>new_fd\<close> is a call whose result is the next of \<^const>\<open>w_new_fds\<close>:
  \<^verbatim>\<open>adb_socket_accept\<close> and \<^verbatim>\<open>adb_socketpair\<close>.  \<open>on_net\<close> is a call to the network.
\<close>

definition kernel_fd :: "nat option \<Rightarrow> nat option act" where
  "kernel_fd r w =
     Done (case r of
             None \<Rightarrow> None
           | Some fd \<Rightarrow> if map_of (installed_fdevents (w_context w)) fd = None then Some fd else None, w)"

definition new_fd :: "nat option act" where
  "new_fd w =
     (case w_new_fds w of
        [] \<Rightarrow> Done (None, w)
      | r # rs \<Rightarrow> kernel_fd r (w\<lparr>w_new_fds := rs\<rparr>))"

definition on_net :: "(net \<Rightarrow> 'a) \<Rightarrow> 'a act" where
  "on_net f w = Done (f (c_net (w_config w) (w_net_calls w)), w\<lparr>w_net_calls := Suc (w_net_calls w)\<rparr>)"

text \<open>
  A step on a transport that may stop its connection.  Closing an \<^verbatim>\<open>EmulatorConnection\<close> takes its port
  off the map of local transports.
\<close>

definition mod_conn :: "nat \<Rightarrow> (atransport \<Rightarrow> atransport) \<Rightarrow> unit act" where
  "mod_conn t f =
     bindA (deref_tr t) (\<lambda>tr.
     thenA (mod_tr t f)
     (whenA (t_stopped (f tr) \<and> \<not> t_stopped tr)
       (case t_emulator_port tr of
          None \<Rightarrow> retA ()
        | Some p \<Rightarrow> modA (\<lambda>w. w\<lparr>local_transports := AList.delete p (local_transports w)\<rparr>))))"

text \<open>\<^verbatim>\<open>send_packet\<close> on a transport pointer.\<close>

definition send_packet :: "apacket \<Rightarrow> nat option \<Rightarrow> unit act" where
  "send_packet p t =
     bindA (derefp t) (\<lambda>r. bindA (deref_tr r) (\<lambda>tr.
     bindA (liftA (send_packet_on p tr)) (\<lambda>tr'. mod_conn r (\<lambda>_. tr'))))"

definition packet_of :: "u32 \<Rightarrow> u32 \<Rightarrow> u32 \<Rightarrow> string \<Rightarrow> apacket" where
  "packet_of command arg0 arg1 payload =
     get_apacket\<lparr>p_msg := (p_msg get_apacket)\<lparr>m_command := command, m_arg0 := arg0, m_arg1 := arg1,
       m_data_length := word_of_nat (length payload)\<rparr>, p_payload := payload\<rparr>"

lemmas act_defs = retA_def stopA_def bindA_def thenA_def getA_def modA_def liftA_def whenA_def checkA_def
  derefp_def deref_sock_def mod_sock_def deref_tr_def mod_tr_def on_context_def

end
