(* ===== verification/Sockets.thy ===== *)
theory Sockets
  imports World
begin

text \<open>
  Local and remote sockets (\<^verbatim>\<open>adb/sockets.cpp\<close>, with \<^verbatim>\<open>send_ready\<close> and \<^verbatim>\<open>send_close\<close> of
  \<^verbatim>\<open>adb/adb.cpp\<close>) and the device trackers of \<^verbatim>\<open>adb/transport.cpp\<close>: the socket lists, moving bytes
  between a descriptor and the peer, acknowledgements, and the mutual closing of peers.

  A socket's \<^verbatim>\<open>enqueue\<close> can, for a smart socket, run a whole client request, which is modelled
  later; the functions that call \<^verbatim>\<open>enqueue\<close> on a peer therefore take it as the argument \<open>enq\<close>.  Closing
  a socket closes its peer, whose function pointer says how; the depth of that recursion is bounded
  by the argument of \<open>do_close\<close>, and \<open>close_depth\<close> is shown to be enough.
\<close>

section \<open>Socket lists\<close>

fun find_local_loop :: "nat list \<Rightarrow> u32 \<Rightarrow> u32 \<Rightarrow> nat option act" where
  "find_local_loop [] local_id peer_id = retA None"
| "find_local_loop (s # ss) local_id peer_id =
     bindA (deref_sock s) (\<lambda>so.
       if so_id so \<noteq> local_id then find_local_loop ss local_id peer_id
       else if peer_id = 0 then retA (Some s)
       else (case so_peer so of
          None \<Rightarrow> retA None
        | Some p \<Rightarrow> bindA (deref_sock p) (\<lambda>po. retA (if so_id po = peer_id then Some s else None))))"

definition find_local_socket :: "u32 \<Rightarrow> u32 \<Rightarrow> nat option act" where
  "find_local_socket local_id peer_id =
     bindA (getA local_socket_list) (\<lambda>ss. find_local_loop ss local_id peer_id)"

definition install_local_socket :: "nat \<Rightarrow> unit act" where
  "install_local_socket s =
     bindA (getA local_socket_next_id) (\<lambda>i.
     thenA (mod_sock s (\<lambda>so. so\<lparr>so_id := i\<rparr>))
     (thenA (modA (\<lambda>w. w\<lparr>local_socket_next_id := local_socket_next_id w + 1\<rparr>))
     (bindA (getA local_socket_next_id) (\<lambda>next.
       if next = 0 then stopA LogFatal
       else modA (\<lambda>w. w\<lparr>local_socket_list := local_socket_list w @ [s]\<rparr>)))))"

definition remove_socket :: "nat \<Rightarrow> unit act" where
  "remove_socket s =
     modA (\<lambda>w. w\<lparr>local_socket_list := filter (\<lambda>x. x \<noteq> s) (local_socket_list w),
                 local_socket_closing_list := filter (\<lambda>x. x \<noteq> s) (local_socket_closing_list w)\<rparr>)"

definition get_max_payload :: "nat \<Rightarrow> nat act" where
  "get_max_payload s =
     bindA (deref_sock s) (\<lambda>so.
     bindA (case so_transport so of
              None \<Rightarrow> retA MAX_PAYLOAD
            | Some t \<Rightarrow> bindA (deref_tr t) (\<lambda>tr. retA (min MAX_PAYLOAD (t_max_payload tr)))) (\<lambda>m.
       case so_peer so of
         None \<Rightarrow> retA m
       | Some p \<Rightarrow>
           bindA (deref_sock p) (\<lambda>po.
             case so_transport po of
               None \<Rightarrow> retA m
             | Some t \<Rightarrow> bindA (deref_tr t) (\<lambda>tr. retA (min m (t_max_payload tr))))))"

section \<open>Protocol messages\<close>

definition send_ready :: "u32 \<Rightarrow> u32 \<Rightarrow> nat option \<Rightarrow> u32 \<Rightarrow> unit act" where
  "send_ready local remote t ack_bytes =
     bindA (derefp t) (\<lambda>r. bindA (deref_tr r) (\<lambda>tr.
       send_packet (packet_of A_OKAY local remote (if t_delayed_ack tr then le32 ack_bytes else [])) t))"

definition send_close :: "u32 \<Rightarrow> u32 \<Rightarrow> nat option \<Rightarrow> unit act" where
  "send_close local remote t = send_packet (packet_of A_CLSE local remote []) t"

section \<open>Closing\<close>

text \<open>The end of \<^verbatim>\<open>local_socket_destroy\<close>: the descriptor is drained before it is closed.\<close>

definition deferred_close :: "nat \<Rightarrow> unit act" where
  "deferred_close fd =
     bindA (getA w_now) (\<lambda>now.
     thenA (on_context (fdevent_create (Some fd) (DrainEvent now)))
     (thenA (fdevent_addA (Some fd) {FDE_READ})
     (on_context (fdevent_set_timeout now fd (Some 1000)))))"

definition local_socket_destroy :: "nat \<Rightarrow> unit act" where
  "local_socket_destroy s =
     bindA (deref_sock s) (\<lambda>so.
     bindA (derefp (so_fde so)) (\<lambda>fd.
     thenA (on_context (fdevent_release fd))
     (thenA (deferred_close fd)
     (thenA (remove_socket s)
     (thenA (delete_sock s)
     (if so_exit_on_close so then stopA ProcessExit else retA ()))))))"

definition remote_socket_shutdown :: "nat \<Rightarrow> unit act" where
  "remote_socket_shutdown s =
     bindA (deref_sock s) (\<lambda>so.
     bindA (case so_peer so of
              None \<Rightarrow> retA 0
            | Some p \<Rightarrow> bindA (deref_sock p) (\<lambda>po. retA (so_id po))) (\<lambda>arg0.
       send_packet (packet_of A_CLSE arg0 (so_id so) []) (so_transport so)))"

definition do_shutdown :: "nat \<Rightarrow> unit act" where
  "do_shutdown s =
     bindA (deref_sock s) (\<lambda>so.
       case so_shutdown so of None \<Rightarrow> retA () | Some ShutdownRemote \<Rightarrow> remote_socket_shutdown s)"

text \<open>The part of \<^verbatim>\<open>local_socket_close\<close> after the peer is gone.\<close>

definition local_socket_finish :: "nat \<Rightarrow> unit act" where
  "local_socket_finish s =
     bindA (deref_sock s) (\<lambda>so.
       if so_closing so \<or> so_has_write_error so \<or> iov_empty (so_packet_queue so)
       then local_socket_destroy s
       else
         thenA (mod_sock s (\<lambda>so. so\<lparr>so_closing := True\<rparr>))
         (thenA (fdevent_delA (so_fde so) {FDE_READ})
         (thenA (remove_socket s)
         (thenA (modA (\<lambda>w. w\<lparr>local_socket_closing_list := local_socket_closing_list w @ [s]\<rparr>))
         (bindA (derefp (so_fde so)) (\<lambda>fd.
          bindA (getA (\<lambda>w. map_of (installed_fdevents (w_context w)) fd)) (\<lambda>fde.
            case fde of
              None \<Rightarrow> stopA BadAccess
            | Some e \<Rightarrow> checkA (FDE_WRITE \<in> fde_state e))))))))"

definition local_socket_close :: "(nat \<Rightarrow> unit act) \<Rightarrow> nat \<Rightarrow> unit act" where
  "local_socket_close close s =
     bindA (deref_sock s) (\<lambda>so.
     thenA (case so_peer so of
              None \<Rightarrow> retA ()
            | Some p \<Rightarrow>
                thenA (do_shutdown p)
                (thenA (mod_sock p (\<lambda>po. po\<lparr>so_peer := None\<rparr>))
                (thenA (close p)
                (mod_sock s (\<lambda>so. so\<lparr>so_peer := None\<rparr>)))))
     (local_socket_finish s))"

definition local_socket_close_notify :: "(nat \<Rightarrow> unit act) \<Rightarrow> nat \<Rightarrow> unit act" where
  "local_socket_close_notify close s =
     thenA (mod_sock s (\<lambda>so. so\<lparr>so_ready := ReadyLocal, so_shutdown := None, so_close := CloseLocal\<rparr>))
     (bindA (deref_sock s) (\<lambda>so.
     thenA (SendFailA (so_fd so) ''closed'')
     (close s)))"

text \<open>Detaching and closing the peer, as remote sockets, smart sockets and trackers do it.\<close>

definition close_peer :: "(nat \<Rightarrow> unit act) \<Rightarrow> nat \<Rightarrow> unit act" where
  "close_peer close s =
     bindA (deref_sock s) (\<lambda>so.
       case so_peer so of
         None \<Rightarrow> retA ()
       | Some p \<Rightarrow> thenA (mod_sock p (\<lambda>po. po\<lparr>so_peer := None\<rparr>)) (close p))"

definition remote_socket_close :: "(nat \<Rightarrow> unit act) \<Rightarrow> nat \<Rightarrow> unit act" where
  "remote_socket_close close s = thenA (close_peer close s) (delete_sock s)"

definition smart_socket_close :: "(nat \<Rightarrow> unit act) \<Rightarrow> nat \<Rightarrow> unit act" where
  "smart_socket_close close s =
     bindA (deref_sock s) (\<lambda>so.
     thenA (close_peer close s)
     (thenA (whenA (so_peer so \<noteq> None) (mod_sock s (\<lambda>so. so\<lparr>so_peer := None\<rparr>)))
     (delete_sock s)))"

definition device_tracker_remove :: "nat \<Rightarrow> unit act" where
  "device_tracker_remove s =
     modA (\<lambda>w. w\<lparr>device_tracker_list := remove1 s (device_tracker_list w)\<rparr>)"

definition device_tracker_close :: "(nat \<Rightarrow> unit act) \<Rightarrow> nat \<Rightarrow> unit act" where
  "device_tracker_close close s =
     thenA (close_peer close s) (thenA (device_tracker_remove s) (delete_sock s))"

text \<open>\<^verbatim>\<open>s->close(s)\<close>.\<close>

primrec do_close :: "nat \<Rightarrow> nat \<Rightarrow> unit act" where
  "do_close 0 s = stopA OutOfFuel"
| "do_close (Suc n) s =
     bindA (deref_sock s) (\<lambda>so.
       case so_close so of
         CloseLocal \<Rightarrow> local_socket_close (do_close n) s
       | CloseNotify \<Rightarrow> local_socket_close_notify (do_close n) s
       | CloseRemote \<Rightarrow> remote_socket_close (do_close n) s
       | CloseSmart \<Rightarrow> smart_socket_close (do_close n) s
       | CloseTracker \<Rightarrow> device_tracker_close (do_close n) s)"

definition close_depth :: nat where
  "close_depth = 4"

definition sock_close :: "nat \<Rightarrow> unit act" where
  "sock_close s = do_close close_depth s"

text \<open>
  \<^verbatim>\<open>close_all_sockets\<close>: the scan starts again after every close.  The number of restarts is bounded
  by the length of the list, which each close shortens.
\<close>

definition on_transport :: "nat \<Rightarrow> nat \<Rightarrow> bool act" where
  "on_transport t s =
     bindA (deref_sock s) (\<lambda>so.
       if so_transport so = Some t then retA True
       else (case so_peer so of
          None \<Rightarrow> retA False
        | Some p \<Rightarrow> bindA (deref_sock p) (\<lambda>po. retA (so_transport po = Some t))))"

fun first_on_transport :: "nat \<Rightarrow> nat list \<Rightarrow> nat option act" where
  "first_on_transport t [] = retA None"
| "first_on_transport t (s # ss) =
     bindA (on_transport t s) (\<lambda>b. if b then retA (Some s) else first_on_transport t ss)"

primrec close_all_loop :: "nat \<Rightarrow> nat \<Rightarrow> unit act" where
  "close_all_loop 0 t = stopA OutOfFuel"
| "close_all_loop (Suc n) t =
     bindA (getA local_socket_list) (\<lambda>ss.
     bindA (first_on_transport t ss) (\<lambda>r.
       case r of
         None \<Rightarrow> retA ()
       | Some s \<Rightarrow> thenA (sock_close s) (close_all_loop n t)))"

definition close_all_sockets :: "nat \<Rightarrow> unit act" where
  "close_all_sockets t =
     bindA (getA (\<lambda>w. length (local_socket_list w))) (\<lambda>n. close_all_loop (Suc n) t)"

section \<open>From the peer to the descriptor\<close>

datatype flush_result = Destroyed | TryAgain | Completed

text \<open>The write at the start of \<^verbatim>\<open>local_socket_flush_incoming\<close>: the number of bytes flushed.\<close>

definition flush_wrote :: "nat \<Rightarrow> iovector \<Rightarrow> wr_result \<Rightarrow> nat act" where
  "flush_wrote s q rc =
     (case rc of
        WrBytes n \<Rightarrow>
          if n > 0 then
            (if n = iov_size q
             then thenA (mod_sock s (\<lambda>so. so\<lparr>so_packet_queue := snd (iov_clear (so_packet_queue so))\<rparr>)) (retA n)
             else bindA (liftA (drop_front q n)) (\<lambda>q.
                  thenA (mod_sock s (\<lambda>so. so\<lparr>so_packet_queue := q\<rparr>)) (retA n)))
          else thenA (mod_sock s (\<lambda>so. so\<lparr>so_has_write_error := True\<rparr>)) (retA 0)
      | WrErr e \<Rightarrow>
          if e = EAGAIN then retA 0
          else thenA (mod_sock s (\<lambda>so. so\<lparr>so_has_write_error := True\<rparr>)) (retA 0))"

definition flush_queue :: "nat \<Rightarrow> nat act" where
  "flush_queue s =
     bindA (deref_sock s) (\<lambda>so.
       if iov_empty (so_packet_queue so) then retA 0
       else
         bindA (liftA (iovecs (so_packet_queue so))) (\<lambda>iov.
         bindA (adb_writev (so_fd so) iov) (flush_wrote s (so_packet_queue so))))"

definition acknowledge :: "nat \<Rightarrow> nat \<Rightarrow> unit act" where
  "acknowledge s bytes_flushed =
     bindA (deref_sock s) (\<lambda>so.
       case (so_transport so, so_peer so) of
         (Some t, Some p) \<Rightarrow>
           bindA (deref_sock p) (\<lambda>po.
             if so_available_send_bytes so \<noteq> None
             then send_ready (so_id so) (so_id po) (Some t) (word_of_nat bytes_flushed)
             else whenA (bytes_flushed \<noteq> 0 \<and> iov_size (so_packet_queue so) < MAX_PAYLOAD)
                    (send_ready (so_id so) (so_id po) (Some t) 0))
       | _ \<Rightarrow> retA ())"

definition flush_outcome :: "nat \<Rightarrow> asocket \<Rightarrow> bool \<Rightarrow> flush_result act" where
  "flush_outcome s so fd_full =
     (if so_closing so \<and> \<not> fd_full then thenA (sock_close s) (retA Destroyed)
      else if fd_full then thenA (fdevent_addA (so_fde so) {FDE_WRITE}) (retA TryAgain)
      else thenA (fdevent_delA (so_fde so) {FDE_WRITE}) (retA Completed))"

definition local_socket_flush_incoming :: "nat \<Rightarrow> flush_result act" where
  "local_socket_flush_incoming s =
     bindA (flush_queue s) (\<lambda>bytes_flushed.
     bindA (deref_sock s) (\<lambda>so.
     thenA (acknowledge s bytes_flushed)
     (flush_outcome s so (\<not> iov_empty (so_packet_queue so) \<and> \<not> so_has_write_error so))))"

definition local_socket_enqueue :: "nat \<Rightarrow> string \<Rightarrow> int act" where
  "local_socket_enqueue s data =
     bindA (deref_sock s) (\<lambda>so.
     bindA (liftA (iov_put (so_packet_queue so) data)) (\<lambda>q.
     thenA (mod_sock s (\<lambda>so. so\<lparr>so_packet_queue := q\<rparr>))
     (bindA (local_socket_flush_incoming s) (\<lambda>r.
       retA (case r of Destroyed \<Rightarrow> - 1 | TryAgain \<Rightarrow> 1 | Completed \<Rightarrow> 0)))))"

section \<open>From the descriptor to the peer\<close>

text \<open>The read loop: the bytes read, and whether the end or an error was met.\<close>

function read_loop :: "rd_event list \<Rightarrow> nat \<Rightarrow> string \<times> bool \<times> rd_event list" where
  "read_loop es avail =
     (if avail > 0 then
        (case adb_read es avail of
           (RdErr e, es') \<Rightarrow> ([], e \<noteq> EAGAIN, es')
         | (RdBytes bs, es') \<Rightarrow>
             if bs \<noteq> []
             then (case read_loop es' (avail - length bs) of (rest, eof, es'') \<Rightarrow> (bs @ rest, eof, es''))
             else ([], True, es'))
      else ([], False, es))"
  by pat_completeness auto
termination
  by (relation "measure (\<lambda>(es, avail). avail)") auto

declare read_loop.simps [simp del]

definition read_fd :: "nat option \<Rightarrow> nat \<Rightarrow> (string \<times> bool) act" where
  "read_fd fd avail w =
     (case fd of
        None \<Rightarrow> Done (([], avail > 0), w)
      | Some n \<Rightarrow>
          (case read_loop (io_in (w_io w n)) avail of (data, eof, es) \<Rightarrow>
             Done ((data, eof), w\<lparr>w_io := (w_io w)(n := (w_io w n)\<lparr>io_in := es\<rparr>)\<rparr>)))"

text \<open>Handing the bytes to the peer; \<open>False\<close> if the caller has to return at once.\<close>

definition after_enqueue :: "nat \<Rightarrow> int \<Rightarrow> bool act" where
  "after_enqueue s r =
     (if r < 0 then retA False
      else if r > 0 then
        bindA (deref_sock s) (\<lambda>so.
        thenA (case so_available_send_bytes so of
                 Some n \<Rightarrow> whenA (n \<le> 0) (fdevent_delA (so_fde so) {FDE_READ})
               | None \<Rightarrow> fdevent_delA (so_fde so) {FDE_READ})
        (retA True))
      else retA True)"

definition pass_to_peer :: "(nat \<Rightarrow> string \<Rightarrow> int act) \<Rightarrow> nat \<Rightarrow> nat \<Rightarrow> string \<Rightarrow> bool act" where
  "pass_to_peer enq s p data =
     thenA (mod_sock s (\<lambda>so. so\<lparr>so_available_send_bytes :=
              map_option (\<lambda>n. n - int (length data)) (so_available_send_bytes so)\<rparr>))
     (bindA (enq p data) (after_enqueue s))"

definition local_socket_flush_outgoing :: "(nat \<Rightarrow> string \<Rightarrow> int act) \<Rightarrow> nat \<Rightarrow> bool act" where
  "local_socket_flush_outgoing enq s =
     bindA (get_max_payload s) (\<lambda>max_payload.
     bindA (deref_sock s) (\<lambda>so.
     bindA (read_fd (so_fd so) max_payload) (\<lambda>(data, is_eof).
     bindA (case so_peer so of
              Some p \<Rightarrow> if data \<noteq> [] then pass_to_peer enq s p data else retA True
            | None \<Rightarrow> retA True) (\<lambda>goes_on.
       if \<not> goes_on then retA False
       else if is_eof then thenA (sock_close s) (retA False)
       else retA True))))"

definition local_socket_event_func :: "(nat \<Rightarrow> string \<Rightarrow> int act) \<Rightarrow> nat \<Rightarrow> fde_flag set \<Rightarrow> unit act" where
  "local_socket_event_func enq s ev =
     bindA (if FDE_WRITE \<in> ev then local_socket_flush_incoming s else retA Completed) (\<lambda>r.
       if FDE_WRITE \<in> ev \<and> r = Destroyed then retA ()
       else if FDE_READ \<in> ev then bindA (local_socket_flush_outgoing enq s) (\<lambda>_. retA ())
       else retA ())"

text \<open>The callback of a descriptor that is being drained.\<close>

fun script_size :: "rd_event list \<Rightarrow> nat" where
  "script_size [] = 0"
| "script_size (Avail bs # es) = Suc (length bs) + script_size es"
| "script_size (Closed # es) = Suc (script_size es)"
| "script_size (RdFails e # es) = Suc (script_size es)"

lemma adb_read_shrinks: "adb_read es n = (RdBytes bs, es') \<Longrightarrow> 0 < n \<Longrightarrow> bs \<noteq> [] \<Longrightarrow> script_size es' < script_size es"
  by (induction es n rule: adb_read.induct) (auto split: if_splits)

definition BUFSIZ :: nat where
  "BUFSIZ = 8192"

function drain_loop :: "rd_event list \<Rightarrow> rd_result \<times> rd_event list" where
  "drain_loop es =
     (case adb_read es BUFSIZ of
        (RdBytes bs, es') \<Rightarrow> if bs \<noteq> [] then drain_loop es' else (RdBytes [], es')
      | (RdErr e, es') \<Rightarrow> (RdErr e, es'))"
  by pat_completeness auto
termination
  by (relation "measure script_size") (auto simp: BUFSIZ_def dest: adb_read_shrinks [OF sym])

declare drain_loop.simps [simp del]

definition drain_event_func :: "int \<Rightarrow> nat \<Rightarrow> fde_flag set \<Rightarrow> unit act" where
  "drain_event_func begin_time fd ev =
     bindA (getA w_now) (\<lambda>now.
     bindA (getA (\<lambda>w. drain_loop (io_in (w_io w fd)))) (\<lambda>(rc, es).
       if FDE_READ \<in> ev then
         thenA (modA (\<lambda>w. w\<lparr>w_io := (w_io w)(fd := (w_io w fd)\<lparr>io_in := es\<rparr>)\<rparr>))
         (if rc = RdErr EAGAIN \<and> \<not> now - begin_time > 1000 then retA ()
          else on_context (fdevent_release fd))
       else on_context (fdevent_release fd)))"

section \<open>Readiness\<close>

definition local_socket_ready :: "nat \<Rightarrow> unit act" where
  "local_socket_ready s = bindA (deref_sock s) (\<lambda>so. fdevent_addA (so_fde so) {FDE_READ})"

definition local_socket_ready_notify :: "nat \<Rightarrow> unit act" where
  "local_socket_ready_notify s =
     thenA (mod_sock s (\<lambda>so. so\<lparr>so_ready := ReadyLocal, so_shutdown := None, so_close := CloseLocal\<rparr>))
     (bindA (deref_sock s) (\<lambda>so.
     thenA (SendOkayA (so_fd so))
     (local_socket_ready s)))"

definition remote_socket_ready :: "nat \<Rightarrow> unit act" where
  "remote_socket_ready s =
     bindA (deref_sock s) (\<lambda>so.
     bindA (derefp (so_peer so)) (\<lambda>p.
     bindA (deref_sock p) (\<lambda>po.
       send_packet (packet_of A_OKAY (so_id po) (so_id so) []) (so_transport so))))"

definition smart_socket_ready :: "nat \<Rightarrow> unit act" where
  "smart_socket_ready s = retA ()"

section \<open>Remote sockets\<close>

definition remote_socket_enqueue :: "nat \<Rightarrow> string \<Rightarrow> int act" where
  "remote_socket_enqueue s data =
     bindA (deref_sock s) (\<lambda>so.
     bindA (derefp (so_peer so)) (\<lambda>p.
     bindA (deref_sock p) (\<lambda>po.
       if length data > MAX_PAYLOAD then retA (- 1)
       else thenA (send_packet (packet_of A_WRTE (so_id po) (so_id so) data) (so_transport so)) (retA 1))))"

definition create_remote_socket :: "u32 \<Rightarrow> nat \<Rightarrow> nat act" where
  "create_remote_socket i t =
     (if i = 0 then stopA LogFatal
      else new_sock ((new_asocket EnqueueRemote ReadyRemote (Some ShutdownRemote) CloseRemote)
        \<lparr>so_id := i, so_transport := Some t\<rparr>))"

section \<open>Creating local sockets\<close>

definition create_local_socket :: "nat option \<Rightarrow> nat act" where
  "create_local_socket fd =
     bindA (new_sock ((new_asocket EnqueueLocal ReadyLocal None CloseLocal)\<lparr>so_fd := fd\<rparr>)) (\<lambda>s.
     thenA (install_local_socket s)
     (thenA (on_context (fdevent_create fd (SocketEvent s)))
     (thenA (mod_sock s (\<lambda>so. so\<lparr>so_fde := fd\<rparr>))
     (retA s))))"

definition connect_to_remote :: "nat \<Rightarrow> string \<Rightarrow> unit act" where
  "connect_to_remote s destination =
     bindA (deref_sock s) (\<lambda>so.
     bindA (derefp (so_transport so)) (\<lambda>t.
     bindA (deref_tr t) (\<lambda>tr.
     bindA (liftA (UpdateReverseConfig destination tr)) (\<lambda>tr.
     thenA (mod_tr t (\<lambda>_. tr))
     (thenA (whenA (t_delayed_ack tr) (mod_sock s (\<lambda>so. so\<lparr>so_available_send_bytes := Some 0\<rparr>)))
     (bindA (get_max_payload s) (\<lambda>max_payload.
     let p = packet_of A_OPEN (so_id so) (if t_delayed_ack tr then word_of_nat INITIAL_DELAYED_ACK_BYTES else 0)
               (destination @ [CHR 0x00])
     in thenA (checkA (unat (m_data_length (p_msg p)) \<le> max_payload))
        (send_packet p (Some t)))))))))"

definition create_smart_socket :: "nat act" where
  "create_smart_socket = new_sock (new_asocket EnqueueSmart ReadySmart None CloseSmart)"

section \<open>Device trackers\<close>

definition device_tracker_enqueue :: "nat \<Rightarrow> string \<Rightarrow> int act" where
  "device_tracker_enqueue s data = thenA (device_tracker_close (do_close (close_depth - 1)) s) (retA (- 1))"

text \<open>\<^verbatim>\<open>snprintf\<close> into a buffer of five characters keeps four digits.\<close>

definition device_tracker_send :: "(nat \<Rightarrow> string \<Rightarrow> int act) \<Rightarrow> nat \<Rightarrow> string \<Rightarrow> int act" where
  "device_tracker_send enq s str =
     bindA (deref_sock s) (\<lambda>so.
     bindA (derefp (so_peer so)) (\<lambda>p.
       enq p (take 4 (hex04 (length str)) @ str)))"

definition transports_of :: "nat list \<Rightarrow> world \<Rightarrow> (nat \<times> atransport) list" where
  "transports_of ts w = map (\<lambda>t. (t, the (w_transport w t))) (filter (\<lambda>t. w_transport w t \<noteq> None) ts)"

text \<open>The objects behind the pointers of a list of transports; a dangling one is an error.\<close>

definition deref_list :: "(world \<Rightarrow> nat list) \<Rightarrow> (nat \<times> atransport) list act" where
  "deref_list lst w =
     (if list_all (\<lambda>t. w_transport w t \<noteq> None) (lst w) then Done (transports_of (lst w) w, w)
      else Stop BadAccess)"

definition list_transportsA :: "tracker_output \<Rightarrow> string act" where
  "list_transportsA out =
     bindA (deref_list transport_list) (\<lambda>ts.
     bindA (getA w_config) (\<lambda>c.
       retA (list_transports (c_env c) (c_to_proto c) (map snd ts) out)))"

definition device_tracker_ready :: "(nat \<Rightarrow> string \<Rightarrow> int act) \<Rightarrow> nat \<Rightarrow> unit act" where
  "device_tracker_ready enq s =
     bindA (deref_sock s) (\<lambda>so.
       if so_update_needed so then
         thenA (mod_sock s (\<lambda>so. so\<lparr>so_update_needed := False\<rparr>))
         (bindA (list_transportsA (so_output_type so)) (\<lambda>str.
          bindA (device_tracker_send enq s str) (\<lambda>_. retA ())))
       else retA ())"

definition create_device_tracker :: "tracker_output \<Rightarrow> nat act" where
  "create_device_tracker output_type =
     bindA (new_sock ((new_asocket EnqueueTracker ReadyTracker None CloseTracker)
       \<lparr>so_update_needed := True, so_output_type := output_type\<rparr>)) (\<lambda>s.
     thenA (modA (\<lambda>w. w\<lparr>device_tracker_list := s # device_tracker_list w\<rparr>))
     (retA s))"

text \<open>\<^verbatim>\<open>s->ready(s)\<close>.\<close>

definition do_ready :: "(nat \<Rightarrow> string \<Rightarrow> int act) \<Rightarrow> nat \<Rightarrow> unit act" where
  "do_ready enq s =
     bindA (deref_sock s) (\<lambda>so.
       case so_ready so of
         ReadyLocal \<Rightarrow> local_socket_ready s
       | ReadyNotify \<Rightarrow> local_socket_ready_notify s
       | ReadyRemote \<Rightarrow> remote_socket_ready s
       | ReadySmart \<Rightarrow> smart_socket_ready s
       | ReadyTracker \<Rightarrow> device_tracker_ready enq s)"

definition connect_to_smartsocket :: "(nat \<Rightarrow> string \<Rightarrow> int act) \<Rightarrow> nat \<Rightarrow> unit act" where
  "connect_to_smartsocket enq s =
     bindA create_smart_socket (\<lambda>ss.
     thenA (mod_sock s (\<lambda>so. so\<lparr>so_peer := Some ss\<rparr>))
     (thenA (mod_sock ss (\<lambda>so. so\<lparr>so_peer := Some s\<rparr>))
     (do_ready enq s)))"

definition local_socket_ack :: "(nat \<Rightarrow> string \<Rightarrow> int act) \<Rightarrow> nat \<Rightarrow> int option \<Rightarrow> unit act" where
  "local_socket_ack enq s acked_bytes =
     bindA (deref_sock s) (\<lambda>so.
       case (so_available_send_bytes so, acked_bytes) of
         (Some n, Some a) \<Rightarrow>
           thenA (mod_sock s (\<lambda>so. so\<lparr>so_available_send_bytes := Some (n + a)\<rparr>))
           (whenA (n + a > 0) (do_ready enq s))
       | (None, None) \<Rightarrow> do_ready enq s
       | _ \<Rightarrow> retA ())"

section \<open>Lists of transports\<close>

definition iterate_transports :: "(atransport \<Rightarrow> bool) \<Rightarrow> bool act" where
  "iterate_transports fn =
     bindA (deref_list transport_list) (\<lambda>ts.
       if \<not> list_all (\<lambda>(r, t). fn t) ts then retA False
       else bindA (deref_list pending_list) (\<lambda>ps. retA (list_all (\<lambda>(r, t). fn t) ps)))"

definition update_transport_status :: "unit act" where
  "update_transport_status =
     bindA (iterate_transports (\<lambda>t. \<not> (t_type t = kTransportUsb \<and> \<not> t_online t))) (\<lambda>result.
       modA (\<lambda>w. w\<lparr>transports_ready := result\<rparr>))"

text \<open>
  \<^verbatim>\<open>update_transports\<close>: the \<^verbatim>\<open>next\<close> pointer is read before the tracker is used.  The walk is bounded by
  the length of the list; nothing is inserted behind its head.
\<close>

fun tracker_after :: "nat \<Rightarrow> nat list \<Rightarrow> nat option" where
  "tracker_after s [] = None"
| "tracker_after s (x # xs) = (if x = s then (case xs of [] \<Rightarrow> None | y # _ \<Rightarrow> Some y) else tracker_after s xs)"

primrec notify_trackers :: "(nat \<Rightarrow> string \<Rightarrow> int act) \<Rightarrow> nat \<Rightarrow> nat option \<Rightarrow> unit act" where
  "notify_trackers enq 0 tracker = (if tracker = None then retA () else stopA OutOfFuel)"
| "notify_trackers enq (Suc n) tracker =
     (case tracker of
        None \<Rightarrow> retA ()
      | Some s \<Rightarrow>
          bindA (deref_sock s) (\<lambda>so.
          bindA (getA (\<lambda>w. tracker_after s (device_tracker_list w))) (\<lambda>next.
          bindA (list_transportsA (so_output_type so)) (\<lambda>str.
          bindA (device_tracker_send enq s str) (\<lambda>_.
            notify_trackers enq n next)))))"

definition update_transports :: "(nat \<Rightarrow> string \<Rightarrow> int act) \<Rightarrow> unit act" where
  "update_transports enq =
     thenA update_transport_status
     (bindA (getA device_tracker_list) (\<lambda>ss.
       notify_trackers enq (length ss) (case ss of [] \<Rightarrow> None | s # _ \<Rightarrow> Some s)))"

definition SetConnectionState :: "(nat \<Rightarrow> string \<Rightarrow> int act) \<Rightarrow> nat \<Rightarrow> connection_state \<Rightarrow> unit act" where
  "SetConnectionState enq t st =
     thenA (mod_tr t (\<lambda>tr. tr\<lparr>t_state := st\<rparr>)) (update_transports enq)"

end
