(* ===== verification/Listeners.thy ===== *)
theory Listeners
  imports Sockets
begin

unbundle bit_operations_syntax

text \<open>
  Listeners (\<^verbatim>\<open>adb/adb_listeners.cpp\<close>): sockets bound to a local address that turn each accepted
  connection into a local socket, connected to a service of a device or to a smart socket.  The list
  owns the listeners; erasing one destroys its event and takes it off its transport's disconnect list.
\<close>

section \<open>Disconnect lists of transports\<close>

definition AddDisconnect :: "nat \<Rightarrow> nat \<Rightarrow> unit act" where
  "AddDisconnect t i = mod_tr t (\<lambda>tr. tr\<lparr>t_disconnects := t_disconnects tr @ [i]\<rparr>)"

definition RemoveDisconnect :: "nat \<Rightarrow> nat \<Rightarrow> unit act" where
  "RemoveDisconnect t i = mod_tr t (\<lambda>tr. tr\<lparr>t_disconnects := filter (\<lambda>j. j \<noteq> i) (t_disconnects tr)\<rparr>)"

section \<open>The list\<close>

definition isSmartSocket :: "alistener \<Rightarrow> bool" where
  "isSmartSocket l \<longleftrightarrow> l_connect_to l = kSmartSocketConnectTo"

text \<open>The destructor; destroying a null event does nothing.\<close>

definition alistener_delete :: "nat \<Rightarrow> alistener \<Rightarrow> unit act" where
  "alistener_delete i l =
     thenA (case l_fde l of None \<Rightarrow> retA () | Some fd \<Rightarrow> on_context (fdevent_release fd))
     (case l_transport l of None \<Rightarrow> retA () | Some t \<Rightarrow> RemoveDisconnect t i)"

definition erase_listener :: "nat \<Rightarrow> unit act" where
  "erase_listener i =
     bindA (getA listener_list) (\<lambda>ls.
       case map_of ls i of
         None \<Rightarrow> stopA BadAccess
       | Some l \<Rightarrow>
           thenA (modA (\<lambda>w. w\<lparr>listener_list := filter (\<lambda>(j, _). j \<noteq> i) (listener_list w)\<rparr>))
           (alistener_delete i l))"

definition mod_listener :: "nat \<Rightarrow> (alistener \<Rightarrow> alistener) \<Rightarrow> unit act" where
  "mod_listener i f =
     modA (\<lambda>w. w\<lparr>listener_list := map (\<lambda>(j, l). (j, if j = i then f l else l)) (listener_list w)\<rparr>)"

section \<open>Accepting\<close>

definition ss_listener_event_func :: "(nat \<Rightarrow> string \<Rightarrow> int act) \<Rightarrow> fde_flag set \<Rightarrow> unit act" where
  "ss_listener_event_func enq ev =
     (if FDE_READ \<in> ev then
        bindA new_fd (\<lambda>fd.
          if fd = None then retA ()
          else bindA (create_local_socket fd) (\<lambda>s. connect_to_smartsocket enq s))
      else retA ())"

definition listener_event_func :: "nat \<Rightarrow> fde_flag set \<Rightarrow> unit act" where
  "listener_event_func i ev =
     (if FDE_READ \<in> ev then
        bindA new_fd (\<lambda>fd.
          if fd = None then retA ()
          else
            bindA (create_local_socket fd) (\<lambda>s.
            bindA (getA listener_list) (\<lambda>ls.
              case map_of ls i of
                None \<Rightarrow> stopA BadAccess
              | Some l \<Rightarrow>
                  thenA (mod_sock s (\<lambda>so. so\<lparr>so_transport := l_transport l\<rparr>))
                  (connect_to_remote s (l_connect_to l)))))
      else retA ())"

section \<open>Removing and listing\<close>

definition listener_disconnect :: "nat \<Rightarrow> unit act" where
  "listener_disconnect i =
     bindA (getA listener_list) (\<lambda>ls.
       if map_of ls i = None then retA ()
       else thenA (mod_listener i (\<lambda>l. l\<lparr>l_transport := None\<rparr>)) (erase_listener i))"

definition listener_line :: "nat \<Rightarrow> alistener \<Rightarrow> string act" where
  "listener_line i l =
     bindA (derefp (l_transport l)) (\<lambda>t.
     bindA (deref_tr t) (\<lambda>tr.
       retA ((if t_serial tr \<noteq> [] then c_str (t_serial tr) else ''(reverse)'') @ '' '' @
         c_str (l_local_name l) @ '' '' @ c_str (l_connect_to l) @ [CHR 0x0A])))"

primrec format_loop :: "(nat \<times> alistener) list \<Rightarrow> string \<Rightarrow> string act" where
  "format_loop [] result = retA result"
| "format_loop (x # ls) result =
     (case x of (i, l) \<Rightarrow>
        if isSmartSocket l then format_loop ls result
        else bindA (listener_line i l) (\<lambda>line. format_loop ls (result @ line)))"

definition format_listeners :: "string act" where
  "format_listeners = bindA (getA listener_list) (\<lambda>ls. format_loop ls [])"

datatype install_status =
    INSTALL_STATUS_OK
  | INSTALL_STATUS_INTERNAL_ERROR
  | INSTALL_STATUS_CANNOT_BIND
  | INSTALL_STATUS_CANNOT_REBIND
  | INSTALL_STATUS_LISTENER_NOT_FOUND

definition remove_listener :: "string \<Rightarrow> install_status act" where
  "remove_listener local_name =
     bindA (getA listener_list) (\<lambda>ls.
       case find (\<lambda>(i, l). l_local_name l = local_name) ls of
         None \<Rightarrow> retA INSTALL_STATUS_LISTENER_NOT_FOUND
       | Some (i, l) \<Rightarrow> thenA (erase_listener i) (retA INSTALL_STATUS_OK))"

text \<open>\<^verbatim>\<open>connect_to[0]\<close> of an empty string is the terminating zero.\<close>

definition remove_all_listeners :: "unit act" where
  "remove_all_listeners =
     bindA (getA listener_list) (\<lambda>ls.
       forA (\<lambda>(i, l). whenA (\<not> (l_connect_to l \<noteq> [] \<and> hd (l_connect_to l) = CHR ''*'')) (erase_listener i)) ls)"

definition enable_server_sockets :: "unit act" where
  "enable_server_sockets =
     bindA (getA listener_list) (\<lambda>ls.
       forA (\<lambda>(i, l). whenA (isSmartSocket l)
         (bindA (derefp (l_fde l)) (\<lambda>fd. on_context (fdevent_set fd {FDE_READ})))) ls)"

definition close_smartsockets :: "unit act" where
  "close_smartsockets =
     bindA (getA listener_list) (\<lambda>ls. forA (\<lambda>(i, l). whenA (isSmartSocket l) (erase_listener i)) ls)"

section \<open>Installing\<close>

definition INSTALL_LISTENER_NO_REBIND :: nat where
  "INSTALL_LISTENER_NO_REBIND = 1"

definition INSTALL_LISTENER_DISABLED :: nat where
  "INSTALL_LISTENER_DISABLED = 2"

text \<open>An address that is already listened on: status, and the text left in \<^verbatim>\<open>*error\<close>.\<close>

definition rebind_listener :: "nat \<Rightarrow> alistener \<Rightarrow> string \<Rightarrow> nat option \<Rightarrow> nat \<Rightarrow> (install_status \<times> string) act" where
  "rebind_listener i l connect_to transport flags =
     (if isSmartSocket l then retA (INSTALL_STATUS_INTERNAL_ERROR, ''cannot repurpose smartsocket'')
      else if flags AND INSTALL_LISTENER_NO_REBIND \<noteq> 0 then retA (INSTALL_STATUS_CANNOT_REBIND, ''cannot rebind'')
      else
        thenA (mod_listener i (\<lambda>l. l\<lparr>l_connect_to := connect_to\<rparr>))
        (thenA (if l_transport l \<noteq> transport then
                  bindA (derefp (l_transport l)) (\<lambda>old.
                  thenA (RemoveDisconnect old i)
                  (thenA (mod_listener i (\<lambda>l. l\<lparr>l_transport := transport\<rparr>))
                  (bindA (derefp transport) (\<lambda>t. AddDisconnect t i))))
                else retA ())
        (retA (INSTALL_STATUS_OK, []))))"

text \<open>A new listener on descriptor \<open>fd\<close>; \<^verbatim>\<open>close_on_exec\<close> has no effect inside the process.\<close>

definition add_listener :: "nat \<Rightarrow> string \<Rightarrow> string \<Rightarrow> nat option \<Rightarrow> nat \<Rightarrow> unit act" where
  "add_listener fd local_name connect_to transport flags =
     bindA (getA w_next_listener) (\<lambda>i.
     let l = \<lparr>l_fde = Some fd, l_local_name = local_name, l_connect_to = connect_to, l_transport = transport\<rparr>
     in thenA (modA (\<lambda>w. w\<lparr>w_next_listener := Suc i\<rparr>))
       (thenA (on_context (fdevent_create (Some fd) (if isSmartSocket l then SmartListenerEvent i else ListenerEvent i)))
       (thenA (whenA (flags AND INSTALL_LISTENER_DISABLED = 0) (on_context (fdevent_set fd {FDE_READ})))
       (thenA (case transport of None \<Rightarrow> retA () | Some t \<Rightarrow> AddDisconnect t i)
       (modA (\<lambda>w. w\<lparr>listener_list := listener_list w @ [(i, l)]\<rparr>))))))"

text \<open>\<^verbatim>\<open>install_listener\<close>: status, the error text and the resolved port, 0 if it is left alone.\<close>

definition install_listener :: "string \<Rightarrow> string \<Rightarrow> nat option \<Rightarrow> nat \<Rightarrow> (install_status \<times> string \<times> int) act" where
  "install_listener local_name connect_to transport flags =
     bindA (getA listener_list) (\<lambda>ls.
       case find (\<lambda>(i, l). l_local_name l = local_name) ls of
         Some (i, l) \<Rightarrow>
           bindA (rebind_listener i l connect_to transport flags) (\<lambda>(status, err). retA (status, err, 0))
       | None \<Rightarrow>
           bindA (getA (\<lambda>w. c_listen_all (w_config w))) (\<lambda>listen_all.
           bindA (on_net (\<lambda>n. socket_spec_listen n listen_all local_name)) (\<lambda>listen.
           bindA (liftA listen) (\<lambda>r.
             case r of
               Inl err \<Rightarrow> retA (INSTALL_STATUS_CANNOT_BIND, err, 0)
             | Inr (fd, resolved) \<Rightarrow>
                 bindA (kernel_fd (Some fd)) (\<lambda>fd.
                   case fd of
                     None \<Rightarrow> retA (INSTALL_STATUS_CANNOT_BIND, [], 0)
                   | Some fd \<Rightarrow>
                       thenA (add_listener fd (if resolved \<noteq> 0 then ''tcp:'' @ dec_int resolved else local_name)
                                connect_to transport flags)
                       (retA (INSTALL_STATUS_OK, [], resolved)))))))"

section \<open>Disconnecting a transport\<close>

text \<open>\<^verbatim>\<open>RunDisconnects\<close>: every function stored there is \<^const>\<open>listener_disconnect\<close>.\<close>

definition RunDisconnects :: "nat \<Rightarrow> unit act" where
  "RunDisconnects t =
     bindA (deref_tr t) (\<lambda>tr.
     thenA (forA listener_disconnect (t_disconnects tr))
     (mod_tr t (\<lambda>tr. tr\<lparr>t_disconnects := []\<rparr>)))"

end
