(* ===== verification/Services.thy ===== *)
theory Services
  imports Listeners
begin

text \<open>
  Services of the host (\<^verbatim>\<open>adb/services.cpp\<close>): connecting a device's request to an address of the host,
  and the services a client can ask for, which run on threads of their own behind a socket pair.
\<close>

section \<open>Connecting to an address\<close>

text \<open>Whatever \<^verbatim>\<open>socket_spec_connect\<close> leaves in \<^verbatim>\<open>ret\<close> is returned, also when it reports a failure.\<close>

definition service_to_fd :: "string \<Rightarrow> nat option act" where
  "service_to_fd name =
     (if is_socket_spec name then
        bindA (on_net (\<lambda>n. socket_spec_connect n name 0)) (\<lambda>connect.
        bindA (liftA connect) (\<lambda>r. kernel_fd (sr_fd r)))
      else retA None)"

definition create_local_service_socket :: "string \<Rightarrow> nat \<Rightarrow> nat option act" where
  "create_local_service_socket name t =
     bindA (service_to_fd name) (\<lambda>fd.
       if fd = None then retA None
       else
         bindA (create_local_socket fd) (\<lambda>s.
         thenA (mod_sock s (\<lambda>so. so\<lparr>so_transport := Some t\<rparr>))
         (retA (Some s))))"

section \<open>Services on threads\<close>

definition create_service_thread :: "(nat \<Rightarrow> thread) \<Rightarrow> nat option act" where
  "create_service_thread func =
     bindA new_fd (\<lambda>fd.
       case fd of
         None \<Rightarrow> retA None
       | Some n \<Rightarrow> thenA (modA (\<lambda>w. w\<lparr>w_threads := w_threads w @ [func n]\<rparr>)) (retA fd))"

definition thread_service :: "(nat \<Rightarrow> thread) \<Rightarrow> nat option act" where
  "thread_service func =
     bindA (create_service_thread func) (\<lambda>fd.
     bindA (create_local_socket fd) (\<lambda>s. retA (Some s)))"

text \<open>\<^verbatim>\<open>host_service_to_socket\<close>; the password of \<^verbatim>\<open>pair:\<close> ends at the first colon of the C string.\<close>

definition host_service_to_socket :: "string \<Rightarrow> string \<Rightarrow> nat \<Rightarrow> nat option act" where
  "host_service_to_socket name serial transport_id =
     (if name = ''track-devices'' then bindA (create_device_tracker SHORT_TEXT) (\<lambda>s. retA (Some s))
      else if name = ''track-devices-l'' then bindA (create_device_tracker LONG_TEXT) (\<lambda>s. retA (Some s))
      else if name = ''track-devices-proto-binary'' then bindA (create_device_tracker PROTOBUF) (\<lambda>s. retA (Some s))
      else if name = ''track-devices-proto-text'' then bindA (create_device_tracker TEXT_PROTOBUF) (\<lambda>s. retA (Some s))
      else (case ConsumePrefix name ''wait-for-'' of
          Some spec \<Rightarrow> thread_service (\<lambda>fd. WaitThread fd serial transport_id spec)
        | None \<Rightarrow>
            (case ConsumePrefix name ''connect:'' of
               Some host \<Rightarrow> thread_service (\<lambda>fd. ConnectThread fd host)
             | None \<Rightarrow>
                 (case ConsumePrefix name ''pair:'' of
                    Some rest \<Rightarrow>
                      (case split_at_char CHR '':'' (c_str rest) of
                         None \<Rightarrow> retA None
                       | Some (password, host) \<Rightarrow> thread_service (\<lambda>fd. PairThread fd host password))
                  | None \<Rightarrow> retA None))))"

section \<open>Waiting for a device\<close>

text \<open>The answer a waiting client gets: \<^verbatim>\<open>SendOkay\<close>, or \<^verbatim>\<open>SendFail\<close> with a text.\<close>

datatype wait_answer = WaitOkay | WaitFail string

definition wait_type :: "string \<Rightarrow> transport_type option" where
  "wait_type c =
     (if c = ''local'' then Some kTransportLocal
      else if c = ''usb'' then Some kTransportUsb
      else if c = ''any'' then Some kTransportAny
      else None)"

definition wait_state :: "string \<Rightarrow> connection_state option" where
  "wait_state c =
     (if c = ''device'' then Some kCsDevice
      else if c = ''recovery'' then Some kCsRecovery
      else if c = ''rescue'' then Some kCsRescue
      else if c = ''sideload'' then Some kCsSideload
      else if c = ''bootloader'' then Some kCsBootloader
      else if c = ''any'' then Some kCsAny
      else if c = ''disconnect'' then Some kCsOffline
      else None)"

fun wait_states :: "string list \<Rightarrow> connection_state list option" where
  "wait_states [] = Some []"
| "wait_states (c # cs) =
     (case wait_state c of
        None \<Rightarrow> None
      | Some st \<Rightarrow> map_option (\<lambda>sts. st # sts) (wait_states cs))"

definition parse_wait :: "string \<Rightarrow> (wait_answer + (transport_type \<times> connection_state list)) run" where
  "parse_wait spec =
     bindR (Split spec ''-'') (\<lambda>components. Done (
       if length components < 2 then Inl (WaitFail (''short wait-for-: '' @ spec))
       else (case wait_type (hd components) of
          None \<Rightarrow> Inl (WaitFail (''bad wait-for- transport: '' @ spec))
        | Some type \<Rightarrow>
            (case wait_states (tl components) of
               None \<Rightarrow> Inl (WaitFail (''bad wait-for- state: '' @ spec))
             | Some states \<Rightarrow> Inr (type, states)))))"

text \<open>
  One round of the loop: the transports at that moment and what \<^verbatim>\<open>adb_poll\<close> on the client's socket
  reports at its end.  \<open>None\<close> means another round.
\<close>

definition state_reached :: "(nat \<times> atransport) list \<Rightarrow> nat option \<Rightarrow> connection_state \<Rightarrow> bool" where
  "state_reached ts t state \<longleftrightarrow>
     (if state = kCsOffline then t = None
      else (case t of
          None \<Rightarrow> False
        | Some r \<Rightarrow> state = kCsAny \<or> (case map_of ts r of None \<Rightarrow> False | Some tr \<Rightarrow> t_state tr = state)))"

definition wait_round ::
    "env \<Rightarrow> transport_type \<Rightarrow> string \<Rightarrow> nat \<Rightarrow> connection_state list \<Rightarrow> (nat \<times> atransport) list \<Rightarrow> bool
     \<Rightarrow> wait_answer option run" where
  "wait_round e type serial transport_id states ts client_gone =
     bindR (acquire_one_transport e ts type (if serial \<noteq> [] then Some (c_str serial) else None) transport_id False)
       (\<lambda>(t, err, is_ambiguous). Done (
         if is_ambiguous then Some (WaitFail err)
         else if list_ex (state_reached ts t) states then Some WaitOkay
         else if client_gone then Some (WaitFail err)
         else None))"

primrec wait_loop ::
    "env \<Rightarrow> transport_type \<Rightarrow> string \<Rightarrow> nat \<Rightarrow> connection_state list \<Rightarrow> ((nat \<times> atransport) list \<times> bool) list
     \<Rightarrow> wait_answer option run" where
  "wait_loop e type serial tid states [] = Done None"
| "wait_loop e type serial tid states (round # rounds) =
     bindR (wait_round e type serial tid states (fst round) (snd round)) (\<lambda>r.
       case r of Some a \<Rightarrow> Done (Some a) | None \<Rightarrow> wait_loop e type serial tid states rounds)"

definition wait_service ::
    "env \<Rightarrow> string \<Rightarrow> nat \<Rightarrow> string \<Rightarrow> ((nat \<times> atransport) list \<times> bool) list \<Rightarrow> wait_answer option run" where
  "wait_service e serial transport_id spec rounds =
     bindR (parse_wait spec) (\<lambda>r.
       case r of
         Inl a \<Rightarrow> Done (Some a)
       | Inr (type, states) \<Rightarrow> wait_loop e type serial transport_id states rounds)"

section \<open>Waits end\<close>

lemma wait_round_gone: "wait_round e type serial tid states ts True \<noteq> Done None"
  by (cases "acquire_one_transport e ts type (if serial \<noteq> [] then Some (c_str serial) else None) tid False")
    (auto simp: wait_round_def split: if_splits)

lemma wait_loop_gone:
  "wait_loop e type serial tid states (pre @ (ts, True) # post) = wait_loop e type serial tid states (pre @ [(ts, True)]) \<and>
   wait_loop e type serial tid states (pre @ [(ts, True)]) \<noteq> Done None"
proof (induction pre)
  case Nil
  then show ?case using wait_round_gone [of e type serial tid states ts]
    by (cases "wait_round e type serial tid states ts True") (auto split: option.splits)
next
  case (Cons r pre)
  then show ?case by (cases "wait_round e type serial tid states (fst r) (snd r)") (auto split: option.splits)
qed

text \<open>
  C32: A wait for a device does not outlive its client: it is answered in the round in which the
  client's socket is seen to be gone at the latest, whatever the transports do before or after.
\<close>

theorem wait_ends_with_client:
  "wait_service e serial tid spec (pre @ (ts, True) # post) = wait_service e serial tid spec (pre @ [(ts, True)]) \<and>
   wait_service e serial tid spec (pre @ [(ts, True)]) \<noteq> Done None"
proof (cases "parse_wait spec")
  case (Done r)
  then show ?thesis
  proof (cases r)
    case (Inr x)
    with Done show ?thesis using wait_loop_gone [of e "fst x" serial tid "snd x" pre ts post] by (simp add: wait_service_def case_prod_beta)
  qed (simp add: wait_service_def)
qed (simp add: wait_service_def)

end
