(* ===== verification/Device.thy ===== *)
theory Device
  imports Services
begin

text \<open>
  The server's side of a device: going on- and offline, the connection banner, authentication, the
  packets a device sends (\<^verbatim>\<open>adb/adb.cpp\<close>, \<^verbatim>\<open>adb/client/auth.cpp\<close>), and the life of a transport from
  registration to destruction (\<^verbatim>\<open>adb/transport.cpp\<close>).
\<close>

section \<open>On- and offline\<close>

definition handle_online :: "nat \<Rightarrow> unit act" where
  "handle_online t = mod_tr t (\<lambda>tr. SetConnectionEstablished True (tr\<lparr>t_online := True\<rparr>))"

definition handle_offline :: "(nat \<Rightarrow> string \<Rightarrow> int act) \<Rightarrow> nat \<Rightarrow> unit act" where
  "handle_offline enq t =
     bindA (deref_tr t) (\<lambda>tr.
       if t_state tr = kCsOffline then retA ()
       else
         thenA (SetConnectionState enq t kCsOffline)
         (thenA (mod_tr t (\<lambda>tr. tr\<lparr>t_online := False\<rparr>))
         (thenA (close_all_sockets t)
         (RunDisconnects t))))"

section \<open>Connecting\<close>

definition get_connection_string :: "env \<Rightarrow> string" where
  "get_connection_string e =
     ''host'' @ ''::'' @ c_str (Join [''features='' @ c_str (FeatureSetToString (supported_features e))] '';'')"

definition send_tls_request :: "nat \<Rightarrow> unit act" where
  "send_tls_request t = send_packet (packet_of A_STLS A_STLS_VERSION 0 []) (Some t)"

definition send_connect :: "nat \<Rightarrow> unit act" where
  "send_connect t =
     bindA (deref_tr t) (\<lambda>tr.
     bindA (getA (\<lambda>w. get_connection_string (c_env (w_config w)))) (\<lambda>connection_str.
       if length connection_str > MAX_PAYLOAD_V1 then stopA LogFatal
       else send_packet (packet_of A_CNXN (word_of_int A_VERSION) (word_of_nat (t_max_payload tr)) connection_str) (Some t)))"

section \<open>The banner\<close>

definition banner_prop :: "env \<Rightarrow> string \<Rightarrow> atransport \<Rightarrow> atransport run" where
  "banner_prop e prop t =
     (if prop = [] then Done t
      else bindR (Split prop ''='') (\<lambda>key_value. Done (
        if length key_value \<noteq> 2 then t
        else (let key = key_value ! 0; value = key_value ! 1 in
          if key = ''ro.product.name'' then t\<lparr>t_product := value\<rparr>
          else if key = ''ro.product.model'' then t\<lparr>t_model := value\<rparr>
          else if key = ''ro.product.device'' then t\<lparr>t_device := value\<rparr>
          else if key = ''features'' then SetFeatures e value t
          else t))))"

primrec banner_props :: "env \<Rightarrow> string list \<Rightarrow> atransport \<Rightarrow> atransport run" where
  "banner_props e [] t = Done t"
| "banner_props e (p # ps) t = bindR (banner_prop e p t) (banner_props e ps)"

definition banner_state :: "string \<Rightarrow> connection_state" where
  "banner_state type =
     (if type = ''bootloader'' then kCsBootloader
      else if type = ''device'' then kCsDevice
      else if type = ''recovery'' then kCsRecovery
      else if type = ''sideload'' then kCsSideload
      else if type = ''rescue'' then kCsRescue
      else kCsHost)"

definition banner_fields :: "env \<Rightarrow> string list \<Rightarrow> atransport \<Rightarrow> atransport run" where
  "banner_fields e pieces t =
     (let t = SetFeatures e [] t in
      if length pieces > 2 then bindR (Split (pieces ! 2) '';'') (\<lambda>props. banner_props e props t)
      else Done t)"

definition parse_banner :: "(nat \<Rightarrow> string \<Rightarrow> int act) \<Rightarrow> string \<Rightarrow> nat \<Rightarrow> unit act" where
  "parse_banner enq banner t =
     bindA (liftA (Split banner '':'')) (\<lambda>pieces.
     bindA (deref_tr t) (\<lambda>tr.
     bindA (getA (\<lambda>w. c_env (w_config w))) (\<lambda>e.
     bindA (liftA (banner_fields e pieces tr)) (\<lambda>tr.
     thenA (mod_tr t (\<lambda>_. tr))
     (SetConnectionState enq t (banner_state (pieces ! 0)))))))"

definition handle_new_connection :: "(nat \<Rightarrow> string \<Rightarrow> int act) \<Rightarrow> nat \<Rightarrow> apacket \<Rightarrow> unit act" where
  "handle_new_connection enq t p =
     thenA (handle_offline enq t)
     (thenA (mod_tr t (update_version (sint (m_arg0 (p_msg p))) (unat (m_arg1 (p_msg p)))))
     (thenA (parse_banner enq (p_payload p) t)
     (handle_online t)))"

section \<open>Authentication\<close>

definition ADB_AUTH_TOKEN :: u32 where "ADB_AUTH_TOKEN = 1"
definition ADB_AUTH_SIGNATURE :: u32 where "ADB_AUTH_SIGNATURE = 2"
definition ADB_AUTH_RSAPUBLICKEY :: u32 where "ADB_AUTH_RSAPUBLICKEY = 3"

text \<open>\<^verbatim>\<open>t->NextKey()\<close> with the keys of the user.\<close>

definition NextKeyA :: "nat \<Rightarrow> nat option act" where
  "NextKeyA t =
     bindA (deref_tr t) (\<lambda>tr.
     bindA (getA (\<lambda>w. c_private_keys (w_config w))) (\<lambda>ks.
     bindA (liftA (NextKey ks tr)) (\<lambda>(key, tr).
     thenA (mod_tr t (\<lambda>_. tr)) (retA key))))"

definition send_auth_publickey :: "nat \<Rightarrow> unit act" where
  "send_auth_publickey t =
     bindA (getA (\<lambda>w. c_userkey (w_config w))) (\<lambda>key.
       if key = [] then retA ()
       else if length key \<ge> MAX_PAYLOAD_V1 then retA ()
       else send_packet (packet_of A_AUTH ADB_AUTH_RSAPUBLICKEY 0 (key @ [CHR 0x00])) (Some t))"

definition send_auth_response :: "(nat \<Rightarrow> string \<Rightarrow> int act) \<Rightarrow> string \<Rightarrow> nat \<Rightarrow> unit act" where
  "send_auth_response enq token t =
     bindA (NextKeyA t) (\<lambda>key.
       case key of
         None \<Rightarrow>
           thenA (SetConnectionState enq t kCsUnauthorized)
           (thenA (mod_tr t (SetConnectionEstablished True))
           (send_auth_publickey t))
       | Some k \<Rightarrow>
           bindA (getA (\<lambda>w. c_sign (w_config w) k token)) (\<lambda>result.
             if result = [] then retA ()
             else send_packet (packet_of A_AUTH ADB_AUTH_SIGNATURE 0 result) (Some t)))"

text \<open>The handshake runs on a thread; \<open>success\<close> is what \<^verbatim>\<open>DoTlsHandshake\<close> returns there.\<close>

definition adb_auth_tls_handshake :: "nat \<Rightarrow> unit act" where
  "adb_auth_tls_handshake t = modA (\<lambda>w. w\<lparr>w_threads := w_threads w @ [TlsThread t]\<rparr>)"

definition tls_handshake_thread :: "bool \<Rightarrow> nat \<Rightarrow> unit act" where
  "tls_handshake_thread success t =
     bindA (deref_tr t) (\<lambda>tr.
     bindA (if transport_Key tr = None then bindA (NextKeyA t) (\<lambda>key. checkA (key \<noteq> None)) else retA ()) (\<lambda>_.
       if success then retA () else mod_conn t transport_Kick))"

section \<open>Packets\<close>

text \<open>
  \<^verbatim>\<open>A_OPEN\<close>.  The allow-list is asked with \<^verbatim>\<open>address.data()\<close>, a C string: a payload without a zero
  byte is read past its end.
\<close>

definition open_service :: "nat \<Rightarrow> u32 \<Rightarrow> u32 \<Rightarrow> string \<Rightarrow> (nat option) act" where
  "open_service t arg0 send_bytes address =
     bindA (create_local_service_socket address t) (\<lambda>sv.
       case sv of
         None \<Rightarrow> thenA (send_close 0 arg0 (Some t)) (retA None)
       | Some s \<Rightarrow>
           bindA (create_remote_socket arg0 t) (\<lambda>p.
           thenA (mod_sock s (\<lambda>so. so\<lparr>so_peer := Some p\<rparr>))
           (thenA (mod_sock p (\<lambda>po. po\<lparr>so_peer := Some s\<rparr>))
           (bindA (deref_tr t) (\<lambda>tr.
           bindA (deref_sock s) (\<lambda>so.
           thenA (if t_delayed_ack tr
                  then thenA (mod_sock s (\<lambda>so. so\<lparr>so_available_send_bytes := Some (uint send_bytes)\<rparr>))
                       (send_ready (so_id so) arg0 (Some t) (word_of_nat INITIAL_DELAYED_ACK_BYTES))
                  else send_ready (so_id so) arg0 (Some t) 0)
           (retA (Some s))))))))"

definition handle_open :: "(nat \<Rightarrow> string \<Rightarrow> int act) \<Rightarrow> apacket \<Rightarrow> nat \<Rightarrow> unit act" where
  "handle_open enq p t =
     bindA (deref_tr t) (\<lambda>tr.
     let arg0 = m_arg0 (p_msg p); send_bytes = m_arg1 (p_msg p) in
       if \<not> t_online tr \<or> arg0 = 0 then retA ()
       else if t_delayed_ack tr \<noteq> (send_bytes \<noteq> 0) then send_close 0 arg0 (Some t)
       else if CHR 0x00 \<notin> set (p_payload p) then stopA OutOfRange
       else if \<not> IsReverseConfigured (c_str (p_payload p)) tr then stopA LogFatal
       else
         bindA (open_service t arg0 send_bytes (StripTrailingNulls (p_payload p))) (\<lambda>sv.
           case sv of None \<Rightarrow> retA () | Some s \<Rightarrow> do_ready enq s))"

definition acked_bytes :: "string \<Rightarrow> int option option" where
  "acked_bytes payload =
     (if length payload = 4 then Some (Some (sint (of_le32 payload)))
      else if payload = [] then Some None
      else None)"

definition handle_okay :: "(nat \<Rightarrow> string \<Rightarrow> int act) \<Rightarrow> apacket \<Rightarrow> nat \<Rightarrow> unit act" where
  "handle_okay enq p t =
     bindA (deref_tr t) (\<lambda>tr.
     let arg0 = m_arg0 (p_msg p); arg1 = m_arg1 (p_msg p) in
       if t_online tr \<and> arg0 \<noteq> 0 \<and> arg1 \<noteq> 0 then
         bindA (find_local_socket arg1 0) (\<lambda>found.
           case found of
             None \<Rightarrow> send_close arg1 arg0 (Some t)
           | Some s \<Rightarrow>
               (case acked_bytes (p_payload p) of
                  None \<Rightarrow> retA ()
                | Some acked \<Rightarrow>
                    bindA (deref_sock s) (\<lambda>so.
                      case so_peer so of
                        None \<Rightarrow>
                          bindA (create_remote_socket arg0 t) (\<lambda>p.
                          thenA (mod_sock s (\<lambda>so. so\<lparr>so_peer := Some p\<rparr>))
                          (thenA (mod_sock p (\<lambda>po. po\<lparr>so_peer := Some s\<rparr>))
                          (thenA (local_socket_ack enq s acked)
                          (do_ready enq s))))
                      | Some pr \<Rightarrow>
                          bindA (deref_sock pr) (\<lambda>po.
                            if so_id po = arg0 then local_socket_ack enq s acked else retA ()))))
       else retA ())"

definition handle_close :: "apacket \<Rightarrow> nat \<Rightarrow> unit act" where
  "handle_close p t =
     bindA (deref_tr t) (\<lambda>tr.
     let arg0 = m_arg0 (p_msg p); arg1 = m_arg1 (p_msg p) in
       if t_online tr \<and> arg1 \<noteq> 0 then
         bindA (find_local_socket arg1 arg0) (\<lambda>found.
           case found of
             None \<Rightarrow> retA ()
           | Some s \<Rightarrow>
               bindA (deref_sock s) (\<lambda>so.
               bindA (case so_peer so of
                        None \<Rightarrow> retA False
                      | Some pr \<Rightarrow> bindA (deref_sock pr) (\<lambda>po. retA (arg0 = 0 \<and> so_transport po \<noteq> Some t))) (\<lambda>foreign.
                 if foreign then retA () else sock_close s)))
       else retA ())"

definition handle_write :: "(nat \<Rightarrow> string \<Rightarrow> int act) \<Rightarrow> apacket \<Rightarrow> nat \<Rightarrow> unit act" where
  "handle_write enq p t =
     bindA (deref_tr t) (\<lambda>tr.
     let arg0 = m_arg0 (p_msg p); arg1 = m_arg1 (p_msg p) in
       if t_online tr \<and> arg0 \<noteq> 0 \<and> arg1 \<noteq> 0 then
         bindA (find_local_socket arg1 arg0) (\<lambda>found.
           case found of
             None \<Rightarrow> retA ()
           | Some s \<Rightarrow> bindA (enq s (p_payload p)) (\<lambda>_. retA ()))
       else retA ())"

definition handle_auth :: "(nat \<Rightarrow> string \<Rightarrow> int act) \<Rightarrow> apacket \<Rightarrow> nat \<Rightarrow> unit act" where
  "handle_auth enq p t =
     bindA (deref_tr t) (\<lambda>tr.
       if t_use_tls tr then retA ()
       else if m_arg0 (p_msg p) = ADB_AUTH_TOKEN then
         thenA (whenA (t_state tr \<noteq> kCsAuthorizing) (SetConnectionState enq t kCsAuthorizing))
         (send_auth_response enq (p_payload p) t)
       else
         thenA (SetConnectionState enq t kCsOffline)
         (handle_offline enq t))"

definition handle_packet :: "(nat \<Rightarrow> string \<Rightarrow> int act) \<Rightarrow> apacket \<Rightarrow> nat \<Rightarrow> unit act" where
  "handle_packet enq p t =
     thenA (checkA (length (p_payload p) = unat (m_data_length (p_msg p))))
     (let c = m_command (p_msg p) in
      if c = A_CNXN then handle_new_connection enq t p
      else if c = A_STLS then
        thenA (mod_tr t (\<lambda>tr. tr\<lparr>t_use_tls := True\<rparr>))
        (thenA (send_tls_request t)
        (adb_auth_tls_handshake t))
      else if c = A_AUTH then handle_auth enq p t
      else if c = A_OPEN then handle_open enq p t
      else if c = A_OKAY then handle_okay enq p t
      else if c = A_CLSE then handle_close p t
      else if c = A_WRTE then handle_write enq p t
      else retA ())"

end
