(* ===== verification/Lifecycle.thy ===== *)
theory Lifecycle
  imports Device
begin

text \<open>
  The life of a transport (\<^verbatim>\<open>adb/transport.cpp\<close>, \<^verbatim>\<open>adb/client/transport_local.cpp\<close>): registration from a
  connected socket or a USB device, kicking, destruction or reconnection, and the functions other
  threads queue for the looper.
\<close>

section \<open>Queues\<close>

definition run_on_looper :: "looper_task \<Rightarrow> unit act" where
  "run_on_looper task = modA (\<lambda>w. w\<lparr>run_queue := run_queue w @ [task]\<rparr>)"

definition register_transport :: "nat \<Rightarrow> unit act" where
  "register_transport t = run_on_looper (RunRegister t)"

definition remove_transport :: "nat \<Rightarrow> unit act" where
  "remove_transport t = run_on_looper (RunUnregister t)"

text \<open>The reconnect queue is a set ordered by time, then by address; an equal element is not inserted.\<close>

definition ra_less :: "reconnect_attempt \<Rightarrow> reconnect_attempt \<Rightarrow> bool" where
  "ra_less a b \<longleftrightarrow>
     (if ra_time a = ra_time b then ra_transport a < ra_transport b else ra_time a < ra_time b)"

fun ra_emplace :: "reconnect_attempt \<Rightarrow> reconnect_attempt list \<Rightarrow> reconnect_attempt list" where
  "ra_emplace a [] = [a]"
| "ra_emplace a (b # bs) =
     (if ra_less a b then a # b # bs else if ra_less b a then b # ra_emplace a bs else b # bs)"

definition kMaxAttempts :: nat where
  "kMaxAttempts = 20"

definition TrackTransport :: "nat \<Rightarrow> unit act" where
  "TrackTransport t =
     modA (\<lambda>w. if \<not> reconnect_running w then w
               else w\<lparr>reconnect_queue := ra_emplace
                      \<lparr>ra_transport = t, ra_time = w_now w + 250, ra_left = kMaxAttempts\<rparr> (reconnect_queue w)\<rparr>)"

section \<open>Kicking\<close>

text \<open>\<^verbatim>\<open>CheckForKicked\<close> only wakes the reconnect thread.\<close>

definition kick_transport :: "nat \<Rightarrow> bool \<Rightarrow> unit act" where
  "kick_transport t reset =
     bindA (getA transport_list) (\<lambda>ts.
       whenA (t \<in> set ts) (mod_conn t (if reset then transport_Reset else transport_Kick)))"

definition close_usb_devices :: "(atransport \<Rightarrow> bool) \<Rightarrow> bool \<Rightarrow> unit act" where
  "close_usb_devices predicate reset =
     bindA (getA transport_list) (\<lambda>ts.
       forA (\<lambda>t. bindA (deref_tr t) (\<lambda>tr.
         whenA (predicate tr) (mod_conn t (if reset then transport_Reset else transport_Kick)))) ts)"

definition kick_all_tcp_devices :: "unit act" where
  "kick_all_tcp_devices =
     bindA (getA transport_list) (\<lambda>ts.
       forA (\<lambda>t. bindA (deref_tr t) (\<lambda>tr. whenA (IsTcpDevice tr) (mod_conn t transport_Kick))) ts)"

definition kick_all_tcp_tls_transports :: "unit act" where
  "kick_all_tcp_tls_transports =
     bindA (getA transport_list) (\<lambda>ts.
       forA (\<lambda>t. bindA (deref_tr t) (\<lambda>tr.
         whenA (IsTcpDevice tr \<and> t_use_tls tr) (mod_conn t transport_Kick))) ts)"

text \<open>\<^verbatim>\<open>ReconnectHandler::Stop\<close> hands every waiting transport to \<^const>\<open>remove_transport\<close>.\<close>

definition reconnect_Stop :: "unit act" where
  "reconnect_Stop =
     thenA (modA (\<lambda>w. w\<lparr>reconnect_running := False\<rparr>))
     (bindA (getA reconnect_queue) (\<lambda>q.
     thenA (modA (\<lambda>w. w\<lparr>reconnect_queue := []\<rparr>))
     (forA (\<lambda>a. remove_transport (ra_transport a)) q)))"

definition kick_all_transports :: "unit act" where
  "kick_all_transports =
     thenA reconnect_Stop
     (bindA (getA transport_list) (\<lambda>ts. forA (\<lambda>t. mod_conn t transport_Kick) ts))"

section \<open>Registering and destroying\<close>

text \<open>
  Deleting a transport deletes its connection, which is stopped first; an \<^verbatim>\<open>EmulatorConnection\<close> asks
  for its port to be retried.
\<close>

definition LOCAL_PORT_RETRY_COUNT :: u32 where
  "LOCAL_PORT_RETRY_COUNT = 60"

definition delete_tr :: "nat \<Rightarrow> unit act" where
  "delete_tr t =
     thenA (mod_conn t connection_Stop)
     (bindA (deref_tr t) (\<lambda>tr.
     thenA (modA (\<lambda>w. w\<lparr>w_transport := (w_transport w)(t := None)\<rparr>))
     (case t_emulator_port tr of
        None \<Rightarrow> retA ()
      | Some p \<Rightarrow> modA (\<lambda>w. w\<lparr>retry_ports := retry_ports w @ [(p, LOCAL_PORT_RETRY_COUNT)]\<rparr>))))"

definition fdevent_unregister_transport :: "(nat \<Rightarrow> string \<Rightarrow> int act) \<Rightarrow> nat \<Rightarrow> unit act" where
  "fdevent_unregister_transport enq t =
     thenA (modA (\<lambda>w. w\<lparr>transport_list := filter (\<lambda>x. x \<noteq> t) (transport_list w)\<rparr>))
     (thenA (delete_tr t)
     (update_transports enq))"

definition connection_Start :: "nat \<Rightarrow> unit act" where
  "connection_Start t =
     bindA (deref_tr t) (\<lambda>tr. if t_started tr then stopA LogFatal else mod_tr t (\<lambda>tr. tr\<lparr>t_started := True\<rparr>))"

definition usb_devices_start_detached :: "config \<Rightarrow> bool" where
  "usb_devices_start_detached c \<longleftrightarrow> c_libusb_enabled c \<and> c_start_detached c"

definition fdevent_register_transport :: "(nat \<Rightarrow> string \<Rightarrow> int act) \<Rightarrow> nat \<Rightarrow> unit act" where
  "fdevent_register_transport enq t =
     bindA (deref_tr t) (\<lambda>tr.
     bindA (getA w_config) (\<lambda>c.
     thenA (whenA (t_state tr \<noteq> kCsNoPerm)
              (if t_type tr = kTransportUsb \<and> usb_devices_start_detached c
               then SetConnectionState enq t kCsDetached
               else thenA (connection_Start t) (send_connect t)))
     (thenA (modA (\<lambda>w. if t \<in> set (pending_list w)
                      then w\<lparr>pending_list := filter (\<lambda>x. x \<noteq> t) (pending_list w), transport_list := t # transport_list w\<rparr>
                      else w))
     (update_transports enq))))"

definition transport_destroy :: "nat \<Rightarrow> unit act" where
  "transport_destroy t =
     thenA (mod_conn t connection_Stop)
     (bindA (deref_tr t) (\<lambda>tr.
       if IsTcpDevice tr \<and> \<not> t_kicked tr
       then thenA (mod_tr t ResetKeys) (TrackTransport t)
       else remove_transport t))"

section \<open>Attaching and detaching\<close>

text \<open>The error text, or \<open>None\<close> on success.\<close>

definition transport_Attach :: "nat \<Rightarrow> string option act" where
  "transport_Attach t =
     bindA (deref_tr t) (\<lambda>tr.
     bindA (getA w_config) (\<lambda>c.
       if \<not> c_libusb_enabled c then retA (Some ''attach/detach only implemented for libusb backend'')
       else if t_state tr \<noteq> kCsDetached then
         retA (Some (''transport '' @ c_str (t_serial tr) @ '' is not detached''))
       else
         thenA (mod_tr t ResetKeys)
         (case c_attach c t of
            Some err \<Rightarrow> retA (Some err)
          | None \<Rightarrow> thenA (send_connect t) (retA None))))"

definition transport_Detach :: "(nat \<Rightarrow> string \<Rightarrow> int act) \<Rightarrow> nat \<Rightarrow> string option act" where
  "transport_Detach enq t =
     bindA (deref_tr t) (\<lambda>tr.
     bindA (getA w_config) (\<lambda>c.
       if \<not> c_libusb_enabled c then retA (Some ''attach/detach only implemented for libusb backend'')
       else if t_state tr = kCsDetached then
         retA (Some (''transport '' @ c_str (t_serial tr) @ '' is already detached''))
       else
         thenA (handle_offline enq t)
         (case c_detach c t of
            Some err \<Rightarrow> retA (Some err)
          | None \<Rightarrow> thenA (SetConnectionState enq t kCsDetached) (retA None))))"

section \<open>What a connection reports\<close>

definition HandleRead :: "apacket \<Rightarrow> nat \<Rightarrow> bool act" where
  "HandleRead p t =
     bindA (deref_tr t) (\<lambda>tr.
       if \<not> check_header (t_max_payload tr) p then retA False
       else thenA (run_on_looper (RunHandlePacket p t)) (retA True))"

definition HandleError :: "nat \<Rightarrow> unit act" where
  "HandleError t = run_on_looper (RunHandleError t)"

definition run_task :: "(nat \<Rightarrow> string \<Rightarrow> int act) \<Rightarrow> looper_task \<Rightarrow> unit act" where
  "run_task enq task =
     (case task of
        RunRegister t \<Rightarrow> fdevent_register_transport enq t
      | RunUnregister t \<Rightarrow> fdevent_unregister_transport enq t
      | RunHandlePacket p t \<Rightarrow> handle_packet enq p t
      | RunHandleError t \<Rightarrow> thenA (handle_offline enq t) (transport_destroy t))"

section \<open>New transports\<close>

definition new_tr :: "(nat \<Rightarrow> atransport) \<Rightarrow> nat act" where
  "new_tr mk w =
     (let t = w_next_transport w in
      Done (t, w\<lparr>w_transport := (w_transport w)(t \<mapsto> mk t), w_next_transport := Suc t\<rparr>))"

definition add_pending :: "nat \<Rightarrow> unit act" where
  "add_pending t = modA (\<lambda>w. w\<lparr>pending_list := t # pending_list w\<rparr>)"

definition register_usb_transport :: "string option \<Rightarrow> string option \<Rightarrow> bool \<Rightarrow> unit act" where
  "register_usb_transport serial devpath writeable =
     bindA (new_tr (\<lambda>i. (new_atransport i (if writeable then kCsOffline else kCsNoPerm))
       \<lparr>t_serial := (case serial of None \<Rightarrow> [] | Some x \<Rightarrow> c_str x),
        t_devpath := (case devpath of None \<Rightarrow> [] | Some x \<Rightarrow> c_str x), t_type := kTransportUsb\<rparr>)) (\<lambda>t.
     thenA (add_pending t)
     (register_transport t))"

text \<open>\<^verbatim>\<open>init_socket_transport\<close>; a new connection has not been started.  \<open>False\<close> stands for a negative result.\<close>

definition set_connection :: "int option \<Rightarrow> atransport \<Rightarrow> atransport" where
  "set_connection port tr =
     tr\<lparr>t_accepts := True, t_sent := [], t_started := False, t_stopped := False, t_emulator_port := port\<rparr>"

definition init_socket_transport :: "nat \<Rightarrow> int \<Rightarrow> bool \<Rightarrow> bool act" where
  "init_socket_transport t adb_port local =
     thenA (mod_tr t (\<lambda>tr. set_connection (if local then Some adb_port else None) (tr\<lparr>t_type := kTransportLocal\<rparr>)))
     (if local then
        bindA (getA local_transports) (\<lambda>lt.
          if map_of lt adb_port \<noteq> None then retA False
          else thenA (modA (\<lambda>w. w\<lparr>local_transports := AList.update adb_port t (local_transports w)\<rparr>)) (retA True))
      else retA True)"

datatype register_error = EALREADY | ETIMEDOUT | EPERM | EOTHER_ERRNO

definition validate_transport_list :: "(world \<Rightarrow> nat list) \<Rightarrow> string \<Rightarrow> nat \<Rightarrow> bool act" where
  "validate_transport_list lst serial t =
     bindA (deref_list lst) (\<lambda>ts.
       if list_ex (\<lambda>(r, tr). t_serial tr = serial) ts
       then thenA (delete_tr t) (retA False)
       else retA True)"

text \<open>
  \<^verbatim>\<open>register_socket_transport\<close> up to the point where it waits for the connection, and what it returns
  afterwards; an emulator is not waited for.
\<close>

definition begin_register ::
    "string \<Rightarrow> int \<Rightarrow> bool \<Rightarrow> string option \<Rightarrow> bool \<Rightarrow> (register_error + nat) act" where
  "begin_register serial port local reconnect use_tls =
     bindA (new_tr (\<lambda>i. (new_atransport i kCsOffline)\<lparr>t_reconnect := reconnect, t_use_tls := use_tls, t_serial := serial\<rparr>)) (\<lambda>t.
     bindA (init_socket_transport t port local) (\<lambda>ok.
       if \<not> ok then thenA (delete_tr t) (retA (Inl EOTHER_ERRNO))
       else
         bindA (validate_transport_list pending_list serial t) (\<lambda>ok.
           if \<not> ok then retA (Inl EALREADY)
           else
             bindA (validate_transport_list transport_list serial t) (\<lambda>ok.
               if \<not> ok then retA (Inl EALREADY)
               else
                 thenA (add_pending t)
                 (thenA (register_transport t)
                 (retA (Inr t)))))))"

definition end_register :: "waitable \<Rightarrow> nat \<Rightarrow> (register_error option) act" where
  "end_register waited t =
     (if \<not> waitable_result waited then retA (Some ETIMEDOUT)
      else
        bindA (deref_tr t) (\<lambda>tr.
          retA (if t_state tr = kCsUnauthorized then Some EPERM else None)))"

section \<open>Emulators\<close>

definition find_emulator_transport_by_adb_port :: "int \<Rightarrow> nat option act" where
  "find_emulator_transport_by_adb_port adb_port = getA (\<lambda>w. map_of (local_transports w) adb_port)"

definition getEmulatorSerialString :: "int \<Rightarrow> string" where
  "getEmulatorSerialString console_port = ''emulator-'' @ dec_int console_port"

definition find_emulator_transport_by_console_port :: "int \<Rightarrow> nat option act" where
  "find_emulator_transport_by_console_port console_port =
     bindA (deref_list transport_list) (\<lambda>ts. retA (find_transport ts (getEmulatorSerialString console_port)))"

text \<open>
  The loopback is tried if \<^verbatim>\<open>ADBHOST\<close> is not set or does not answer; the text of a failed attempt
  stays in \<^verbatim>\<open>*error\<close>.
\<close>

definition connect_emulator_port :: "config \<Rightarrow> int \<Rightarrow> net \<Rightarrow> string \<times> nat option" where
  "connect_emulator_port c adb_port n =
     (case (case c_adbhost c of None \<Rightarrow> Inl [] | Some host \<Rightarrow> network_connect n host adb_port) of
        Inr fd \<Rightarrow> ([], Some fd)
      | Inl err \<Rightarrow>
          (case network_loopback_client n adb_port of
             Inr fd \<Rightarrow> (err, Some fd)
           | Inl err' \<Rightarrow> (err', None)))"

definition local_connect_arbitrary_ports :: "int \<Rightarrow> int \<Rightarrow> (bool \<times> string) act" where
  "local_connect_arbitrary_ports console_port adb_port =
     bindA (find_emulator_transport_by_adb_port adb_port) (\<lambda>by_adb.
     bindA (if by_adb \<noteq> None then retA by_adb else find_emulator_transport_by_console_port console_port) (\<lambda>known.
       if known \<noteq> None then retA (False, [])
       else
         bindA (getA w_config) (\<lambda>c.
         bindA (on_net (connect_emulator_port c adb_port)) (\<lambda>(err, fd).
           if fd = None then retA (False, err)
           else
             bindA (begin_register (getEmulatorSerialString console_port) adb_port True None False) (\<lambda>r.
               retA (case r of Inl e \<Rightarrow> (False, err) | Inr t \<Rightarrow> (True, err)))))))"

definition local_connect :: "int \<Rightarrow> bool act" where
  "local_connect port = bindA (local_connect_arbitrary_ports (port - 1) port) (\<lambda>(ok, err). retA ok)"

text \<open>One pass of the retry thread over the ports it took; those that are to be tried again.\<close>

primrec retry_pass :: "(int \<times> u32) list \<Rightarrow> (int \<times> u32) list act" where
  "retry_pass [] = retA []"
| "retry_pass (p # ps) =
     (case p of (port, retry_count) \<Rightarrow>
        bindA (local_connect port) (\<lambda>ok.
        bindA (retry_pass ps) (\<lambda>next_ports.
          retA (if \<not> ok \<and> retry_count - 1 > 0 then (port, retry_count - 1) # next_ports else next_ports))))"

definition retry_ports_round :: "unit act" where
  "retry_ports_round =
     bindA (getA retry_ports) (\<lambda>ports.
     thenA (modA (\<lambda>w. w\<lparr>retry_ports := []\<rparr>))
     (bindA (retry_pass ports) (\<lambda>next_ports.
     modA (\<lambda>w. w\<lparr>retry_ports := retry_ports w @ next_ports\<rparr>))))"

section \<open>Connecting on request\<close>

text \<open>
  \<^verbatim>\<open>connect_device\<close> up to its wait: the response, or the transport that is waited for with its serial.
  \<open>garbage\<close> is the content of the local variable \<^verbatim>\<open>port\<close>, which is not initialised.
\<close>

definition register_response :: "string \<Rightarrow> register_error option \<Rightarrow> string" where
  "register_response serial r =
     (case r of
        None \<Rightarrow> ''connected to '' @ c_str serial
      | Some EALREADY \<Rightarrow> ''already connected to '' @ c_str serial
      | Some EPERM \<Rightarrow> ''failed to authenticate to '' @ c_str serial
      | Some _ \<Rightarrow> ''failed to connect to '' @ c_str serial)"

definition connect_device_begin :: "u32 \<Rightarrow> string \<Rightarrow> (string + nat \<times> string) act" where
  "connect_device_begin garbage address =
     (if address = [] then retA (Inl ''empty address'')
      else
        let prefix_addr = (if StartsWith address ''vsock:'' \<or> StartsWith address ''localfilesystem:'' then address
                           else ''tcp:'' @ address) in
        bindA (on_net (\<lambda>n. socket_spec_connect n prefix_addr garbage)) (\<lambda>connect.
        bindA (liftA connect) (\<lambda>r.
          if sr_fd r = None then retA (Inl (sr_error r))
          else
            let serial = (case sr_serial r of None \<Rightarrow> [] | Some x \<Rightarrow> x);
                port = (case sr_port r of None \<Rightarrow> sint garbage | Some p \<Rightarrow> p) in
            bindA (begin_register serial port False (Some prefix_addr) False) (\<lambda>r.
              retA (case r of
                      Inl e \<Rightarrow> Inl (register_response serial (Some e))
                    | Inr t \<Rightarrow> Inr (t, serial))))))"

definition connect_device_end :: "waitable \<Rightarrow> nat \<Rightarrow> string \<Rightarrow> string act" where
  "connect_device_end waited t serial =
     bindA (end_register waited t) (\<lambda>r. retA (register_response serial r))"

text \<open>The reconnect callback \<^verbatim>\<open>connect_device\<close> leaves in the transport.\<close>

datatype reconnect_result = Retry | Success | Abort

definition transport_Reconnect :: "u32 \<Rightarrow> nat \<Rightarrow> reconnect_result act" where
  "transport_Reconnect garbage t =
     bindA (deref_tr t) (\<lambda>tr.
       case t_reconnect tr of
         None \<Rightarrow> retA Abort
       | Some prefix_addr \<Rightarrow>
           bindA (on_net (\<lambda>n. socket_spec_connect n prefix_addr garbage)) (\<lambda>connect.
           bindA (liftA connect) (\<lambda>r.
             if sr_fd r = None then retA Retry
             else
               bindA (init_socket_transport t (case sr_port r of None \<Rightarrow> sint garbage | Some p \<Rightarrow> p) False) (\<lambda>ok.
                 retA (if ok then Success else Retry)))))"

text \<open>\<^verbatim>\<open>strtol(s, nullptr, 0)\<close> assigned to an \<^verbatim>\<open>int\<close>.\<close>

definition strtol_base :: "string \<Rightarrow> nat" where
  "strtol_base s =
     (case s of
        c0 # x # d # r \<Rightarrow>
          if c0 = CHR ''0'' \<and> (x = CHR ''x'' \<or> x = CHR ''X'') \<and> is_digit_in 16 d then 16
          else if c0 = CHR ''0'' then 8 else 10
      | c0 # r \<Rightarrow> if c0 = CHR ''0'' then 8 else 10
      | [] \<Rightarrow> 10)"

definition strtol_int :: "string \<Rightarrow> int" where
  "strtol_int s =
     (let s1 = dropWhile is_space (c_str s);
          s2 = (case s1 of c # r \<Rightarrow> if c = CHR ''-'' \<or> c = CHR ''+'' then r else s1 | [] \<Rightarrow> []);
          b = strtol_base s2
      in case strto_scan b s of (neg, ds, rest) \<Rightarrow>
        let v = (if neg then - int (of_base b ds) else int (of_base b ds)) in
        sint (word_of_int (max (- (2 ^ 63)) (min (2 ^ 63 - 1) v)) :: 32 word))"

definition connect_emulator :: "string \<Rightarrow> string act" where
  "connect_emulator port_spec =
     bindA (liftA (Split port_spec '','')) (\<lambda>pieces.
       if length pieces \<noteq> 2 then
         retA (''unable to parse '' @ quoted (c_str port_spec) @ '' as <console port>,<adb port>'')
       else
         let console_port = strtol_int (pieces ! 0); adb_port = strtol_int (pieces ! 1) in
         if console_port \<le> 0 \<or> adb_port \<le> 0 then retA (''Invalid port numbers: '' @ c_str port_spec)
         else
           bindA (find_emulator_transport_by_adb_port adb_port) (\<lambda>known_emulator.
             if known_emulator \<noteq> None then retA (''Emulator already registered on port '' @ dec_int adb_port)
             else
               bindA (local_connect_arbitrary_ports console_port adb_port) (\<lambda>(ok, err).
                 retA (if ok then ''Connected to emulator on ports '' @ dec_int console_port @ '','' @ dec_int adb_port
                       else ''Could not connect to emulator on ports '' @ dec_int console_port @ '','' @
                              dec_int adb_port @ '': '' @ c_str err))))"

end
