(* ===== verification/Host_Request.thy ===== *)
theory Host_Request
  imports Lifecycle
begin

text \<open>
  The requests of clients: forwarding and host requests (\<^verbatim>\<open>adb/adb.cpp\<close>) and the smart socket that
  reads them (\<^verbatim>\<open>adb/sockets.cpp\<close>).  The last definitions close the circle of sockets that hand
  data to each other.
\<close>

section \<open>Answers\<close>

definition SendOkayString :: "nat option \<Rightarrow> string \<Rightarrow> unit act" where
  "SendOkayString fd s = thenA (SendOkayA fd) (SendProtocolStringA fd s)"

definition le64 :: "nat \<Rightarrow> string" where
  "le64 n = map (\<lambda>i. char_of (n div 256 ^ i mod 256)) [0..<8]"

definition WriteFdExactlyA :: "nat option \<Rightarrow> string \<Rightarrow> unit act" where
  "WriteFdExactlyA fd s = bindA (write_fd fd (\<lambda>es. WriteFdExactly es s)) (\<lambda>_. retA ())"

text \<open>\<^verbatim>\<open>acquire_one_transport\<close> on the global list: the transport and the error text.\<close>

definition acquireA :: "transport_type \<Rightarrow> string option \<Rightarrow> nat \<Rightarrow> bool \<Rightarrow> (nat option \<times> string) act" where
  "acquireA type serial transport_id accept_any_state =
     bindA (deref_list transport_list) (\<lambda>ts.
     bindA (getA (\<lambda>w. c_env (w_config w))) (\<lambda>e.
     bindA (liftA (acquire_one_transport e ts type serial transport_id accept_any_state)) (\<lambda>(t, err, amb).
       retA (t, err))))"

definition find_transportA :: "string \<Rightarrow> nat option act" where
  "find_transportA serial = bindA (deref_list transport_list) (\<lambda>ts. retA (find_transport ts serial))"

section \<open>Forwarding\<close>

definition forward_failure :: "install_status \<Rightarrow> string \<Rightarrow> string \<Rightarrow> string" where
  "forward_failure r err service =
     (case r of
        INSTALL_STATUS_OK \<Rightarrow> ''success (!)''
      | INSTALL_STATUS_INTERNAL_ERROR \<Rightarrow> ''internal error''
      | INSTALL_STATUS_CANNOT_BIND \<Rightarrow> ''cannot bind listener: '' @ c_str err
      | INSTALL_STATUS_CANNOT_REBIND \<Rightarrow> ''cannot rebind existing socket''
      | INSTALL_STATUS_LISTENER_NOT_FOUND \<Rightarrow> ''listener '' @ quoted service @ '' not found'')"

text \<open>
  A forward or killforward request whose prefix is stripped, on the acquired transport.
\<close>

definition forward_on :: "bool \<Rightarrow> bool \<Rightarrow> string \<Rightarrow> nat \<Rightarrow> nat option \<Rightarrow> unit act" where
  "forward_on kill_forward no_rebind service transport reply_fd =
     bindA (liftA (Split service '';'')) (\<lambda>pieces.
       if kill_forward \<and> (length pieces \<noteq> 1 \<or> pieces ! 0 = [])
       then SendFailA reply_fd (''bad killforward: '' @ service)
       else if \<not> kill_forward \<and> (length pieces \<noteq> 2 \<or> pieces ! 0 = [] \<or> pieces ! 1 = [] \<or> hd (pieces ! 1) = CHR ''*'')
       then SendFailA reply_fd (''bad forward: '' @ service)
       else
         bindA (if kill_forward
                then bindA (remove_listener (pieces ! 0)) (\<lambda>r. retA (r, [], 0))
                else install_listener (pieces ! 0) (pieces ! 1) (Some transport)
                       (if no_rebind then INSTALL_LISTENER_NO_REBIND else 0)) (\<lambda>(r, err, resolved_tcp_port).
           if r = INSTALL_STATUS_OK then
             thenA (SendOkayA reply_fd)
             (thenA (SendOkayA reply_fd)
             (whenA (resolved_tcp_port \<noteq> 0) (SendProtocolStringA reply_fd (dec_int resolved_tcp_port))))
           else SendFailA reply_fd (forward_failure r err service)))"

text \<open>\<^verbatim>\<open>service\<close> is a C string; the result says whether the request was one of these.\<close>

definition handle_forward_request :: "string \<Rightarrow> (nat option \<times> string) act \<Rightarrow> nat option \<Rightarrow> bool act" where
  "handle_forward_request service transport_acquirer reply_fd =
     (if service = ''list-forward'' then
        bindA format_listeners (\<lambda>listeners.
        thenA (SendOkayA reply_fd)
        (thenA (SendProtocolStringA reply_fd listeners)
        (retA True)))
      else if service = ''killforward-all'' then
        thenA remove_all_listeners
        (thenA (SendOkayA reply_fd)
        (thenA (SendOkayA reply_fd)
        (retA True)))
      else if StartsWith service ''forward:'' \<or> StartsWith service ''killforward:'' then
        bindA transport_acquirer (\<lambda>(transport, err).
          case transport of
            None \<Rightarrow> thenA (SendFailA reply_fd err) (retA True)
          | Some t \<Rightarrow>
              thenA
                (case ConsumePrefix service ''killforward:'' of
                   Some rest \<Rightarrow> forward_on True False rest t reply_fd
                 | None \<Rightarrow>
                     (case ConsumePrefix (drop 8 service) ''norebind:'' of
                        Some rest \<Rightarrow> forward_on False True rest t reply_fd
                      | None \<Rightarrow> forward_on False False (drop 8 service) t reply_fd))
                (retA True))
      else retA False)"

section \<open>Host requests\<close>

datatype host_request_result = Handled | SwitchedTransport | Unhandled

definition ADB_SERVER_VERSION :: nat where
  "ADB_SERVER_VERSION = 41"

text \<open>
  The selector of a \<^verbatim>\<open>transport\<close> or \<^verbatim>\<open>tport:\<close> request: legacy form or not, type, serial and id; \<open>None\<close>
  for an invalid id.  The type the request came with is not used.
\<close>

definition select_transport ::
    "string \<Rightarrow> string option \<Rightarrow> nat \<Rightarrow> (bool \<times> transport_type \<times> string option \<times> nat) option" where
  "select_transport service serial transport_id =
     (case ConsumePrefix service ''tport:'' of
        Some rest \<Rightarrow>
          (case ConsumePrefix rest ''serial:'' of
             Some sn \<Rightarrow> Some (False, kTransportAny, Some (c_str sn), transport_id)
           | None \<Rightarrow>
               if rest = ''usb'' then Some (False, kTransportUsb, serial, transport_id)
               else if rest = ''local'' then Some (False, kTransportLocal, serial, transport_id)
               else Some (False, kTransportAny, serial, transport_id))
      | None \<Rightarrow>
          (case ConsumePrefix service ''transport-id:'' of
             Some i \<Rightarrow>
               (case ParseUint_all (2 ^ 64) i of
                  None \<Rightarrow> None
                | Some tid \<Rightarrow> Some (True, kTransportAny, serial, tid))
           | None \<Rightarrow>
               if service = ''transport-usb'' then Some (True, kTransportUsb, serial, transport_id)
               else if service = ''transport-local'' then Some (True, kTransportLocal, serial, transport_id)
               else if service = ''transport-any'' then Some (True, kTransportAny, serial, transport_id)
               else (case ConsumePrefix service ''transport:'' of
                  Some sn \<Rightarrow> Some (True, kTransportAny, Some (c_str sn), transport_id)
                | None \<Rightarrow> Some (True, kTransportAny, serial, transport_id))))"

definition switch_transport :: "string \<Rightarrow> string option \<Rightarrow> nat \<Rightarrow> nat option \<Rightarrow> nat \<Rightarrow> host_request_result act" where
  "switch_transport service serial transport_id reply_fd s =
     (case select_transport service serial transport_id of
        None \<Rightarrow> thenA (SendFailA reply_fd ''invalid transport id'') (retA Handled)
      | Some (legacy, type, serial, transport_id) \<Rightarrow>
          bindA (acquireA type serial transport_id False) (\<lambda>(t, err).
            case t of
              None \<Rightarrow> thenA (SendFailA reply_fd err) (retA Handled)
            | Some t \<Rightarrow>
                thenA (mod_sock s (\<lambda>so. so\<lparr>so_transport := Some t\<rparr>))
                (thenA (SendOkayA reply_fd)
                (thenA (whenA (\<not> legacy)
                         (bindA (deref_tr t) (\<lambda>tr. WriteFdExactlyA reply_fd (le64 (t_id tr)))))
                (retA SwitchedTransport)))))"

text \<open>The socket's transport if it has one, else an acquired one.\<close>

definition request_transport :: "nat \<Rightarrow> transport_type \<Rightarrow> string option \<Rightarrow> nat \<Rightarrow> bool \<Rightarrow> (nat option \<times> string) act" where
  "request_transport s type serial transport_id accept_any_state =
     bindA (deref_sock s) (\<lambda>so.
       case so_transport so of
         Some t \<Rightarrow> retA (Some t, [])
       | None \<Rightarrow> acquireA type serial transport_id accept_any_state)"

definition transport_query ::
    "nat \<Rightarrow> transport_type \<Rightarrow> string option \<Rightarrow> nat \<Rightarrow> nat option \<Rightarrow> (atransport \<Rightarrow> string) \<Rightarrow> host_request_result act" where
  "transport_query s type serial transport_id reply_fd answer =
     bindA (request_transport s type serial transport_id False) (\<lambda>(t, err).
     thenA (case t of
              None \<Rightarrow> SendFailA reply_fd err
            | Some t \<Rightarrow> bindA (deref_tr t) (\<lambda>tr. SendOkayString reply_fd (answer tr)))
     (retA Handled))"

definition reconnect_offline :: "nat option \<Rightarrow> unit act" where
  "reconnect_offline reply_fd =
     bindA (deref_list transport_list) (\<lambda>ts.
     let response = concat (map (\<lambda>(r, tr). ''reconnecting '' @ serial_name tr @ [CHR 0x0A])
           (filter (\<lambda>(r, tr). \<not> ConnectionStateIsOnline (t_state tr)) ts)) in
     thenA (close_usb_devices (\<lambda>tr. \<not> ConnectionStateIsOnline (t_state tr)) True)
     (SendOkayString reply_fd (butlast response)))"

definition disconnect_request :: "string \<Rightarrow> nat option \<Rightarrow> unit act" where
  "disconnect_request address reply_fd =
     (if address = [] then
        thenA kick_all_tcp_devices (SendOkayString reply_fd ''disconnected everything'')
      else
        bindA (find_transportA address) (\<lambda>t.
          case t of
            Some t \<Rightarrow>
              thenA (kick_transport t False) (SendOkayString reply_fd (''disconnected '' @ c_str address))
          | None \<Rightarrow>
              (case (if StartsWith address ''vsock:'' \<or> StartsWith address ''localfilesystem:'' then Inr address
                     else (case ParseNetAddress address DEFAULT_ADB_LOCAL_TRANSPORT_PORT of
                        Inl err \<Rightarrow> Inl err | Inr (host, port, serial) \<Rightarrow> Inr serial)) of
                 Inl err \<Rightarrow> SendFailA reply_fd (''couldn'' @ [CHR 0x27] @ ''t parse '' @ quoted (c_str address) @ '': '' @ c_str err)
               | Inr serial \<Rightarrow>
                   bindA (find_transportA serial) (\<lambda>t.
                     case t of
                       None \<Rightarrow> SendFailA reply_fd (''no such device '' @ quoted (c_str serial))
                     | Some t \<Rightarrow>
                         thenA (kick_transport t False)
                         (SendOkayString reply_fd (''disconnected '' @ c_str address))))))"

definition reconnect_request :: "nat \<Rightarrow> transport_type \<Rightarrow> string option \<Rightarrow> nat \<Rightarrow> nat option \<Rightarrow> unit act" where
  "reconnect_request s type serial transport_id reply_fd =
     bindA (request_transport s type serial transport_id True) (\<lambda>(t, response).
       case t of
         None \<Rightarrow> SendOkayString reply_fd response
       | Some t \<Rightarrow>
           thenA (kick_transport t True)
           (bindA (deref_tr t) (\<lambda>tr.
           bindA (getA (\<lambda>w. c_env (w_config w))) (\<lambda>e.
             SendOkayString reply_fd
               (''reconnecting '' @ serial_name tr @ '' ['' @ state_to_string e (t_state tr) @ '']'' @ [CHR 0x0A])))))"

definition attach_request :: "nat \<Rightarrow> transport_type \<Rightarrow> string option \<Rightarrow> nat \<Rightarrow> nat option \<Rightarrow> unit act" where
  "attach_request s type serial transport_id reply_fd =
     bindA (request_transport s type serial transport_id True) (\<lambda>(t, err).
       case t of
         None \<Rightarrow> SendFailA reply_fd err
       | Some t \<Rightarrow>
           bindA (transport_Attach t) (\<lambda>r.
             case r of
               Some err \<Rightarrow> SendFailA reply_fd err
             | None \<Rightarrow> bindA (deref_tr t) (\<lambda>tr. SendOkayString reply_fd (c_str (serial_name tr) @ '' attached''))))"

definition detach_request ::
    "(nat \<Rightarrow> string \<Rightarrow> int act) \<Rightarrow> nat \<Rightarrow> transport_type \<Rightarrow> string option \<Rightarrow> nat \<Rightarrow> nat option \<Rightarrow> unit act" where
  "detach_request enq s type serial transport_id reply_fd =
     bindA (request_transport s type serial transport_id True) (\<lambda>(t, err).
       case t of
         None \<Rightarrow> SendFailA reply_fd err
       | Some t \<Rightarrow>
           thenA (mod_sock s (\<lambda>so. so\<lparr>so_transport := None\<rparr>))
           (bindA (transport_Detach enq t) (\<lambda>r.
             case r of
               Some err \<Rightarrow> SendFailA reply_fd err
             | None \<Rightarrow> bindA (deref_tr t) (\<lambda>tr. SendOkayString reply_fd (c_str (serial_name tr) @ '' detached'')))))"

text \<open>The requests that come after the rejected or served \<^verbatim>\<open>kill\<close>.\<close>

definition host_features :: "config \<Rightarrow> string list" where
  "host_features c =
     supported_features (c_env c) @ (if c_libusb_enabled c then [''libusb''] else []) @ [''push_sync'']"

definition forward_request :: "string \<Rightarrow> nat \<Rightarrow> transport_type \<Rightarrow> string option \<Rightarrow> nat \<Rightarrow> nat option \<Rightarrow> host_request_result act" where
  "forward_request service s type serial transport_id reply_fd =
     bindA (handle_forward_request (c_str service)
         (bindA (deref_sock s) (\<lambda>so.
            case so_transport so of
              Some t \<Rightarrow> retA (Some t, [])
            | None \<Rightarrow> bindA (acquireA type serial transport_id False) (\<lambda>(t, err). retA (t, []))))
         reply_fd) (\<lambda>handled.
       retA (if handled then Handled else Unhandled))"

definition host_request ::
    "(nat \<Rightarrow> string \<Rightarrow> int act) \<Rightarrow> string \<Rightarrow> transport_type \<Rightarrow> string option \<Rightarrow> nat \<Rightarrow> nat option \<Rightarrow> nat \<Rightarrow> host_request_result act" where
  "host_request enq service type serial transport_id reply_fd s =
     bindA (getA w_config) (\<lambda>c.
     let query = transport_query s type serial transport_id reply_fd; handled = (\<lambda>m. thenA m (retA Handled)) in
       if StartsWith service ''transport'' \<or> StartsWith service ''tport:''
       then switch_transport service serial transport_id reply_fd s
       else if service = ''server-status'' then handled (SendOkayString reply_fd (c_server_status c))
       else if service = ''devices'' \<or> service = ''devices-l'' then
         handled (bindA (list_transportsA (if service = ''devices-l'' then LONG_TEXT else SHORT_TEXT)) (SendOkayString reply_fd))
       else if service = ''reconnect-offline'' then handled (reconnect_offline reply_fd)
       else if service = ''features'' then query (\<lambda>tr. FeatureSetToString (t_features tr))
       else if service = ''host-features'' then handled (SendOkayString reply_fd (FeatureSetToString (host_features c)))
       else if StartsWith service ''disconnect:'' then handled (disconnect_request (drop 11 service) reply_fd)
       else if service = ''version'' then handled (SendOkayString reply_fd (hex04 ADB_SERVER_VERSION))
       else if service = ''get-serialno'' then query (\<lambda>tr. if t_serial tr \<noteq> [] then t_serial tr else ''unknown'')
       else if service = ''get-devpath'' then query (\<lambda>tr. if t_devpath tr \<noteq> [] then t_devpath tr else ''unknown'')
       else if service = ''get-state'' then query (\<lambda>tr. state_to_string (c_env c) (t_state tr))
       else (case ConsumePrefix service ''emulator:'' of
          Some port \<Rightarrow>
            (case ParseUint_all (2 ^ 32) port of
               None \<Rightarrow> retA Handled
             | Some p \<Rightarrow> bindA (local_connect (sint (word_of_nat p :: 32 word))) (\<lambda>_. retA Handled))
        | None \<Rightarrow>
            if service = ''reconnect'' then handled (reconnect_request s type serial transport_id reply_fd)
            else if service = ''attach'' then handled (attach_request s type serial transport_id reply_fd)
            else if service = ''detach'' then handled (detach_request enq s type serial transport_id reply_fd)
            else forward_request service s type serial transport_id reply_fd))"

definition handle_host_request ::
    "(nat \<Rightarrow> string \<Rightarrow> int act) \<Rightarrow> string \<Rightarrow> transport_type \<Rightarrow> string option \<Rightarrow> nat \<Rightarrow> nat option \<Rightarrow> nat \<Rightarrow> host_request_result act" where
  "handle_host_request enq service type serial transport_id reply_fd s =
     bindA (getA reject_kill_server) (\<lambda>reject.
     thenA (whenA (service = ''kill'')
              (if reject then SendFailA reply_fd ''kill-server rejected by remote server''
               else thenA (SendOkayA reply_fd) (stopA ProcessExit)))
     (host_request enq service type serial transport_id reply_fd s))"

definition adb_notify_device_scan_complete :: "unit act" where
  "adb_notify_device_scan_complete =
     bindA (getA device_scan_complete) (\<lambda>already.
       if already then retA ()
       else thenA (modA (\<lambda>w. w\<lparr>device_scan_complete := True\<rparr>)) update_transport_status)"

section \<open>Smart sockets\<close>

definition smart_fail :: "nat \<Rightarrow> int act" where
  "smart_fail s = thenA (sock_close s) (retA (- 1))"

definition peer_fd :: "nat \<Rightarrow> nat option act" where
  "peer_fd s =
     bindA (deref_sock s) (\<lambda>so. bindA (derefp (so_peer so)) (\<lambda>p. bindA (deref_sock p) (\<lambda>po. retA (so_fd po))))"

text \<open>The prefix of a request: what is left of it, serial, transport id and type; an error if it is malformed.\<close>

datatype smart_error = SmartClose | SmartReturn

definition smart_prefix :: "string \<Rightarrow> (smart_error + string \<times> string \<times> nat \<times> transport_type) run" where
  "smart_prefix service =
     (case ConsumePrefix service ''host-serial:'' of
        Some rest \<Rightarrow>
          bindR (parse_host_service rest) (\<lambda>r. Done (
            case r of
              None \<Rightarrow> Inl SmartClose
            | Some (serial, command) \<Rightarrow> Inr (command, serial, 0, kTransportAny)))
      | None \<Rightarrow> Done (
          case ConsumePrefix service ''host-transport-id:'' of
            Some rest \<Rightarrow>
              (case ParseUint_view (2 ^ 64) rest of
                 None \<Rightarrow> Inl SmartReturn
               | Some (tid, rest) \<Rightarrow>
                   (case ConsumePrefix rest '':'' of
                      None \<Rightarrow> Inl SmartReturn
                    | Some command \<Rightarrow> Inr (command, [], tid, kTransportAny)))
          | None \<Rightarrow>
              (case ConsumePrefix service ''host-usb:'' of
                 Some rest \<Rightarrow> Inr (rest, [], 0, kTransportUsb)
               | None \<Rightarrow>
                   (case ConsumePrefix service ''host-local:'' of
                      Some rest \<Rightarrow> Inr (rest, [], 0, kTransportLocal)
                    | None \<Rightarrow>
                        (case ConsumePrefix service ''host:'' of
                           Some rest \<Rightarrow> Inr (rest, [], 0, kTransportAny)
                         | None \<Rightarrow> Inr ([], [], 0, kTransportAny))))))"

definition join_service :: "(nat \<Rightarrow> string \<Rightarrow> int act) \<Rightarrow> nat \<Rightarrow> nat \<Rightarrow> int act" where
  "join_service enq s s2 =
     bindA (peer_fd s) (\<lambda>fd.
     thenA (SendOkayA fd)
     (bindA (deref_sock s) (\<lambda>so.
      bindA (derefp (so_peer so)) (\<lambda>p.
      thenA (mod_sock p (\<lambda>po. po\<lparr>so_ready := ReadyLocal, so_shutdown := None, so_close := CloseLocal, so_peer := Some s2\<rparr>))
      (thenA (mod_sock s2 (\<lambda>o2. o2\<lparr>so_peer := Some p\<rparr>))
      (thenA (mod_sock s (\<lambda>so. so\<lparr>so_peer := None\<rparr>))
      (thenA (sock_close s)
      (thenA (do_ready enq s2)
      (retA 0)))))))))"

definition smart_host_service ::
    "(nat \<Rightarrow> string \<Rightarrow> int act) \<Rightarrow> nat \<Rightarrow> string \<Rightarrow> string \<Rightarrow> nat \<Rightarrow> transport_type \<Rightarrow> int act" where
  "smart_host_service enq s service serial transport_id type =
     bindA (peer_fd s) (\<lambda>fd.
     bindA (handle_host_request enq service type (if serial = [] then None else Some (c_str serial)) transport_id fd s) (\<lambda>result.
       case result of
         Handled \<Rightarrow> smart_fail s
       | SwitchedTransport \<Rightarrow>
           thenA (mod_sock s (\<lambda>so. so\<lparr>so_smart_socket_data := []\<rparr>)) (retA 0)
       | Unhandled \<Rightarrow>
           bindA (host_service_to_socket service serial transport_id) (\<lambda>found.
             case found of
               None \<Rightarrow>
                 bindA (peer_fd s) (\<lambda>fd.
                 thenA (SendFailA fd (''unknown host service '' @ quoted service))
                 (smart_fail s))
             | Some s2 \<Rightarrow> join_service enq s s2)))"

definition smart_device_service :: "nat \<Rightarrow> string \<Rightarrow> int act" where
  "smart_device_service s destination =
     bindA (deref_sock s) (\<lambda>so.
       case so_transport so of
         None \<Rightarrow>
           bindA (peer_fd s) (\<lambda>fd. thenA (SendFailA fd ''device offline (no transport)'') (smart_fail s))
       | Some t \<Rightarrow>
           bindA (deref_tr t) (\<lambda>tr.
             if \<not> ConnectionStateIsOnline (t_state tr) then
               bindA (peer_fd s) (\<lambda>fd. thenA (SendFailA fd ''device offline (transport offline)'') (smart_fail s))
             else
               bindA (derefp (so_peer so)) (\<lambda>p.
               thenA (mod_sock p (\<lambda>po. po\<lparr>so_ready := ReadyNotify, so_shutdown := None, so_close := CloseNotify,
                        so_peer := None, so_transport := Some t\<rparr>))
               (thenA (connect_to_remote p destination)
               (thenA (mod_sock s (\<lambda>so. so\<lparr>so_peer := None\<rparr>))
               (thenA (sock_close s)
               (retA 1)))))))"

text \<open>The request with the byte behind its announced end set to zero.\<close>

definition smart_terminate :: "string \<Rightarrow> nat \<Rightarrow> string" where
  "smart_terminate data len = (if len + 4 < length data then data[len + 4 := CHR 0x00] else data)"

definition smart_request :: "(nat \<Rightarrow> string \<Rightarrow> int act) \<Rightarrow> nat \<Rightarrow> string \<Rightarrow> int act" where
  "smart_request enq s request =
     bindA (liftA (smart_prefix request)) (\<lambda>r.
       case r of
         Inl SmartClose \<Rightarrow> smart_fail s
       | Inl SmartReturn \<Rightarrow> retA (- 1)
       | Inr (service, serial, transport_id, type) \<Rightarrow>
           if service \<noteq> [] then smart_host_service enq s service serial transport_id type
           else smart_device_service s request)"

definition smart_socket_enqueue :: "(nat \<Rightarrow> string \<Rightarrow> int act) \<Rightarrow> nat \<Rightarrow> string \<Rightarrow> int act" where
  "smart_socket_enqueue enq s data =
     thenA (mod_sock s (\<lambda>so. so\<lparr>so_smart_socket_data := so_smart_socket_data so @ data\<rparr>))
     (bindA (deref_sock s) (\<lambda>so.
     let buf = so_smart_socket_data so in
       if length buf < 4 then retA 0
       else
         let len = unat (unhex buf 4) in
         if len = 0 \<or> len > MAX_PAYLOAD then smart_fail s
         else if len + 4 > length buf then retA 0
         else
           thenA (mod_sock s (\<lambda>so. so\<lparr>so_smart_socket_data := smart_terminate buf len\<rparr>))
           (smart_request enq s (drop 4 (smart_terminate buf len)))))"

section \<open>Handing data to a socket\<close>

text \<open>
  \<^verbatim>\<open>s->enqueue(s, data)\<close>.  A smart socket may hand a device list to a new client, never to another
  smart socket, so one level of smart sockets is all there is.
\<close>

definition enqueue_with :: "(nat \<Rightarrow> string \<Rightarrow> int act) \<Rightarrow> nat \<Rightarrow> string \<Rightarrow> int act" where
  "enqueue_with smart s data =
     bindA (deref_sock s) (\<lambda>so.
       case so_enqueue so of
         EnqueueLocal \<Rightarrow> local_socket_enqueue s data
       | EnqueueRemote \<Rightarrow> remote_socket_enqueue s data
       | EnqueueTracker \<Rightarrow> device_tracker_enqueue s data
       | EnqueueSmart \<Rightarrow> smart s data)"

primrec enqueue_n :: "nat \<Rightarrow> nat \<Rightarrow> string \<Rightarrow> int act" where
  "enqueue_n 0 = enqueue_with (\<lambda>s data. stopA OutOfFuel)"
| "enqueue_n (Suc n) = enqueue_with (smart_socket_enqueue (enqueue_n n))"

definition sock_enqueue :: "nat \<Rightarrow> string \<Rightarrow> int act" where
  "sock_enqueue = enqueue_n 1"

text \<open>An event the loop delivers, by the callback it was created with.\<close>

definition deliver_event :: "nat \<Rightarrow> fde_flag set \<Rightarrow> unit act" where
  "deliver_event fd ev =
     bindA (getA (\<lambda>w. map_of (installed_fdevents (w_context w)) fd)) (\<lambda>fde.
       case fde of
         None \<Rightarrow> retA ()
       | Some e \<Rightarrow>
           (case fde_owner e of
              SocketEvent s \<Rightarrow> local_socket_event_func sock_enqueue s ev
            | DrainEvent t0 \<Rightarrow> drain_event_func t0 fd ev
            | ListenerEvent i \<Rightarrow> listener_event_func i ev
            | SmartListenerEvent i \<Rightarrow> ss_listener_event_func sock_enqueue ev))"

end
