(* ===== verification/Client.thy ===== *)
theory Client
  imports Host_Request
begin

text \<open>
  The client's end of the conversation with the server (\<^verbatim>\<open>adb/client/adb_client.cpp\<close>): choosing the device,
  connecting, checking the version of the server and starting it, commands and queries.

  What lies outside the process is a record of functions: the answers of the network and of a new
  connection to the calls in turn, starting a server, the file naming a newer server, and replacing the
  process by it.  \<open>cl_sent\<close> records what was written to each finished connection and \<open>cl_launched\<close> the
  servers started.  Messages to the user and texts of \<^verbatim>\<open>errno\<close> are left off.
\<close>

section \<open>State\<close>

datatype client_error =
    BadServiceLength nat
  | CannotConnect string
  | WriteFailure
  | NoStatus
  | BadStatus string
  | Failed string
  | Fault protocol_fault
  | NoTransportId
  | BadVersion string
  | CannotStart

record conn =
  cn_in :: "rd_event list"
  cn_out :: "wr_event list"
  cn_sent :: string

record client =
  adb_transport :: transport_type
  adb_serial :: "string option"
  adb_transport_id :: nat
  adb_server_socket_spec :: "string option"
  adb_client_one_device :: "string option"
  cl_reexeced :: bool
  cl_checked :: "client_error option option"
  cl_features :: "string list option"
  cl_calls :: nat
  cl_sent :: "string list"
  cl_launched :: "string option list"

record outside =
  o_net :: "nat \<Rightarrow> net"
  o_conn :: "nat \<Rightarrow> conn"
  o_launch_server :: "nat \<Rightarrow> string \<Rightarrow> string option \<Rightarrow> bool"
  o_one_device_mandatory :: bool
  o_android_dir :: string
  o_read_file :: "string \<Rightarrow> string option"
  o_execve :: "string \<Rightarrow> bool"
  o_stdin :: conn

definition adb_set_transport :: "transport_type \<Rightarrow> string option \<Rightarrow> nat \<Rightarrow> client \<Rightarrow> client" where
  "adb_set_transport type serial transport_id cl =
     cl\<lparr>adb_transport := type, adb_serial := serial, adb_transport_id := transport_id\<rparr>"

definition adb_get_transport :: "client \<Rightarrow> transport_type \<times> string option \<times> nat" where
  "adb_get_transport cl = (adb_transport cl, adb_serial cl, adb_transport_id cl)"

definition adb_set_socket_spec :: "string \<Rightarrow> client \<Rightarrow> client run" where
  "adb_set_socket_spec socket_spec cl =
     (if adb_server_socket_spec cl \<noteq> None then Stop LogFatal
      else Done (cl\<lparr>adb_server_socket_spec := Some socket_spec\<rparr>))"

definition adb_set_one_device :: "string option \<Rightarrow> client \<Rightarrow> client" where
  "adb_set_one_device one_device cl = cl\<lparr>adb_client_one_device := one_device\<rparr>"

section \<open>Connections\<close>

definition send_string :: "string \<Rightarrow> conn \<Rightarrow> bool \<times> conn" where
  "send_string s c =
     (case SendProtocolString (cn_out c) s of (ok, out, es) \<Rightarrow> (ok, c\<lparr>cn_out := es, cn_sent := cn_sent c @ out\<rparr>))"

text \<open>\<^verbatim>\<open>adb_status\<close>: the error if it returns false.\<close>

definition adb_status :: "conn \<Rightarrow> (client_error option \<times> conn) run" where
  "adb_status c =
     (case ReadFdExactly (cn_in c) 4 of
        (False, _, es) \<Rightarrow> Done (Some NoStatus, c\<lparr>cn_in := es\<rparr>)
      | (True, buf, es) \<Rightarrow>
          if buf = ''OKAY'' then Done (None, c\<lparr>cn_in := es\<rparr>)
          else if buf \<noteq> ''FAIL'' then Done (Some (BadStatus buf), c\<lparr>cn_in := es\<rparr>)
          else bindR (ReadProtocolString es []) (\<lambda>(fault, s, es).
            Done (Some (case fault of None \<Rightarrow> Failed s | Some f \<Rightarrow> Fault f), c\<lparr>cn_in := es\<rparr>)))"

text \<open>
  The request that selects the device, and the transport id when it is known; \<open>None\<close> when no switch is
  necessary.
\<close>

definition switch_service :: "client \<Rightarrow> (string \<times> nat option) option" where
  "switch_service cl =
     (if adb_transport_id cl \<noteq> 0 then
        Some (''host:transport-id:'' @ dec (adb_transport_id cl), Some (adb_transport_id cl))
      else (case adb_serial cl of
         Some serial \<Rightarrow> Some (''host:tport:serial:'' @ serial, None)
       | None \<Rightarrow>
           (case adb_transport cl of
              kTransportUsb \<Rightarrow> Some (''host:tport:usb'', None)
            | kTransportLocal \<Rightarrow> Some (''host:tport:local'', None)
            | kTransportAny \<Rightarrow> Some (''host:tport:any'', None)
            | kTransportHost \<Rightarrow> None)))"

text \<open>Eight bytes in the order of the host, as \<^const>\<open>le64\<close> writes them.\<close>

definition of_le64 :: "string \<Rightarrow> nat" where
  "of_le64 s = foldr (\<lambda>c v. of_char c + 256 * v) s 0"

definition switch_socket_transport :: "client \<Rightarrow> conn \<Rightarrow> ((client_error + nat) \<times> conn) run" where
  "switch_socket_transport cl c =
     (case switch_service cl of
        None \<Rightarrow> Done (Inr 0, c)
      | Some (service, known) \<Rightarrow>
          (case send_string service c of
             (False, c) \<Rightarrow> Done (Inl WriteFailure, c)
           | (True, c) \<Rightarrow>
               bindR (adb_status c) (\<lambda>(err, c).
                 case err of
                   Some e \<Rightarrow> Done (Inl e, c)
                 | None \<Rightarrow>
                     (case known of
                        Some t \<Rightarrow> Done (Inr t, c)
                      | None \<Rightarrow>
                          (case ReadFdExactly (cn_in c) 8 of
                             (False, _, es) \<Rightarrow> Done (Inl NoTransportId, c\<lparr>cn_in := es\<rparr>)
                           | (True, bs, es) \<Rightarrow> Done (Inr (of_le64 bs), c\<lparr>cn_in := es\<rparr>))))))"

text \<open>A connection to the server's address; a null address is not a string.\<close>

definition open_server :: "outside \<Rightarrow> client \<Rightarrow> ((string + conn) \<times> client) run" where
  "open_server ext cl =
     (case adb_server_socket_spec cl of
        None \<Rightarrow> Stop BadAccess
      | Some spec \<Rightarrow>
          bindR (socket_spec_connect (o_net ext (cl_calls cl)) spec 0) (\<lambda>r.
            Done (if sr_ok r then Inr ((o_conn ext (cl_calls cl))\<lparr>cn_sent := []\<rparr>) else Inl (sr_error r),
                  cl\<lparr>cl_calls := Suc (cl_calls cl)\<rparr>)))"

definition close_conn :: "conn \<Rightarrow> client \<Rightarrow> client" where
  "close_conn c cl = cl\<lparr>cl_sent := cl_sent cl @ [cn_sent c]\<rparr>"

text \<open>What \<^verbatim>\<open>_adb_connect\<close> returns: \<^verbatim>\<open>-1\<close>, \<^verbatim>\<open>-2\<close> or the descriptor; the id of the transport if it was switched to.\<close>

datatype connect_result = ConnectFailed client_error | NoServer client_error | Connected conn

definition request_service :: "string \<Rightarrow> conn \<Rightarrow> (client_error option \<times> conn) run" where
  "request_service service c =
     (case send_string service c of
        (False, c) \<Rightarrow> Done (Some WriteFailure, c)
      | (True, c) \<Rightarrow> adb_status c)"

definition adb_connect_once ::
    "outside \<Rightarrow> string \<Rightarrow> bool \<Rightarrow> client \<Rightarrow> (connect_result \<times> nat option \<times> client) run" where
  "adb_connect_once ext service force_switch cl =
     (if service = [] \<or> length service > MAX_PAYLOAD
      then Done (ConnectFailed (BadServiceLength (length service)), None, cl)
      else bindR (open_server ext cl) (\<lambda>(opened, cl).
        case opened of
          Inl reason \<Rightarrow> Done (NoServer (CannotConnect reason), None, cl)
        | Inr c \<Rightarrow>
            bindR (if \<not> StartsWith service ''host'' \<or> force_switch
                   then bindR (switch_socket_transport cl c) (\<lambda>(r, c).
                     Done (case r of Inl e \<Rightarrow> (Some e, None, c) | Inr t \<Rightarrow> (None, Some t, c)))
                   else Done (None, None, c)) (\<lambda>(err, transport, c).
              case err of
                Some e \<Rightarrow> Done (ConnectFailed e, None, close_conn c cl)
              | None \<Rightarrow>
                  bindR (request_service service c) (\<lambda>(err, c).
                    case err of
                      Some e \<Rightarrow> Done (ConnectFailed e, transport, close_conn c cl)
                    | None \<Rightarrow> Done (Connected c, transport, cl)))))"

section \<open>Starting and stopping the server\<close>

definition adb_kill_server :: "outside \<Rightarrow> client \<Rightarrow> (bool \<times> client) run" where
  "adb_kill_server ext cl =
     bindR (open_server ext cl) (\<lambda>(opened, cl).
       case opened of
         Inl reason \<Rightarrow> Done (True, cl)
       | Inr c \<Rightarrow>
           (case send_string ''host:kill'' c of
              (False, c) \<Rightarrow> Done (False, close_conn c cl)
            | (True, c) \<Rightarrow>
                (case ReadFdExactly (cn_in c) 4 of
                   (False, _, es) \<Rightarrow> Done (False, close_conn c cl)
                 | (True, buf, es) \<Rightarrow>
                     if buf = ''FAIL''
                     then bindR (ReadProtocolString es []) (\<lambda>_. Done (False, close_conn c cl))
                     else bindR (ReadOrderlyShutdown es) (\<lambda>_. Done (True, close_conn c cl)))))"

definition adb_get_server_executable_path :: "outside \<Rightarrow> client \<Rightarrow> string option" where
  "adb_get_server_executable_path ext cl =
     (case adb_server_socket_spec cl of
        None \<Rightarrow> None
      | Some spec \<Rightarrow>
          (case parse_tcp_socket_spec spec of
             Inl _ \<Rightarrow> None
           | Inr (_, port, _) \<Rightarrow> Some (o_android_dir ext @ ''/adb.'' @ dec_int port)))"

text \<open>From the label \<^verbatim>\<open>start_server\<close> on: the error if the check fails.\<close>

definition start_server :: "outside \<Rightarrow> string \<Rightarrow> client \<Rightarrow> (client_error option \<times> client) run" where
  "start_server ext spec cl =
     (let one_device = (if adb_client_one_device cl = None \<and> adb_serial cl \<noteq> None \<and> o_one_device_mandatory ext
                        then adb_serial cl else adb_client_one_device cl);
          ok = o_launch_server ext (length (cl_launched cl)) spec one_device in
      Done (if ok then None else Some CannotStart, cl\<lparr>cl_launched := cl_launched cl @ [one_device]\<rparr>))"

text \<open>Replacing the process by the newer version that the server is; it returns if that fails.\<close>

definition reexec_newer :: "outside \<Rightarrow> client \<Rightarrow> client run" where
  "reexec_newer ext cl =
     (if cl_reexeced cl then Done cl
      else
        let cl = cl\<lparr>cl_reexeced := True\<rparr> in
        case adb_get_server_executable_path ext cl of
          None \<Rightarrow> Done cl
        | Some server_path_path \<Rightarrow>
            (case o_read_file ext server_path_path of
               None \<Rightarrow> Done cl
             | Some server_path \<Rightarrow> if o_execve ext (c_str server_path) then Stop ProcessExit else Done cl))"

definition match_version :: "outside \<Rightarrow> string \<Rightarrow> int \<Rightarrow> client \<Rightarrow> (client_error option \<times> client) run" where
  "match_version ext spec version cl =
     (if version = int ADB_SERVER_VERSION then Done (None, cl)
      else
        bindR (if version > int ADB_SERVER_VERSION \<and> is_local_socket_spec spec then reexec_newer ext cl else Done cl) (\<lambda>cl.
        bindR (adb_kill_server ext cl) (\<lambda>(_, cl).
          start_server ext spec cl)))"

text \<open>\<^verbatim>\<open>sscanf(s, "%04x", &version)\<close>: blanks, then at most four characters of a number.\<close>

definition scan_version :: "string \<Rightarrow> int option" where
  "scan_version s =
     (let t = take 4 (dropWhile is_space (c_str s)) in
      case strto_scan 16 t of (neg, ds, rest) \<Rightarrow>
        if ds = [] then None else Some (sint (word_of_nat (strtoul 16 t) :: u32)))"

definition check_server_version :: "outside \<Rightarrow> client \<Rightarrow> (client_error option \<times> client) run" where
  "check_server_version ext cl =
     bindR (adb_connect_once ext ''host:version'' False cl) (\<lambda>(r, _, cl).
       case adb_server_socket_spec cl of
         None \<Rightarrow> Stop BadAccess
       | Some spec \<Rightarrow>
           (case r of
              NoServer e \<Rightarrow>
                if \<not> is_local_socket_spec spec then Done (Some e, cl) else start_server ext spec cl
            | Connected c \<Rightarrow>
                let cl = close_conn c cl in
                bindR (ReadProtocolString (cn_in c) []) (\<lambda>(fault, s, es).
                  case fault of
                    Some f \<Rightarrow> Done (Some (Fault f), cl)
                  | None \<Rightarrow>
                      bindR (ReadOrderlyShutdown es) (\<lambda>_.
                        case scan_version s of
                          None \<Rightarrow> Done (Some (BadVersion s), cl)
                        | Some version \<Rightarrow> match_version ext spec version cl))
            | ConnectFailed e \<Rightarrow>
                if e \<noteq> Failed ''unknown host service'' then Done (Some e, cl)
                else match_version ext spec 0 cl))"

definition adb_check_server_version :: "outside \<Rightarrow> client \<Rightarrow> (client_error option \<times> client) run" where
  "adb_check_server_version ext cl =
     (case cl_checked cl of
        Some result \<Rightarrow> Done (result, cl)
      | None \<Rightarrow> bindR (check_server_version ext cl) (\<lambda>(err, cl). Done (err, cl\<lparr>cl_checked := Some err\<rparr>)))"

section \<open>Commands and queries\<close>

text \<open>For \<^verbatim>\<open>host:start-server\<close> the result is 0, which is the descriptor of the standard input.\<close>

definition adb_connect :: "outside \<Rightarrow> string \<Rightarrow> bool \<Rightarrow> client \<Rightarrow> (connect_result \<times> nat option \<times> client) run" where
  "adb_connect ext service force_switch_device cl =
     bindR (adb_check_server_version ext cl) (\<lambda>(err, cl).
       case err of
         Some e \<Rightarrow> Done (ConnectFailed e, None, cl)
       | None \<Rightarrow>
           if service = ''host:start-server'' then Done (Connected (o_stdin ext), None, cl)
           else adb_connect_once ext service force_switch_device cl)"

definition adb_command :: "outside \<Rightarrow> string \<Rightarrow> client \<Rightarrow> (client_error option \<times> client) run" where
  "adb_command ext service cl =
     bindR (adb_connect ext service False cl) (\<lambda>(r, _, cl).
       case r of
         ConnectFailed e \<Rightarrow> Done (Some e, cl)
       | NoServer e \<Rightarrow> Done (Some e, cl)
       | Connected c \<Rightarrow>
           bindR (adb_status c) (\<lambda>(err, c).
             case err of
               Some e \<Rightarrow> Done (Some e, close_conn c cl)
             | None \<Rightarrow> bindR (ReadOrderlyShutdown (cn_in c)) (\<lambda>_. Done (None, close_conn c cl))))"

definition adb_query :: "outside \<Rightarrow> string \<Rightarrow> bool \<Rightarrow> client \<Rightarrow> ((client_error + string) \<times> client) run" where
  "adb_query ext service force_switch_device cl =
     bindR (adb_connect ext service force_switch_device cl) (\<lambda>(r, _, cl).
       case r of
         ConnectFailed e \<Rightarrow> Done (Inl e, cl)
       | NoServer e \<Rightarrow> Done (Inl e, cl)
       | Connected c \<Rightarrow>
           bindR (ReadProtocolString (cn_in c) []) (\<lambda>(fault, s, es).
             case fault of
               Some f \<Rightarrow> Done (Inl (Fault f), close_conn c cl)
             | None \<Rightarrow> bindR (ReadOrderlyShutdown es) (\<lambda>_. Done (Inr s, close_conn c cl))))"

definition format_host_command :: "client \<Rightarrow> string \<Rightarrow> string" where
  "format_host_command cl command =
     (if adb_transport_id cl \<noteq> 0 then ''host-transport-id:'' @ dec (adb_transport_id cl) @ '':'' @ command
      else (case adb_serial cl of
         Some serial \<Rightarrow> ''host-serial:'' @ serial @ '':'' @ command
       | None \<Rightarrow>
           (if adb_transport cl = kTransportUsb then ''host-usb''
            else if adb_transport cl = kTransportLocal then ''host-local'' else ''host'') @ '':'' @ command))"

definition adb_get_feature_set :: "outside \<Rightarrow> client \<Rightarrow> ((client_error + string list) \<times> client) run" where
  "adb_get_feature_set ext cl =
     (case cl_features cl of
        Some fs \<Rightarrow> Done (Inr fs, cl)
      | None \<Rightarrow>
          bindR (adb_query ext (format_host_command cl ''features'') False cl) (\<lambda>(r, cl).
            Done (case r of
                    Inl e \<Rightarrow> (Inl e, cl)
                  | Inr result \<Rightarrow> (Inr (StringToFeatureSet result), cl\<lparr>cl_features := Some (StringToFeatureSet result)\<rparr>))))"

section \<open>Replies and requests on the wire\<close>

lemma read_text:
  assumes "readable es = xs @ rest" "length xs = n"
  shows "\<exists>es'. ReadFdExactly es n = (True, xs, es') \<and> readable es' = rest"
  using fds.rd_append [OF assms(1)] assms(2) by blast

lemma adb_status_okay:
  assumes "readable (cn_in c) = ''OKAY'' @ rest"
  shows "\<exists>es. adb_status c = Done (None, c\<lparr>cn_in := es\<rparr>) \<and> readable es = rest"
  using read_text [OF assms, of 4] by (auto simp: adb_status_def)

lemma adb_status_fail:
  assumes "readable (cn_in c) = ''FAIL'' @ protocol_string reason @ rest" "length reason < 65536"
  shows "\<exists>es. adb_status c = Done (Some (Failed reason), c\<lparr>cn_in := es\<rparr>) \<and> readable es = rest"
proof -
  from read_text [OF assms(1), of 4] obtain es1 where
    1: "ReadFdExactly (cn_in c) 4 = (True, ''FAIL'', es1)" "readable es1 = protocol_string reason @ rest" by auto
  from ReadProtocolString_ok [OF assms(2) 1(2), of "[]"] 1(1) show ?thesis by (auto simp: adb_status_def)
qed

lemma send_string_ok:
  assumes "no_hard_error (cn_out c)" "length s \<le> MAX_PAYLOAD - 4"
  shows "\<exists>es. send_string s c = (True, c\<lparr>cn_out := es, cn_sent := cn_sent c @ protocol_string s\<rparr>) \<and> no_hard_error es"
  using SendProtocolString_bytes [OF assms(2,1)] by (auto simp: send_string_def)

lemma of_le64_map: "of_le64 (map (\<lambda>i. char_of (n div 256 ^ i mod 256)) [0..<k]) = n mod 256 ^ k"
proof (induction k arbitrary: n)
  case (Suc k)
  have "map (\<lambda>i. char_of (n div 256 ^ i mod 256)) [0..<Suc k] =
      char_of (n mod 256) # map (\<lambda>i. char_of ((n div 256) div 256 ^ i mod 256) :: char) [0..<k]"
    unfolding map_upt_Suc by (simp add: div_mult2_eq)
  then have "of_le64 (map (\<lambda>i. char_of (n div 256 ^ i mod 256)) [0..<Suc k]) = n mod 256 + 256 * ((n div 256) mod 256 ^ k)"
    using Suc by (simp add: of_le64_def)
  also have "\<dots> = n mod 256 ^ Suc k" by (simp add: mod_mult2_eq)
  finally show ?case .
qed (simp add: of_le64_def)

lemma of_le64_le64: "n < 2 ^ 64 \<Longrightarrow> of_le64 (le64 n) = n"
  using of_le64_map [of n 8] by (simp add: le64_def)

lemma length_le64 [simp]: "length (le64 n) = 8"
  by (simp add: le64_def)

text \<open>The device the user selected, as the server is to see it: serial, transport id and type.\<close>

definition selected :: "client \<Rightarrow> string \<times> nat \<times> transport_type" where
  "selected cl =
     (if adb_transport_id cl \<noteq> 0 then ([], adb_transport_id cl, kTransportAny)
      else (case adb_serial cl of
         Some serial \<Rightarrow> (serial, 0, kTransportAny)
       | None \<Rightarrow> ([], 0, if adb_transport cl = kTransportHost then kTransportAny else adb_transport cl)))"

text \<open>Serials of the form of a USB serial number, an emulator's name, or \<^verbatim>\<open>host:port\<close>.\<close>

definition known_host :: "string \<Rightarrow> bool" where
  "known_host host \<longleftrightarrow> host \<noteq> [] \<and> CHR '':'' \<notin> set host \<and> hd host \<noteq> CHR ''['' \<and>
     host \<notin> {''usb'', ''product'', ''model'', ''device'', ''localfilesystem'', ''tcp'', ''udp'', ''vsock''}"

definition clean_serial :: "string \<Rightarrow> bool" where
  "clean_serial sn \<longleftrightarrow> CHR 0x00 \<notin> set sn \<and>
     (let host = takeWhile (\<lambda>c. c \<noteq> CHR '':'') sn; port = drop (length host + 1) sn in
      known_host host \<and> (sn = host \<or> (port \<noteq> [] \<and> list_all (is_digit_in 10) port)))"

definition clean_command :: "string \<Rightarrow> bool" where
  "clean_command cmd \<longleftrightarrow> cmd \<noteq> [] \<and> \<not> is_digit_in 10 (hd cmd) \<and> hd cmd \<noteq> CHR '':''"

lemma parse_clean_serial:
  assumes "clean_serial sn" "clean_command cmd"
  shows "parse_host_service (sn @ '':'' @ cmd) = Done (Some (sn, cmd))"
proof -
  let ?h = "takeWhile (\<lambda>c. c \<noteq> CHR '':'') sn" and ?r = "dropWhile (\<lambda>c. c \<noteq> CHR '':'') sn"
  have h: "known_host ?h" and c: "cmd \<noteq> []" "\<not> is_digit_in 10 (hd cmd)" "hd cmd \<noteq> CHR '':''"
    using assms by (auto simp: clean_serial_def clean_command_def Let_def)
  note hs = h [unfolded known_host_def]
  show ?thesis
  proof (cases "sn = ?h")
    case True
    then have k: "known_host sn" using h by simp
    show ?thesis by (rule split_plain_serial) (use k c in \<open>auto simp: known_host_def\<close>)
  next
    case False
    define p where "p = drop (length ?h + 1) sn"
    have p: "p \<noteq> []" "\<forall>c\<in>set p. is_digit_in 10 c"
      using assms(1) False unfolding clean_serial_def Let_def p_def list_all_iff by blast+
    have "?r \<noteq> []" using False by (metis append_Nil2 takeWhile_dropWhile_id)
    then have "hd ?r = CHR '':''" using hd_dropWhile [of "\<lambda>c. c \<noteq> CHR '':''" sn] by auto
    moreover have "tl ?r = p" by (simp add: p_def dropWhile_eq_drop drop_Suc tl_drop)
    ultimately have "sn = ?h @ '':'' @ p" using \<open>?r \<noteq> []\<close> by (metis append_Cons append_Nil list.collapse takeWhile_dropWhile_id)
    moreover have "parse_host_service (?h @ '':'' @ p @ '':'' @ cmd) = Done (Some (?h @ '':'' @ p, cmd))"
      by (rule split_network_serial) (use hs p c in auto)
    ultimately show ?thesis by (metis append.assoc)
  qed
qed

lemma ParseUint_view_dec:
  assumes "n < limit" "r = [] \<or> \<not> is_digit_in 10 (hd r)"
  shows "ParseUint_view limit (dec n @ r) = Some (n, r)"
proof -
  have "takeWhile (is_digit_in 10) (dec n @ r) = dec n"
    using dec_digits [of n] assms(2) by (subst takeWhile_append2) (auto simp: takeWhile_eq_Nil_iff)
  with assms(1) show ?thesis by (simp add: ParseUint_view_def)
qed

lemma ParseUint_all_dec: "n < limit \<Longrightarrow> ParseUint_all limit (dec n) = Some n"
  using ParseUint_view_dec [of n limit "[]"] by (simp add: ParseUint_all_def)

lemma smart_prefix_format:
  assumes "adb_transport_id cl < 2 ^ 64" "\<forall>sn. adb_serial cl = Some sn \<longrightarrow> clean_serial sn" "clean_command cmd"
  shows "smart_prefix (format_host_command cl cmd) =
    (case selected cl of (serial, tid, type) \<Rightarrow> Done (Inr (cmd, serial, tid, type)))"
proof (cases "adb_transport_id cl = 0")
  case False
  have colon: "\<not> is_digit_in 10 CHR '':''" by (simp add: is_digit_in_def digit_value_def)
  from False ParseUint_view_dec [OF assms(1), of "'':'' @ cmd"] colon show ?thesis
    by (simp add: format_host_command_def selected_def smart_prefix_def ConsumePrefix_def StartsWith_def)
next
  case True
  show ?thesis
  proof (cases "adb_serial cl")
    case None
    with True show ?thesis
      by (cases "adb_transport cl") (simp_all add: format_host_command_def selected_def smart_prefix_def ConsumePrefix_def StartsWith_def)
  next
    case (Some sn)
    with True assms parse_clean_serial [of sn cmd] show ?thesis
      by (simp add: format_host_command_def selected_def smart_prefix_def ConsumePrefix_def StartsWith_def)
  qed
qed

text \<open>A smart socket with \<open>data\<close> in its buffer.\<close>

definition with_data :: "nat \<Rightarrow> string \<Rightarrow> world \<Rightarrow> world" where
  "with_data s data w =
     w\<lparr>w_sock := (case w_sock w s of None \<Rightarrow> w_sock w | Some so \<Rightarrow> (w_sock w)(s \<mapsto> so\<lparr>so_smart_socket_data := data\<rparr>))\<rparr>"

lemma with_data_again [simp]: "with_data s b (with_data s a w) = with_data s b w"
  by (simp add: with_data_def split: option.split)

lemma announced_length:
  assumes "req \<noteq> []" "length req < 65536"
  shows "unat (unhex (protocol_string req @ r) 4) = length req" "length (protocol_string req) = length req + 4"
proof -
  have "unat (word_of_nat (length req) :: u32) = length req" using assms(2) by (simp add: unat_of_nat)
  with assms unhex_hex04 [OF assms(2), of "req @ r"] show "unat (unhex (protocol_string req @ r) 4) = length req"
    by (simp add: protocol_string_def)
qed (use assms in \<open>simp add: protocol_string_def length_hex04\<close>)

lemma smart_enqueue_whole:
  assumes "w_sock w s = Some so" "so_smart_socket_data so @ data = protocol_string req" "req \<noteq> []" "length req < 65536"
  shows "smart_socket_enqueue enq s data w = smart_request enq s req (with_data s (protocol_string req) w)"
proof -
  let ?p = "protocol_string req"
  have len: "unat (unhex ?p 4) = length req" "length ?p = length req + 4" using announced_length [OF assms(3,4)] by (simp_all, metis append_Nil2)
  have "length req \<le> MAX_PAYLOAD" using assms(4) by (simp add: MAX_PAYLOAD_def)
  moreover have "smart_terminate ?p (length req) = ?p" using len(2) by (simp add: smart_terminate_def)
  moreover have "drop 4 ?p = req" using assms(4) by (simp add: protocol_string_def length_hex04)
  ultimately show ?thesis
    using assms len by (simp add: smart_socket_enqueue_def thenA_def bindA_def mod_sock_def deref_sock_def with_data_def Let_def)
qed

lemma smart_enqueue_part:
  assumes "w_sock w s = Some so" "so_smart_socket_data so @ data = a" "protocol_string req = a @ b" "b \<noteq> []" "req \<noteq> []" "length req < 65536"
  shows "smart_socket_enqueue enq s data w = Done (0, with_data s a w)"
proof (cases "length a < 4")
  case True
  with assms(1,2) show ?thesis
    by (simp add: smart_socket_enqueue_def thenA_def bindA_def mod_sock_def deref_sock_def with_data_def Let_def retA_def)
next
  case False
  have "take 4 a = take 4 (protocol_string req)" using assms(3) False by simp
  then have "unhex a 4 = unhex (protocol_string req) 4" by (metis unhex_take)
  then have "unat (unhex a 4) = length req" using announced_length(1) [OF assms(5,6), of "[]"] by simp
  moreover have "length a < length req + 4" using announced_length(2) [OF assms(5,6)] assms(3,4) by (cases b) auto
  moreover have "length req \<le> MAX_PAYLOAD" using assms(6) by (simp add: MAX_PAYLOAD_def)
  ultimately show ?thesis using assms(1,2,5) False
    by (simp add: smart_socket_enqueue_def thenA_def bindA_def mod_sock_def deref_sock_def with_data_def Let_def retA_def)
qed

lemma smart_enqueue_pieces:
  assumes "w_sock w s = Some so" "so_smart_socket_data so = []" "protocol_string req = a @ b" "b \<noteq> []" "req \<noteq> []" "length req < 65536"
  shows "thenA (smart_socket_enqueue enq s a) (smart_socket_enqueue enq s b) w = smart_request enq s req (with_data s (protocol_string req) w)"
proof -
  have "smart_socket_enqueue enq s a w = Done (0, with_data s a w)"
    using assms by (intro smart_enqueue_part [of _ _ so _ _ req b]) simp_all
  moreover have "smart_socket_enqueue enq s b (with_data s a w) = smart_request enq s req (with_data s (protocol_string req) w)"
    using assms smart_enqueue_whole [of "with_data s a w" s "so\<lparr>so_smart_socket_data := a\<rparr>" b req enq] by (simp add: with_data_def)
  ultimately show ?thesis by (simp add: thenA_def bindA_def)
qed

section \<open>Properties\<close>


definition sample_user :: "string option \<Rightarrow> client" where
  "sample_user serial = \<lparr>adb_transport = kTransportAny, adb_serial = serial, adb_transport_id = 0,
     adb_server_socket_spec = Some ''tcp:5037'', adb_client_one_device = None, cl_reexeced = False, cl_checked = None,
     cl_features = None, cl_calls = 0, cl_sent = [], cl_launched = []\<rparr>"


text \<open>What the server writes at the end of a request, with \<^const>\<open>SendOkay\<close> or \<^const>\<open>SendFail\<close>.\<close>

definition server_reply :: "string option \<Rightarrow> string" where
  "server_reply reason = (case reason of None \<Rightarrow> ''OKAY'' | Some r \<Rightarrow> ''FAIL'' @ protocol_string r)"

lemma server_reply_sent:
  assumes "no_hard_error es"
  shows "\<exists>es'. SendOkay es = (True, server_reply None, es')"
    and "length r \<le> MAX_PAYLOAD - 4 \<Longrightarrow> \<exists>es'. SendFail es r = (True, server_reply (Some r), es')"
  using WriteFdExactly_complete [OF assms, of "''OKAY''"] SendFail_bytes [OF _ assms, of r]
  by (auto simp: server_reply_def SendOkay_def)

lemma adb_status_reply:
  assumes "readable (cn_in c) = server_reply reason @ rest" "\<forall>r. reason = Some r \<longrightarrow> length r < 65536"
  shows "\<exists>es. adb_status c = Done (map_option Failed reason, c\<lparr>cn_in := es\<rparr>) \<and> readable es = rest"
  using assms adb_status_okay [of c rest] adb_status_fail [of c _ rest]
  by (cases reason) (auto simp: server_reply_def)

lemma request_service_reply:
  assumes "no_hard_error (cn_out c)" "length service \<le> MAX_PAYLOAD - 4"
    and "readable (cn_in c) = server_reply reason @ rest" "\<forall>r. reason = Some r \<longrightarrow> length r < 65536"
  shows "\<exists>c'. request_service service c = Done (map_option Failed reason, c') \<and> readable (cn_in c') = rest \<and>
    cn_sent c' = cn_sent c @ protocol_string service"
proof -
  obtain es where s: "send_string service c = (True, c\<lparr>cn_out := es, cn_sent := cn_sent c @ protocol_string service\<rparr>)"
    using send_string_ok [OF assms(1,2)] by blast
  with assms(3,4) adb_status_reply [of "c\<lparr>cn_out := es, cn_sent := cn_sent c @ protocol_string service\<rparr>" reason rest]
  show ?thesis by (auto simp: request_service_def)
qed

lemma switch_service_calls [simp]: "switch_service (cl\<lparr>cl_calls := n\<rparr>) = switch_service cl"
  by (simp add: switch_service_def cong: if_cong option.case_cong transport_type.case_cong)

lemma switch_reply:
  assumes "switch_service cl = Some (service, known)" "no_hard_error (cn_out c)" "length service \<le> MAX_PAYLOAD - 4" "t < 2 ^ 64"
    and "readable (cn_in c) = ''OKAY'' @ (if known = None then le64 t else []) @ rest" "\<forall>k. known = Some k \<longrightarrow> t = k"
  shows "\<exists>c'. switch_socket_transport cl c = Done (Inr t, c') \<and> readable (cn_in c') = rest \<and> no_hard_error (cn_out c') \<and>
    cn_sent c' = cn_sent c @ protocol_string service"
proof -
  obtain es where s: "send_string service c = (True, c\<lparr>cn_out := es, cn_sent := cn_sent c @ protocol_string service\<rparr>)" "no_hard_error es"
    using send_string_ok [OF assms(2,3)] by blast
  obtain es1 where 1: "adb_status (c\<lparr>cn_out := es, cn_sent := cn_sent c @ protocol_string service\<rparr>) =
      Done (None, c\<lparr>cn_out := es, cn_sent := cn_sent c @ protocol_string service, cn_in := es1\<rparr>)"
      "readable es1 = (if known = None then le64 t else []) @ rest"
    using adb_status_okay [of "c\<lparr>cn_out := es, cn_sent := cn_sent c @ protocol_string service\<rparr>"] assms(5) by auto
  show ?thesis
  proof (cases known)
    case None
    with 1(2) obtain es2 where "ReadFdExactly es1 8 = (True, le64 t, es2)" "readable es2 = rest"
      using read_text [of es1 "le64 t" rest 8] by auto
    with None s 1 assms(1,4) show ?thesis by (simp add: switch_socket_transport_def of_le64_le64)
  next
    case (Some k)
    with s 1 assms(1,6) show ?thesis by (simp add: switch_socket_transport_def)
  qed
qed

text \<open>
  C21: A service of the device: the client writes the selecting request and then the service, reads the
  answers the server gives to both, hands over the connection behind them when both are
  \<^verbatim>\<open>OKAY\<close>, and reports the server's reason when the service is refused.
\<close>

theorem connect_conversation:
  fixes c :: conn
  assumes "adb_server_socket_spec cl = Some spec" "socket_spec_connect (o_net ext (cl_calls cl)) spec 0 = Done r" "sr_ok r"
    and "c = o_conn ext (cl_calls cl)" "no_hard_error (cn_out c)" "switch_service cl = Some (sw, known)" "length sw \<le> MAX_PAYLOAD - 4"
    and "service \<noteq> []" "\<not> StartsWith service ''host''" "length service \<le> MAX_PAYLOAD - 4" "\<forall>r. reason = Some r \<longrightarrow> length r < 65536"
    and "t < 2 ^ 64" "\<forall>k. known = Some k \<longrightarrow> t = k"
    and "readable (cn_in c) = ''OKAY'' @ (if known = None then le64 t else []) @ server_reply reason @ rest"
  shows "\<exists>c' cl'. cn_sent c' = protocol_string sw @ protocol_string service \<and> readable (cn_in c') = rest \<and>
    adb_connect_once ext service False cl =
      Done (case reason of None \<Rightarrow> Connected c' | Some r \<Rightarrow> ConnectFailed (Failed r), Some t, cl')"
proof -
  obtain c1 where 1: "switch_socket_transport (cl\<lparr>cl_calls := Suc (cl_calls cl)\<rparr>) (c\<lparr>cn_sent := []\<rparr>) = Done (Inr t, c1)"
      "readable (cn_in c1) = server_reply reason @ rest" "no_hard_error (cn_out c1)" "cn_sent c1 = protocol_string sw"
    using switch_reply [of "cl\<lparr>cl_calls := Suc (cl_calls cl)\<rparr>" sw known "c\<lparr>cn_sent := []\<rparr>" t "server_reply reason @ rest"] assms(5-7,12-14)
    by (simp, blast)
  obtain c2 where 2: "request_service service c1 = Done (map_option Failed reason, c2)" "readable (cn_in c2) = rest"
      "cn_sent c2 = protocol_string sw @ protocol_string service"
    using request_service_reply [OF 1(3) assms(10) 1(2) assms(11)] 1(4) by auto
  have "open_server ext cl = Done (Inr (c\<lparr>cn_sent := []\<rparr>), cl\<lparr>cl_calls := Suc (cl_calls cl)\<rparr>)"
    using assms(1-4) by (simp add: open_server_def)
  moreover have "\<not> MAX_PAYLOAD < length service" using assms(10) by simp
  ultimately have "\<exists>cl'. adb_connect_once ext service False cl =
      Done (case reason of None \<Rightarrow> Connected c2 | Some r \<Rightarrow> ConnectFailed (Failed r), Some t, cl')"
    using assms(8,9) 1(1) 2(1) by (cases reason) (auto simp: adb_connect_once_def)
  with 2 show ?thesis by blast
qed

text \<open>The devices and the network of the examples: every connection succeeds and is answered from a script.\<close>

definition sample_outside :: "(nat \<Rightarrow> string) \<Rightarrow> outside" where
  "sample_outside answers =
     \<lparr>o_net = (\<lambda>_. \<lparr>network_loopback_client = (\<lambda>_. Inr 3), network_connect = (\<lambda>_ _. Inr 3), network_local_client = (\<lambda>_ _. Inr 3),
        network_inaddr_any_server = (\<lambda>_. Inr 3), network_loopback_server = (\<lambda>_ _. Inr 3), network_local_server = (\<lambda>_ _. Inr 3),
        adb_socket_get_local_port = (\<lambda>_. 0), vsock_socket = Inr 3, vsock_connect = (\<lambda>_ _ _. True), vsock_bind_listen = (\<lambda>_ _. None),
        fd_cloexec_flag = (\<lambda>_. Inr False), fd_is_socket = (\<lambda>_. True), fd_dup = (\<lambda>_. Inr 3)\<rparr>),
      o_conn = (\<lambda>k. \<lparr>cn_in = [Avail (answers k), Closed], cn_out = [], cn_sent = []\<rparr>),
      o_launch_server = (\<lambda>_ _ _. True), o_one_device_mandatory = False, o_android_dir = ''/root/.android'',
      o_read_file = (\<lambda>_. None), o_execve = (\<lambda>_. False), o_stdin = \<lparr>cn_in = [Closed], cn_out = [], cn_sent = []\<rparr>\<rparr>"

lemma sample_connects: "\<exists>r. socket_spec_connect (o_net (sample_outside answers) k) ''tcp:5037'' 0 = Done r \<and> sr_ok r"
proof -
  have "dec_int 5037 = ''5037''" by (simp add: dec_int_def dec_def to_base.simps digit_char_def char_of_def bit_iff_odd)
  then have "ParseInt ''5037'' INT_MIN INT_MAX = Some 5037"
    using ParseInt_dec_int [of INT_MIN 5037 INT_MAX] by (simp add: INT_MIN_def INT_MAX_def)
  then show ?thesis
    by (simp add: socket_spec_connect_def StartsWith_def connect_tcp_def parse_tcp_socket_spec_def tcp_host_is_local_def sample_outside_def)
qed

theorem connect_conversation_witness:
  "\<exists>c' cl'. cn_sent c' = protocol_string ''host:tport:serial:emulator-5554'' @ protocol_string ''shell:ls'' \<and> readable (cn_in c') = ''files'' \<and>
     adb_connect_once (sample_outside (\<lambda>_. ''OKAY'' @ le64 7 @ ''OKAYfiles'')) ''shell:ls'' False (sample_user (Some ''emulator-5554'')) =
       Done (Connected c', Some 7, cl')"
proof -
  let ?ext = "sample_outside (\<lambda>_. ''OKAY'' @ le64 7 @ ''OKAYfiles'')" and ?cl = "sample_user (Some ''emulator-5554'')"
  obtain r where r: "socket_spec_connect (o_net ?ext (cl_calls ?cl)) ''tcp:5037'' 0 = Done r" "sr_ok r" using sample_connects by blast
  have "switch_service ?cl = Some (''host:tport:serial:emulator-5554'', None)" by (simp add: sample_user_def switch_service_def)
  from connect_conversation [of ?cl "''tcp:5037''" ?ext r "o_conn ?ext (cl_calls ?cl)" "''host:tport:serial:emulator-5554''" None "''shell:ls''" None 7 "''files''", OF _ r _ _ this]
  show ?thesis by (simp add: sample_user_def sample_outside_def no_hard_error_def MAX_PAYLOAD_def StartsWith_def server_reply_def)
qed

text \<open>A connection that ends with an end of file or an error, as a blocking descriptor does.\<close>

fun hangs_up :: "rd_event list \<Rightarrow> bool" where
  "hangs_up [] = False"
| "hangs_up (Avail bs # es) = hangs_up es"
| "hangs_up (Closed # es) = True"
| "hangs_up (RdFails e # es) = (e \<noteq> EAGAIN)"

lemma hangs_up_adb_read:
  "hangs_up es \<Longrightarrow> adb_read es n = (r, es') \<Longrightarrow> r \<noteq> RdErr EAGAIN \<and> (\<forall>bs. r = RdBytes bs \<longrightarrow> hangs_up es')"
  by (induction es n rule: adb_read.induct) (auto split: if_splits)

lemma hangs_up_read: "ReadFdExactly es n = (True, bs, es') \<Longrightarrow> hangs_up es \<Longrightarrow> hangs_up es'"
proof (induction es n arbitrary: bs rule: ReadFdExactly.induct)
  case (1 es len)
  show ?case
  proof (cases "len = 0")
    case True
    with "1.prems" show ?thesis by (simp add: ReadFdExactly.simps)
  next
    case False
    obtain r es1 where r: "adb_read es len = (r, es1)" by fastforce
    then obtain b where b: "r = RdBytes b" "b \<noteq> []" using "1.prems"(1) False
      by (cases r) (auto simp: ReadFdExactly.simps [of es len] split: if_splits)
    then obtain more where "ReadFdExactly es1 (len - length b) = (True, more, es')"
      using "1.prems"(1) False r by (auto simp: ReadFdExactly.simps [of es len] split: prod.splits)
    with "1.IH" [of r es1 b] hangs_up_adb_read [OF "1.prems"(2) r] b r False show ?thesis by auto
  qed
qed

lemma hangs_up_shutdown: "hangs_up es \<Longrightarrow> \<exists>x. ReadOrderlyShutdown es = Done x"
  using hangs_up_adb_read [of es 16]
  by (cases "adb_read es 16") (auto simp: ReadOrderlyShutdown_def checkR_def split: rd_result.splits list.splits)

lemma ReadProtocolString_hangs_up:
  assumes "length s < 65536" "readable es = protocol_string s @ rest" "hangs_up es"
  shows "\<exists>es'. ReadProtocolString es s0 = Done (None, s, es') \<and> hangs_up es'"
proof -
  obtain es' where r: "ReadProtocolString es s0 = Done (None, s, es')" using ReadProtocolString_ok [OF assms(1,2)] by blast
  then have "hangs_up es'" using assms(3)
    by (auto simp: ReadProtocolString_def Let_def split: prod.splits bool.splits if_splits dest!: hangs_up_read)
  with r show ?thesis by blast
qed

lemma scan_version_hex04: "v < 65536 \<Longrightarrow> scan_version (hex04 v) = Some (int v)"
proof -
  assume v: "v < 65536"
  obtain a r where h: "hex04 v = a # r" by (cases "hex04 v") auto
  then have "\<not> is_space a" using hex04_digits [of v] digit_not_special(2) by simp
  then have "take 4 (dropWhile is_space (c_str (hex04 v))) = hex04 v"
    using h c_str_id [OF hex04_no_nul, of v] length_hex04 [of v] v by simp
  moreover have "sint (word_of_nat v :: u32) = int v" using v by (simp add: signed_of_nat signed_take_bit_int_eq_self)
  ultimately show ?thesis using v by (simp add: scan_version_def strto_scan_digits [OF hex04_digits] strtoul_hex04)
qed

lemma open_server_ok:
  assumes "adb_server_socket_spec cl = Some spec" "\<exists>r. socket_spec_connect (o_net ext (cl_calls cl)) spec 0 = Done r \<and> sr_ok r"
  shows "open_server ext cl = Done (Inr ((o_conn ext (cl_calls cl))\<lparr>cn_sent := []\<rparr>), cl\<lparr>cl_calls := Suc (cl_calls cl)\<rparr>)"
  using assms by (auto simp: open_server_def)

lemma kill_conversation:
  assumes "adb_server_socket_spec cl = Some spec" "\<exists>r. socket_spec_connect (o_net ext (cl_calls cl)) spec 0 = Done r \<and> sr_ok r"
    and "no_hard_error (cn_out (o_conn ext (cl_calls cl)))" "readable (cn_in (o_conn ext (cl_calls cl))) = ''OKAY''" "hangs_up (cn_in (o_conn ext (cl_calls cl)))"
  shows "adb_kill_server ext cl = Done (True, cl\<lparr>cl_calls := Suc (cl_calls cl), cl_sent := cl_sent cl @ [protocol_string ''host:kill'']\<rparr>)"
proof -
  let ?c = "(o_conn ext (cl_calls cl))\<lparr>cn_sent := []\<rparr>"
  obtain es where s: "send_string ''host:kill'' ?c = (True, ?c\<lparr>cn_out := es, cn_sent := protocol_string ''host:kill''\<rparr>)"
    using send_string_ok [of ?c "''host:kill''"] assms(3) by (auto simp: MAX_PAYLOAD_def)
  obtain es1 where r: "ReadFdExactly (cn_in (o_conn ext (cl_calls cl))) 4 = (True, ''OKAY'', es1)"
    using read_text [of _ "''OKAY''" "[]" 4] assms(4) by auto
  obtain x where "ReadOrderlyShutdown es1 = Done x" using hangs_up_shutdown [OF hangs_up_read [OF r assms(5)]] by blast
  with s r open_server_ok [OF assms(1,2)] show ?thesis by (simp add: adb_kill_server_def close_conn_def)
qed

lemma version_conversation:
  assumes "adb_server_socket_spec cl = Some spec" "\<exists>r. socket_spec_connect (o_net ext (cl_calls cl)) spec 0 = Done r \<and> sr_ok r"
    and "no_hard_error (cn_out (o_conn ext (cl_calls cl)))" "hangs_up (cn_in (o_conn ext (cl_calls cl)))" "v < 65536"
    and "readable (cn_in (o_conn ext (cl_calls cl))) = ''OKAY'' @ protocol_string (hex04 v)"
  shows "check_server_version ext cl =
    match_version ext spec (int v) (cl\<lparr>cl_calls := Suc (cl_calls cl), cl_sent := cl_sent cl @ [protocol_string ''host:version'']\<rparr>)"
proof -
  let ?c = "(o_conn ext (cl_calls cl))\<lparr>cn_sent := []\<rparr>"
  obtain es where s: "send_string ''host:version'' ?c = (True, ?c\<lparr>cn_out := es, cn_sent := protocol_string ''host:version''\<rparr>)"
    using send_string_ok [of ?c "''host:version''"] assms(3) by (auto simp: MAX_PAYLOAD_def)
  obtain es1 where r: "ReadFdExactly (cn_in (o_conn ext (cl_calls cl))) 4 = (True, ''OKAY'', es1)" "readable es1 = protocol_string (hex04 v)"
    using read_text [of _ "''OKAY''" "protocol_string (hex04 v)" 4] assms(6) by auto
  obtain es2 where r2: "ReadProtocolString es1 [] = Done (None, hex04 v, es2)" "hangs_up es2"
    using ReadProtocolString_hangs_up [of "hex04 v" es1 "[]"] r(2) hangs_up_read [OF r(1) assms(4)] assms(5) by (auto simp: length_hex04)
  obtain x where "ReadOrderlyShutdown es2 = Done x" using hangs_up_shutdown [OF r2(2)] by blast
  moreover have "adb_connect_once ext ''host:version'' False cl =
      Done (Connected (?c\<lparr>cn_out := es, cn_sent := protocol_string ''host:version'', cn_in := es1\<rparr>), None, cl\<lparr>cl_calls := Suc (cl_calls cl)\<rparr>)"
    using s r(1) open_server_ok [OF assms(1,2)]
    by (simp add: adb_connect_once_def request_service_def adb_status_def StartsWith_def MAX_PAYLOAD_def)
  ultimately show ?thesis using r2(1) scan_version_hex04 [OF assms(5)] assms(1) by (simp add: check_server_version_def close_conn_def Let_def)
qed

text \<open>
  C23: A server of the client's own version is left alone: the check succeeds, having only asked for the
  version.  One of an older version is told to quit, and a new one is started, once; this holds for every
  address of the server, a remote one included.
\<close>

theorem server_version_matched:
  assumes "adb_server_socket_spec cl = Some spec" "\<forall>k. \<exists>r. socket_spec_connect (o_net ext k) spec 0 = Done r \<and> sr_ok r"
    and "\<forall>k. no_hard_error (cn_out (o_conn ext k)) \<and> hangs_up (cn_in (o_conn ext k))" "v \<le> ADB_SERVER_VERSION"
    and "readable (cn_in (o_conn ext (cl_calls cl))) = ''OKAY'' @ protocol_string (hex04 v)"
    and "readable (cn_in (o_conn ext (Suc (cl_calls cl)))) = ''OKAY''"
  shows "check_server_version ext cl =
    (if v = ADB_SERVER_VERSION
     then Done (None, cl\<lparr>cl_calls := cl_calls cl + 1, cl_sent := cl_sent cl @ [protocol_string ''host:version'']\<rparr>)
     else start_server ext spec (cl\<lparr>cl_calls := cl_calls cl + 2,
            cl_sent := cl_sent cl @ [protocol_string ''host:version'', protocol_string ''host:kill'']\<rparr>))"
proof -
  let ?cl = "cl\<lparr>cl_calls := Suc (cl_calls cl), cl_sent := cl_sent cl @ [protocol_string ''host:version'']\<rparr>"
  have "v < 65536" using assms(4) by (simp add: ADB_SERVER_VERSION_def)
  then have "check_server_version ext cl = match_version ext spec (int v) ?cl" using assms by (intro version_conversation) simp_all
  moreover have "adb_kill_server ext ?cl = Done (True, cl\<lparr>cl_calls := cl_calls cl + 2,
      cl_sent := cl_sent cl @ [protocol_string ''host:version'', protocol_string ''host:kill'']\<rparr>)"
    using assms kill_conversation [of ?cl spec ext] by simp
  moreover have "\<not> int v > int ADB_SERVER_VERSION" using assms(4) by simp
  ultimately show ?thesis by (simp add: match_version_def)
qed

theorem server_version_matched_witness:
  "\<exists>cl'. check_server_version (sample_outside (\<lambda>k. if k = 0 then ''OKAY'' @ protocol_string (hex04 40) else ''OKAY'')) (sample_user None) = Done (None, cl') \<and>
     cl_sent cl' = [protocol_string ''host:version'', protocol_string ''host:kill''] \<and> cl_launched cl' = [None]"
proof -
  let ?ext = "sample_outside (\<lambda>k. if k = 0 then ''OKAY'' @ protocol_string (hex04 40) else ''OKAY'')"
  have "check_server_version ?ext (sample_user None) = start_server ?ext ''tcp:5037'' (sample_user None\<lparr>cl_calls := cl_calls (sample_user None) + 2,
      cl_sent := cl_sent (sample_user None) @ [protocol_string ''host:version'', protocol_string ''host:kill'']\<rparr>)"
    using server_version_matched [of "sample_user None" "''tcp:5037''" ?ext 40] sample_connects
    by (simp add: sample_user_def ADB_SERVER_VERSION_def) (simp add: sample_outside_def no_hard_error_def)
  then show ?thesis by (simp add: start_server_def sample_user_def sample_outside_def Let_def)
qed

end
