(* ===== verification/Socket_Safety.thy ===== *)
theory Socket_Safety
  imports Sockets
begin

text \<open>
  Memory safety of the socket layer.  A weakest-precondition calculus for computations on the
  state, the invariant that ties sockets, peers, lists and events together, and the proof that
  every operation keeps it and never uses a dangling or null pointer.
\<close>

declare do_close.simps [simp del]

section \<open>Weakest preconditions\<close>

text \<open>The computation ends in a state satisfying \<open>Q\<close>, or stops in one of the ways in \<open>E\<close>.\<close>

definition okA :: "stop set \<Rightarrow> 'a act \<Rightarrow> world \<Rightarrow> ('a \<Rightarrow> world \<Rightarrow> bool) \<Rightarrow> bool" where
  "okA E m w Q \<longleftrightarrow> (case m w of Done (x, w') \<Rightarrow> Q x w' | Stop e \<Rightarrow> e \<in> E)"

named_theorems wp \<open>weakest preconditions of the basic computations\<close>

lemma wp_ret [wp]: "okA E (retA x) w Q \<longleftrightarrow> Q x w"
  by (simp add: okA_def retA_def)

lemma wp_stop [wp]: "okA E (stopA e) w Q \<longleftrightarrow> e \<in> E"
  by (simp add: okA_def stopA_def)

lemma wp_bind [wp]: "okA E (bindA m f) w Q \<longleftrightarrow> okA E m w (\<lambda>x w'. okA E (f x) w' Q)"
  by (auto simp: okA_def bindA_def split: run.splits)

lemma wp_then [wp]: "okA E (thenA m n) w Q \<longleftrightarrow> okA E m w (\<lambda>x w'. okA E n w' Q)"
  by (simp add: thenA_def wp_bind)

lemma wp_get [wp]: "okA E (getA f) w Q \<longleftrightarrow> Q (f w) w"
  by (simp add: okA_def getA_def)

lemma wp_mod [wp]: "okA E (modA f) w Q \<longleftrightarrow> Q () (f w)"
  by (simp add: okA_def modA_def)

lemma wp_lift [wp]: "okA E (liftA r) w Q \<longleftrightarrow> (case r of Done x \<Rightarrow> Q x w | Stop e \<Rightarrow> e \<in> E)"
  by (auto simp: okA_def liftA_def split: run.splits)

lemma wp_when [wp]: "okA E (whenA b m) w Q \<longleftrightarrow> (if b then okA E m w Q else Q () w)"
  by (simp add: whenA_def wp_ret)

lemma wp_check [wp]: "okA E (checkA b) w Q \<longleftrightarrow> (if b then Q () w else CheckFailed \<in> E)"
  by (simp add: checkA_def wp_lift checkR_def)

lemma wp_derefp [wp]: "okA E (derefp p) w Q \<longleftrightarrow> (case p of None \<Rightarrow> BadAccess \<in> E | Some r \<Rightarrow> Q r w)"
  by (simp add: derefp_def wp_stop wp_ret split: option.split)

lemma wp_deref_sock [wp]:
  "okA E (deref_sock s) w Q \<longleftrightarrow> (case w_sock w s of None \<Rightarrow> BadAccess \<in> E | Some so \<Rightarrow> Q so w)"
  by (simp add: okA_def deref_sock_def split: option.split)

lemma wp_mod_sock [wp]:
  "okA E (mod_sock s f) w Q \<longleftrightarrow>
     (case w_sock w s of None \<Rightarrow> BadAccess \<in> E | Some so \<Rightarrow> Q () (w\<lparr>w_sock := (w_sock w)(s \<mapsto> f so)\<rparr>))"
  by (simp add: okA_def mod_sock_def split: option.split)

lemma wp_new_sock [wp]:
  "okA E (new_sock so) w Q \<longleftrightarrow>
     Q (w_next_sock w) (w\<lparr>w_sock := (w_sock w)(w_next_sock w \<mapsto> so), w_next_sock := Suc (w_next_sock w)\<rparr>)"
  by (simp add: okA_def new_sock_def)

lemma wp_delete_sock [wp]:
  "okA E (delete_sock s) w Q \<longleftrightarrow>
     (case w_sock w s of None \<Rightarrow> BadAccess \<in> E | Some so \<Rightarrow> Q () (w\<lparr>w_sock := (w_sock w)(s := None)\<rparr>))"
  by (simp add: okA_def delete_sock_def split: option.split)

lemma wp_deref_tr [wp]:
  "okA E (deref_tr t) w Q \<longleftrightarrow> (case w_transport w t of None \<Rightarrow> BadAccess \<in> E | Some tr \<Rightarrow> Q tr w)"
  by (simp add: okA_def deref_tr_def split: option.split)

lemma wp_mod_tr [wp]:
  "okA E (mod_tr t f) w Q \<longleftrightarrow>
     (case w_transport w t of None \<Rightarrow> BadAccess \<in> E
      | Some tr \<Rightarrow> Q () (w\<lparr>w_transport := (w_transport w)(t \<mapsto> f tr)\<rparr>))"
  by (simp add: okA_def mod_tr_def split: option.split)

lemma wp_context [wp]:
  "okA E (on_context f) w Q \<longleftrightarrow> (case f (w_context w) of Done c \<Rightarrow> Q () (w\<lparr>w_context := c\<rparr>) | Stop e \<Rightarrow> e \<in> E)"
  by (auto simp: okA_def on_context_def split: run.splits)

lemma okA_mono: "okA E m w P \<Longrightarrow> (\<And>x w'. P x w' \<Longrightarrow> Q x w') \<Longrightarrow> okA E m w Q"
  by (auto simp: okA_def split: run.splits)

lemma okA_weaken: "okA E m w Q \<Longrightarrow> E \<subseteq> E' \<Longrightarrow> okA E' m w Q"
  by (auto simp: okA_def split: run.splits)

lemma okA_Done: "okA E m w Q \<Longrightarrow> m w = Done (x, w') \<Longrightarrow> Q x w'"
  by (simp add: okA_def)

section \<open>The invariant\<close>

definition is_local :: "asocket \<Rightarrow> bool" where
  "is_local so \<longleftrightarrow> so_close so = CloseLocal \<or> so_close so = CloseNotify"

type_synonym installed = "nat \<Rightarrow> fde_owner_t fdevent option"

text \<open>A local socket's own part: descriptor, event and queue.  \<open>fdw\<close> is whether waiting data must be waited for.\<close>

definition local_ok :: "bool \<Rightarrow> installed \<Rightarrow> nat \<Rightarrow> asocket \<Rightarrow> bool" where
  "local_ok fdw inst s so \<longleftrightarrow>
     so_enqueue so = EnqueueLocal \<and> (so_ready so = ReadyLocal \<or> so_ready so = ReadyNotify) \<and>
     so_shutdown so = None \<and> iov_inv (so_packet_queue so) \<and> \<not> so_exit_on_close so \<and>
     (\<exists>fd e. so_fd so = Some fd \<and> so_fde so = Some fd \<and> inst fd = Some e \<and> fde_owner e = SocketEvent s \<and>
        (fdw \<and> \<not> iov_empty (so_packet_queue so) \<and> \<not> so_has_write_error so \<longrightarrow> FDE_WRITE \<in> fde_state e))"

definition shape_ok :: "installed \<Rightarrow> nat \<Rightarrow> asocket \<Rightarrow> bool" where
  "shape_ok inst s so \<longleftrightarrow>
     (case so_close so of
        CloseRemote \<Rightarrow> so_enqueue so = EnqueueRemote \<and> so_ready so = ReadyRemote \<and>
          so_shutdown so = Some ShutdownRemote \<and> so_transport so \<noteq> None \<and> \<not> so_closing so
      | CloseSmart \<Rightarrow> so_enqueue so = EnqueueSmart \<and> so_ready so = ReadySmart \<and> so_shutdown so = None \<and> \<not> so_closing so
      | CloseTracker \<Rightarrow> so_enqueue so = EnqueueTracker \<and> so_ready so = ReadyTracker \<and> so_shutdown so = None \<and> \<not> so_closing so
      | _ \<Rightarrow> local_ok True inst s so)"

text \<open>
  The peer's part, for all sockets but those in \<open>D\<close>, which are in the middle of being closed: peers
  point at each other, one of the two is local, only local sockets can be without a peer, a
  closing socket has none, and the peer of a smart socket is on no transport.
\<close>

definition peer_ok :: "nat set \<Rightarrow> (nat \<Rightarrow> asocket option) \<Rightarrow> nat \<Rightarrow> asocket \<Rightarrow> bool" where
  "peer_ok D sk s so \<longleftrightarrow>
     (case so_peer so of
        None \<Rightarrow> is_local so
      | Some p \<Rightarrow> p \<notin> D \<and> p \<noteq> s \<and> \<not> so_closing so \<and>
          (\<exists>po. sk p = Some po \<and> so_peer po = Some s \<and> (is_local so \<or> is_local po) \<and>
             (so_close po = CloseSmart \<longrightarrow> so_transport so = None)))"

definition socks_ok :: "nat set \<Rightarrow> (nat \<Rightarrow> asocket option) \<Rightarrow> installed \<Rightarrow> nat set \<Rightarrow> nat \<Rightarrow> bool" where
  "socks_ok D sk inst trs nx \<longleftrightarrow> (\<forall>s so. sk s = Some so \<longrightarrow>
     shape_ok inst s so \<and> (s \<notin> D \<longrightarrow> peer_ok D sk s so) \<and> s < nx \<and> (\<forall>t. so_transport so = Some t \<longrightarrow> t \<in> trs))"

definition lists_ok :: "(nat \<Rightarrow> asocket option) \<Rightarrow> nat list \<Rightarrow> nat list \<Rightarrow> nat list \<Rightarrow> bool" where
  "lists_ok sk ls cl trk \<longleftrightarrow> distinct ls \<and> distinct cl \<and> distinct trk \<and>
     (\<forall>s. s \<in> set ls \<longleftrightarrow> (\<exists>so. sk s = Some so \<and> is_local so \<and> \<not> so_closing so)) \<and>
     (\<forall>s. s \<in> set cl \<longleftrightarrow> (\<exists>so. sk s = Some so \<and> is_local so \<and> so_closing so)) \<and>
     (\<forall>s. s \<in> set trk \<longleftrightarrow> (\<exists>so. sk s = Some so \<and> so_close so = CloseTracker))"

text \<open>
  The listeners' part: every listener owns an installed event, is registered with its transport, and
  has one unless it is a smart socket; a transport's disconnect list names just the listeners on it.
\<close>

definition listener_ok :: "installed \<Rightarrow> (nat \<Rightarrow> nat list option) \<Rightarrow> nat \<Rightarrow> alistener \<Rightarrow> bool" where
  "listener_ok inst dis i l \<longleftrightarrow>
     (\<exists>fd e. l_fde l = Some fd \<and> inst fd = Some e \<and> fde_owner e \<in> {ListenerEvent i, SmartListenerEvent i}) \<and>
     (l_connect_to l \<noteq> kSmartSocketConnectTo \<longrightarrow> l_transport l \<noteq> None) \<and>
     (\<forall>t. l_transport l = Some t \<longrightarrow> (\<exists>ds. dis t = Some ds \<and> i \<in> set ds))"

definition listeners_ok :: "(nat \<times> alistener) list \<Rightarrow> installed \<Rightarrow> (nat \<Rightarrow> nat list option) \<Rightarrow> nat \<Rightarrow> bool" where
  "listeners_ok ls inst dis nx \<longleftrightarrow> distinct (map fst ls) \<and>
     (\<forall>i l. (i, l) \<in> set ls \<longrightarrow> i < nx \<and> listener_ok inst dis i l) \<and>
     (\<forall>t ds. dis t = Some ds \<longrightarrow> distinct ds \<and> (\<forall>i \<in> set ds. \<exists>l. (i, l) \<in> set ls \<and> l_transport l = Some t))"

definition disconnects_of :: "world \<Rightarrow> nat \<Rightarrow> nat list option" where
  "disconnects_of w = (\<lambda>t. map_option t_disconnects (w_transport w t))"

definition inst_of :: "world \<Rightarrow> installed" where
  "inst_of w = map_of (installed_fdevents (w_context w))"

text \<open>
  The events' part: the socket or the listener an event calls back exists and owns this very event.
\<close>

definition owner_ok :: "(nat \<Rightarrow> asocket option) \<Rightarrow> (nat \<times> alistener) list \<Rightarrow> nat \<Rightarrow> fde_owner_t \<Rightarrow> bool" where
  "owner_ok sk ls fd ow \<longleftrightarrow>
     (case ow of
        SocketEvent s \<Rightarrow> \<exists>so. sk s = Some so \<and> is_local so \<and> so_fde so = Some fd
      | ListenerEvent i \<Rightarrow> \<exists>l. map_of ls i = Some l \<and> l_fde l = Some fd \<and> l_transport l \<noteq> None
      | SmartListenerEvent i \<Rightarrow> \<exists>l. map_of ls i = Some l \<and> l_fde l = Some fd
      | DrainEvent t \<Rightarrow> True)"

definition owners_ok :: "installed \<Rightarrow> (nat \<Rightarrow> asocket option) \<Rightarrow> (nat \<times> alistener) list \<Rightarrow> bool" where
  "owners_ok inst sk ls \<longleftrightarrow> (\<forall>fd e. inst fd = Some e \<longrightarrow> owner_ok sk ls fd (fde_owner e))"

definition wfx :: "nat set \<Rightarrow> world \<Rightarrow> bool" where
  "wfx D w \<longleftrightarrow>
     socks_ok D (w_sock w) (inst_of w) (dom (w_transport w)) (w_next_sock w) \<and>
     lists_ok (w_sock w) (local_socket_list w) (local_socket_closing_list w) (device_tracker_list w) \<and>
     context_ok (w_context w) \<and>
     listeners_ok (listener_list w) (inst_of w) (disconnects_of w) (w_next_listener w) \<and>
     set (transport_list w) \<union> set (pending_list w) \<subseteq> dom (w_transport w) \<and>
     dom (w_transport w) \<subseteq> {..<w_next_transport w} \<and>
     owners_ok (inst_of w) (w_sock w) (listener_list w)"

definition world_ok :: "world \<Rightarrow> bool" where
  "world_ok w \<longleftrightarrow> wfx {} w"


lemma disconnects_of_upd [simp]:
  "disconnects_of (w\<lparr>w_sock := sk\<rparr>) = disconnects_of w" "disconnects_of (w\<lparr>w_io := io\<rparr>) = disconnects_of w"
  "disconnects_of (w\<lparr>w_context := c\<rparr>) = disconnects_of w" "disconnects_of (w\<lparr>w_next_sock := n\<rparr>) = disconnects_of w"
  "disconnects_of (w\<lparr>local_socket_list := ls\<rparr>) = disconnects_of w"
  "disconnects_of (w\<lparr>local_socket_closing_list := ls\<rparr>) = disconnects_of w"
  "disconnects_of (w\<lparr>local_socket_next_id := u\<rparr>) = disconnects_of w"
  "disconnects_of (w\<lparr>device_tracker_list := ls\<rparr>) = disconnects_of w"
  "disconnects_of (w\<lparr>transports_ready := b\<rparr>) = disconnects_of w"
  "disconnects_of (w\<lparr>device_scan_complete := b\<rparr>) = disconnects_of w"
  "disconnects_of (w\<lparr>transport_list := ls\<rparr>) = disconnects_of w"
  "disconnects_of (w\<lparr>pending_list := ls\<rparr>) = disconnects_of w"
  "disconnects_of (w\<lparr>listener_list := l\<rparr>) = disconnects_of w"
  "disconnects_of (w\<lparr>w_next_listener := n\<rparr>) = disconnects_of w"
  "disconnects_of (w\<lparr>run_queue := q\<rparr>) = disconnects_of w"
  "disconnects_of (w\<lparr>reconnect_queue := rq\<rparr>) = disconnects_of w"
  "disconnects_of (w\<lparr>w_threads := th\<rparr>) = disconnects_of w"
  "disconnects_of (w\<lparr>local_transports := lt\<rparr>) = disconnects_of w"
  "disconnects_of (w\<lparr>retry_ports := rp\<rparr>) = disconnects_of w"
  "disconnects_of (w\<lparr>w_new_fds := f\<rparr>) = disconnects_of w" "disconnects_of (w\<lparr>w_net_calls := n\<rparr>) = disconnects_of w"
  by (simp_all add: disconnects_of_def)

lemma disconnects_of_same:
  "w_transport w t = Some tr \<Longrightarrow> t_disconnects tr' = t_disconnects tr \<Longrightarrow>
     disconnects_of (w\<lparr>w_transport := (w_transport w)(t \<mapsto> tr')\<rparr>) = disconnects_of w"
  by (auto simp: disconnects_of_def)

lemma disconnects_dom: "dom (disconnects_of w) = dom (w_transport w)"
  by (auto simp: disconnects_of_def)

lemma listener_ok_other:
  assumes "listener_ok inst dis i l" "inst fd = Some e" "fde_owner e = SocketEvent s"
  shows "listener_ok (inst(fd := v)) dis i l"
proof -
  have "l_fde l \<noteq> Some fd" using assms by (auto simp: listener_ok_def)
  then show ?thesis using assms(1) by (auto simp: listener_ok_def)
qed

lemma listeners_ok_other:
  assumes "listeners_ok ls inst dis nx" "inst fd = Some e" "fde_owner e = SocketEvent s"
  shows "listeners_ok ls (inst(fd := v)) dis nx"
  using assms(1) listener_ok_other [of inst dis _ _ fd e s v] assms(2,3) unfolding listeners_ok_def by blast

subsection \<open>Changing one socket\<close>

lemma socks_okD:
  assumes "socks_ok D sk inst trs nx" "sk s = Some so"
  shows "shape_ok inst s so" "s \<notin> D \<Longrightarrow> peer_ok D sk s so" "s < nx" "so_transport so = Some t \<Longrightarrow> t \<in> trs"
  using assms unfolding socks_ok_def by blast+

lemma peer_ok_del: "peer_ok (insert s D) sk x xo \<Longrightarrow> peer_ok D (sk(s := v)) x xo"
  by (auto simp: peer_ok_def split: option.splits)

lemma socks_ok_del:
  assumes "socks_ok (insert s D) sk inst trs nx"
    and "\<And>x xo. x \<noteq> s \<Longrightarrow> sk x = Some xo \<Longrightarrow> shape_ok inst x xo \<Longrightarrow> shape_ok inst' x xo"
  shows "socks_ok D (sk(s := None)) inst' trs nx"
  using assms(1) unfolding socks_ok_def
  by (auto intro: assms(2) peer_ok_del split: if_splits)

lemma socks_ok_solo:
  assumes "socks_ok (insert s D) sk inst trs nx" "sk s = Some so"
    and "shape_ok inst' s so'" "so_peer so' = None" "is_local so'" "so_transport so' = so_transport so"
    and "\<And>x xo. x \<noteq> s \<Longrightarrow> sk x = Some xo \<Longrightarrow> shape_ok inst x xo \<Longrightarrow> shape_ok inst' x xo"
  shows "socks_ok D (sk(s \<mapsto> so')) inst' trs nx"
  using assms(1-6) unfolding socks_ok_def
  by (auto intro: assms(7) peer_ok_del simp: peer_ok_def [of _ _ s] split: if_splits)

lemma local_ok_other:
  assumes "local_ok b inst x xo" "x \<noteq> s" "inst fd = Some e" "fde_owner e = SocketEvent s"
  shows "local_ok b (inst(fd := v)) x xo"
  using assms unfolding local_ok_def by (metis fde_owner_t.inject(1) fun_upd_other option.inject)

lemma shape_ok_other:
  assumes "shape_ok inst x xo" "x \<noteq> s" "inst fd = Some e" "fde_owner e = SocketEvent s"
  shows "shape_ok (inst(fd := v)) x xo"
  using assms local_ok_other [of True inst x xo s fd e v] by (simp add: shape_ok_def split: close_fn.splits)

lemma shape_local: "is_local so \<Longrightarrow> shape_ok inst s so \<longleftrightarrow> local_ok True inst s so"
  by (auto simp: is_local_def shape_ok_def)

lemma lists_ok_del:
  assumes "lists_ok sk ls cl trk" "sk s = Some so"
  shows "lists_ok (sk(s := None)) (filter (\<lambda>x. x \<noteq> s) ls) (filter (\<lambda>x. x \<noteq> s) cl) (remove1 s trk)"
  using assms by (auto simp: lists_ok_def)

lemma lists_ok_del_local:
  assumes "lists_ok sk ls cl trk" "sk s = Some so" "is_local so"
  shows "lists_ok (sk(s := None)) (filter (\<lambda>x. x \<noteq> s) ls) (filter (\<lambda>x. x \<noteq> s) cl) trk"
proof -
  from assms have "s \<notin> set trk" by (auto simp: lists_ok_def is_local_def)
  with lists_ok_del [OF assms(1,2)] show ?thesis by (simp add: remove1_idem)
qed

lemma lists_ok_other:
  assumes "lists_ok sk ls cl trk" "sk s = Some so" "\<not> is_local so"
  shows "lists_ok (sk(s := None)) ls cl (remove1 s trk)"
  using assms by (auto simp: lists_ok_def)

lemma lists_ok_closing:
  assumes "lists_ok sk ls cl trk" "sk s = Some so" "is_local so" "is_local so'" "so_closing so'"
  shows "lists_ok (sk(s \<mapsto> so')) (filter (\<lambda>x. x \<noteq> s) ls) (filter (\<lambda>x. x \<noteq> s) cl @ [s]) trk"
  using assms by (auto simp: lists_ok_def is_local_def)

lemma lists_ok_same:
  assumes "lists_ok sk ls cl trk" "sk s = Some so" "so_close so' = so_close so \<or> is_local so \<and> is_local so'"
    and "so_closing so' = so_closing so"
  shows "lists_ok (sk(s \<mapsto> so')) ls cl trk"
  using assms by (auto simp: lists_ok_def is_local_def)


lemma owners_okD:
  assumes "owners_ok inst sk ls" "inst fd = Some e"
  shows "fde_owner e = SocketEvent s \<Longrightarrow> \<exists>so. sk s = Some so \<and> is_local so \<and> so_fde so = Some fd"
    "fde_owner e = ListenerEvent i \<Longrightarrow> \<exists>l. map_of ls i = Some l \<and> l_fde l = Some fd \<and> l_transport l \<noteq> None"
  using assms by (auto simp: owners_ok_def owner_ok_def dest!: spec [of _ fd])

lemma owners_ok_upd:
  assumes "owners_ok inst sk ls" "sk s = Some so" "shape_ok inst s so'" "so_close so' = so_close so \<or> is_local so \<and> is_local so'"
  shows "owners_ok inst (sk(s \<mapsto> so')) ls"
proof -
  have upd: "is_local so' \<and> so_fde so' = Some fd" if e: "inst fd = Some e" "fde_owner e = SocketEvent s" for fd e
  proof -
    have "is_local so" using owners_okD(1) [OF assms(1) e] assms(2) by auto
    then have loc: "is_local so'" using assms(4) by (auto simp: is_local_def)
    then obtain fd' e' where "so_fde so' = Some fd'" "inst fd' = Some e'" "fde_owner e' = SocketEvent s"
      using assms(3) by (auto simp: shape_local local_ok_def)
    then show ?thesis using owners_okD(1) [OF assms(1), of fd' e' s] owners_okD(1) [OF assms(1) e] loc assms(2) by auto
  qed
  have "owner_ok (sk(s \<mapsto> so')) ls fd (fde_owner e)" if e: "inst fd = Some e" for fd e
  proof -
    have "owner_ok sk ls fd (fde_owner e)" using assms(1) e by (simp add: owners_ok_def)
    then show ?thesis using upd [OF e] by (cases "fde_owner e") (auto simp: owner_ok_def)
  qed
  then show ?thesis by (simp add: owners_ok_def)
qed

lemma owner_ok_other:
  assumes "owner_ok sk ls fd ow" "sk s = None \<or> (\<exists>so. sk s = Some so \<and> (is_local so \<longrightarrow> so_fde so \<noteq> Some fd))"
  shows "owner_ok (sk(s := v)) ls fd ow"
  using assms by (auto simp: owner_ok_def split: fde_owner_t.splits)

lemma owners_ok_other:
  assumes "owners_ok inst sk ls" "sk s = None \<or> (\<exists>so. sk s = Some so \<and> \<not> is_local so)"
  shows "owners_ok inst (sk(s := v)) ls"
  using assms owner_ok_other [of sk ls _ _ s v] by (auto simp: owners_ok_def)

lemma owners_ok_state:
  assumes "owners_ok inst sk ls" "inst fd = Some e" "fde_owner e' = fde_owner e"
  shows "owners_ok (inst(fd \<mapsto> e')) sk ls"
  using assms by (auto simp: owners_ok_def)

lemma owners_ok_drain:
  assumes "owners_ok inst sk ls" "sk s = Some so" "so_fde so = Some fd" "fde_owner e' = DrainEvent n"
  shows "owners_ok (inst(fd \<mapsto> e')) (sk(s := None)) ls"
  using assms owner_ok_other [of sk ls _ _ s None] by (auto simp: owners_ok_def owner_ok_def [of _ _ _ "DrainEvent n"])

subsection \<open>Steps that leave the sockets alone\<close>

text \<open>What a step on one socket leaves as it was, and what every step leaves.\<close>

definition same_rest :: "world \<Rightarrow> world \<Rightarrow> bool" where
  "same_rest w w' \<longleftrightarrow> w_next_sock w' = w_next_sock w \<and> disconnects_of w' = disconnects_of w \<and>
     listener_list w' = listener_list w \<and> w_next_listener w' = w_next_listener w \<and>
     transport_list w' = transport_list w \<and> pending_list w' = pending_list w \<and>
     w_next_transport w' = w_next_transport w"

definition same_but :: "nat set \<Rightarrow> world \<Rightarrow> world \<Rightarrow> bool" where
  "same_but S w w' \<longleftrightarrow> same_rest w w' \<and> (\<forall>x. x \<notin> S \<longrightarrow> w_sock w' x = w_sock w x)"

text \<open>A socket after its close: freed, or waiting on the closing list for its last bytes.\<close>

definition gone :: "asocket option \<Rightarrow> bool" where
  "gone v \<longleftrightarrow> (case v of None \<Rightarrow> True | Some so \<Rightarrow> is_local so \<and> so_closing so \<and> so_peer so = None)"

definition quiet :: "world \<Rightarrow> world \<Rightarrow> bool" where
  "quiet w w' \<longleftrightarrow> same_rest w w' \<and> w_sock w' = w_sock w \<and> local_socket_list w' = local_socket_list w \<and>
     local_socket_closing_list w' = local_socket_closing_list w \<and> device_tracker_list w' = device_tracker_list w \<and>
     w_context w' = w_context w"

lemma same_rest_refl [simp]: "same_rest w w"
  by (simp add: same_rest_def)

lemma same_rest_trans: "same_rest w w' \<Longrightarrow> same_rest w' w'' \<Longrightarrow> same_rest w w''"
  by (simp add: same_rest_def)

lemma quiet_refl [simp]: "quiet w w"
  by (simp add: quiet_def)

lemma quiet_trans: "quiet w w' \<Longrightarrow> quiet w' w'' \<Longrightarrow> quiet w w''"
  by (auto simp: quiet_def dest: same_rest_trans)

lemma same_rest_dom: "same_rest w w' \<Longrightarrow> dom (w_transport w') = dom (w_transport w)"
  unfolding same_rest_def by (metis disconnects_dom)

lemma quiet_wfx: "quiet w w' \<Longrightarrow> wfx D w' \<longleftrightarrow> wfx D w"
  using same_rest_dom [of w w'] by (auto simp: quiet_def same_rest_def wfx_def inst_of_def)

lemma quiet_io [simp]: "quiet w (w\<lparr>w_io := io\<rparr>)"
  by (simp add: quiet_def same_rest_def)

lemma quiet_sock: "quiet w w' \<Longrightarrow> w_sock w' = w_sock w"
  by (simp add: quiet_def)

lemma okA_write_fd: "okA E (write_fd fd f) w (\<lambda>_ w'. quiet w w')"
  by (simp add: okA_def write_fd_def split: option.split prod.split)

lemma okA_SendFail: "okA E (SendFailA fd r) w (\<lambda>_ w'. quiet w w')"
  unfolding SendFailA_def wp_bind by (rule okA_mono [OF okA_write_fd]) (simp add: wp_ret)

lemma okA_SendOkay: "okA E (SendOkayA fd) w (\<lambda>_ w'. quiet w w')"
  unfolding SendOkayA_def wp_bind by (rule okA_mono [OF okA_write_fd]) (simp add: wp_ret)

lemma okA_SendProtocolString: "okA E (SendProtocolStringA fd r) w (\<lambda>_ w'. quiet w w')"
  unfolding SendProtocolStringA_def wp_bind by (rule okA_mono [OF okA_write_fd]) (simp add: wp_ret)

lemma okA_writev: "okA E (adb_writev fd iov) w (\<lambda>_ w'. quiet w w')"
  by (simp add: okA_def adb_writev_def Let_def split: option.split prod.split wr_result.split)

lemma seal_packet_total: "unat (m_data_length (p_msg p)) \<le> length (p_payload p) \<Longrightarrow> \<exists>q. seal_packet v p = Done q"
proof -
  assume "unat (m_data_length (p_msg p)) \<le> length (p_payload p)"
  then have "\<exists>c. calculate_apacket_checksum p = Done c"
    unfolding calculate_apacket_checksum_def using checksum_loop_sum [of 0 _ "p_payload p" 0] by fastforce
  then show ?thesis by (auto simp: seal_packet_def Let_def)
qed

lemma packet_of_length: "unat (m_data_length (p_msg (packet_of c a b xs))) \<le> length (p_payload (packet_of c a b xs))"
  by (simp add: packet_of_def unat_of_nat)

lemma quiet_transport: "w_transport w t = Some tr \<Longrightarrow> t_disconnects tr' = t_disconnects tr \<Longrightarrow> quiet w (w\<lparr>w_transport := (w_transport w)(t \<mapsto> tr')\<rparr>)"
  by (simp add: quiet_def same_rest_def disconnects_of_same)

lemma okA_mod_conn:
  assumes "w_transport w t = Some tr" "t_disconnects (f tr) = t_disconnects tr"
  shows "okA E (mod_conn t f) w (\<lambda>_ w'. quiet w w' \<and> w_io w' = w_io w)"
proof -
  let ?w = "w\<lparr>w_transport := (w_transport w)(t \<mapsto> f tr)\<rparr>"
  have "quiet w ?w" by (rule quiet_transport [OF assms])
  moreover have "quiet ?w (?w\<lparr>local_transports := l\<rparr>)" for l by (simp add: quiet_def same_rest_def)
  ultimately have "quiet w ?w" "quiet w (?w\<lparr>local_transports := l\<rparr>)" for l by (auto intro: quiet_trans)
  with assms(1) show ?thesis by (simp add: mod_conn_def wp split: option.split)
qed

lemma okA_send_packet_io:
  assumes "w_transport w t \<noteq> None"
  shows "okA E (send_packet (packet_of c a b xs) (Some t)) w (\<lambda>_ w'. quiet w w' \<and> w_io w' = w_io w)"
proof -
  from assms obtain tr where tr: "w_transport w t = Some tr" by auto
  obtain q where q: "seal_packet (t_protocol_version tr) (packet_of c a b xs) = Done q"
    using seal_packet_total [OF packet_of_length] by blast
  then have "\<exists>tr'. send_packet_on (packet_of c a b xs) tr = Done tr' \<and> t_disconnects tr' = t_disconnects tr"
    by (auto simp: send_packet_on_def transport_Write_def transport_Kick_def connection_Stop_def split: prod.split)
  then obtain tr' where "send_packet_on (packet_of c a b xs) tr = Done tr'" "t_disconnects tr' = t_disconnects tr" by blast
  then show ?thesis using okA_mod_conn [OF tr, of "\<lambda>_. tr'"] tr by (simp add: send_packet_def wp)
qed

lemma okA_send_packet:
  "w_transport w t \<noteq> None \<Longrightarrow> okA E (send_packet (packet_of c a b xs) (Some t)) w (\<lambda>_ w'. quiet w w')"
  by (rule okA_mono [OF okA_send_packet_io]) simp_all

lemma okA_send_ready:
  "w_transport w t \<noteq> None \<Longrightarrow> okA E (send_ready l r (Some t) n) w (\<lambda>_ w'. quiet w w' \<and> w_io w' = w_io w)"
  using okA_send_packet_io [of w t] by (auto simp: send_ready_def wp)

lemma okA_send_close:
  "w_transport w t \<noteq> None \<Longrightarrow> okA E (send_close l r (Some t)) w (\<lambda>_ w'. quiet w w')"
  using okA_send_packet [of w t] by (simp add: send_close_def)


subsection \<open>Closing one side\<close>

lemma wfx_parts:
  assumes "wfx D w"
  shows "socks_ok D (w_sock w) (inst_of w) (dom (w_transport w)) (w_next_sock w)"
    "lists_ok (w_sock w) (local_socket_list w) (local_socket_closing_list w) (device_tracker_list w)"
    "context_ok (w_context w)"
    "set (transport_list w) \<union> set (pending_list w) \<subseteq> dom (w_transport w) \<and> dom (w_transport w) \<subseteq> {..<w_next_transport w}"
    "listeners_ok (listener_list w) (inst_of w) (disconnects_of w) (w_next_listener w)"
    "owners_ok (inst_of w) (w_sock w) (listener_list w)"
  using assms by (simp_all add: wfx_def)

lemma wfx_local:
  assumes "wfx D w" "w_sock w s = Some so" "is_local so"
  obtains fd e where "so_fd so = Some fd" "so_fde so = Some fd" "inst_of w fd = Some e"
    "fde_owner e = SocketEvent s" "iov_inv (so_packet_queue so)" "\<not> so_exit_on_close so"
    "\<not> iov_empty (so_packet_queue so) \<Longrightarrow> \<not> so_has_write_error so \<Longrightarrow> FDE_WRITE \<in> fde_state e"
proof -
  have "local_ok True (inst_of w) s so"
    using socks_okD(1) [OF wfx_parts(1) [OF assms(1)] assms(2)] assms(3) by (simp add: shape_local)
  with that show ?thesis unfolding local_ok_def by blast
qed

text \<open>Releasing a socket's event and installing a draining one under the same descriptor.\<close>

lemma redrain_ok:
  assumes "context_ok c" "map_of (installed_fdevents c) fd = Some e"
  obtains c1 c2 c3 c4 e' where "fdevent_release fd c = Done c1" "fdevent_create (Some fd) ow c1 = Done c2"
    "fdevent_add fd {FDE_READ} c2 = Done c3" "fdevent_set_timeout now fd (Some 1000) c3 = Done c4" "context_ok c4"
    "map_of (installed_fdevents c4) = (map_of (installed_fdevents c))(fd \<mapsto> e')" "fde_owner e' = ow"
proof -
  obtain c1 where c1: "fdevent_release fd c = Done c1" "context_ok c1"
      "map_of (installed_fdevents c1) = (map_of (installed_fdevents c))(fd := None)"
    using fdevent_release_ok [OF assms(1)] assms(2) by auto
  then obtain c2 e2 where c2: "fdevent_create (Some fd) ow c1 = Done c2" "context_ok c2"
      "map_of (installed_fdevents c2) = (map_of (installed_fdevents c))(fd \<mapsto> e2)" "fde_owner e2 = ow"
    using fdevent_create_ok [OF c1(2), of fd ow] by auto
  then obtain c3 e3 where c3: "fdevent_add fd {FDE_READ} c2 = Done c3" "context_ok c3"
      "map_of (installed_fdevents c3) = (map_of (installed_fdevents c))(fd \<mapsto> e3)" "fde_owner e3 = ow"
    using fdevent_add_ok [OF c2(2), of fd e2 "{FDE_READ}"] by auto
  then obtain c4 e4 where "fdevent_set_timeout now fd (Some 1000) c3 = Done c4" "context_ok c4"
      "map_of (installed_fdevents c4) = (map_of (installed_fdevents c))(fd \<mapsto> e4)" "fde_owner e4 = ow"
    using fdevent_set_timeout_ok [OF c3(2), of fd e3 now "Some 1000"] by auto
  with that c1 c2 c3 show ?thesis by blast
qed

lemma okA_destroy:
  assumes "wfx (insert s D) w" "w_sock w s = Some so" "is_local so"
  shows "okA E (local_socket_destroy s) w
    (\<lambda>_ w'. wfx D w' \<and> same_but {s} w w' \<and> gone (w_sock w' s))"
proof -
  note parts = wfx_parts [OF assms(1)]
  obtain fd e where fd: "so_fde so = Some fd" "inst_of w fd = Some e" "fde_owner e = SocketEvent s" "\<not> so_exit_on_close so"
    using wfx_local [OF assms] by metis
  have e: "map_of (installed_fdevents (w_context w)) fd = Some e" using fd(2) by (simp add: inst_of_def)
  obtain c1 c2 c3 c4 e' where c: "fdevent_release fd (w_context w) = Done c1"
    "fdevent_create (Some fd) (DrainEvent (w_now w)) c1 = Done c2"
    "fdevent_add fd {FDE_READ} c2 = Done c3" "fdevent_set_timeout (w_now w) fd (Some 1000) c3 = Done c4"
    "context_ok c4" "map_of (installed_fdevents c4) = (inst_of w)(fd \<mapsto> e')" "fde_owner e' = DrainEvent (w_now w)"
    using redrain_ok [OF parts(3) e] unfolding inst_of_def by metis
  let ?w = "w\<lparr>w_context := c4,
    local_socket_list := filter (\<lambda>x. x \<noteq> s) (local_socket_list w),
    local_socket_closing_list := filter (\<lambda>x. x \<noteq> s) (local_socket_closing_list w),
    w_sock := (w_sock w)(s := None)\<rparr>"
  have "wfx D ?w"
    using socks_ok_del [OF parts(1), of "(inst_of w)(fd \<mapsto> e')"] shape_ok_other [of "inst_of w" _ _ s fd e, OF _ _ fd(2,3)]
      lists_ok_del_local [OF parts(2) assms(2,3)] parts(4) c(5,6) listeners_ok_other [OF parts(5) fd(2,3)]
      owners_ok_drain [OF parts(6) assms(2) fd(1) c(7)]
    by (simp add: wfx_def inst_of_def)
  then show ?thesis using assms(2) fd c
    by (simp add: local_socket_destroy_def deferred_close_def fdevent_addA_def remove_socket_def wp same_rest_def
        same_but_def gone_def)
qed

lemma okA_finish:
  assumes "wfx (insert s D) w" "w_sock w s = Some so" "is_local so" "so_peer so = None"
  shows "okA E (local_socket_finish s) w
    (\<lambda>_ w'. wfx D w' \<and> same_but {s} w w' \<and> gone (w_sock w' s))"
proof (cases "so_closing so \<or> so_has_write_error so \<or> iov_empty (so_packet_queue so)")
  case True
  with assms(2) show ?thesis
    by (simp add: local_socket_finish_def wp okA_destroy [OF assms(1-3)])
next
  case False
  note parts = wfx_parts [OF assms(1)]
  obtain fd e where fd: "so_fd so = Some fd" "so_fde so = Some fd" "inst_of w fd = Some e"
      "fde_owner e = SocketEvent s" "iov_inv (so_packet_queue so)" "FDE_WRITE \<in> fde_state e"
    using wfx_local [OF assms(1-3)] False by metis
  have e: "map_of (installed_fdevents (w_context w)) fd = Some e" using fd(3) by (simp add: inst_of_def)
  let ?e = "e\<lparr>fde_state := fde_state e - {FDE_READ}\<rparr>" and ?so = "so\<lparr>so_closing := True\<rparr>"
  obtain c where c: "fdevent_del fd {FDE_READ} (w_context w) = Done c" "context_ok c"
      "map_of (installed_fdevents c) = (inst_of w)(fd \<mapsto> ?e)"
    using fdevent_del_ok [OF parts(3) e, of "{FDE_READ}"] by (auto simp: inst_of_def)
  have loc: "is_local ?so" using assms(3) by (simp add: is_local_def)
  have "local_ok True (inst_of w) s so"
    using socks_okD(1) [OF parts(1) assms(2)] assms(3) by (simp add: shape_local)
  then have sh: "shape_ok ((inst_of w)(fd \<mapsto> ?e)) s ?so"
    using fd by (auto simp: shape_local [OF loc] local_ok_def)
  let ?w = "w\<lparr>w_sock := (w_sock w)(s \<mapsto> ?so), w_context := c,
    local_socket_list := filter (\<lambda>x. x \<noteq> s) (local_socket_list w),
    local_socket_closing_list := filter (\<lambda>x. x \<noteq> s) (local_socket_closing_list w) @ [s]\<rparr>"
  have "wfx D ?w"
    using socks_ok_solo [OF parts(1) assms(2) sh] shape_ok_other [of "inst_of w" _ _ s fd e, OF _ _ fd(3,4)] loc assms(4)
      lists_ok_closing [OF parts(2) assms(2,3) loc] parts(4) c(2,3) listeners_ok_other [OF parts(5) fd(3,4)]
      owners_ok_upd [OF owners_ok_state [OF parts(6) fd(3), of ?e] assms(2) sh] assms(3)
    by (simp add: wfx_def inst_of_def)
  then show ?thesis using assms fd c False loc
    by (simp add: local_socket_finish_def fdevent_delA_def remove_socket_def wp same_rest_def
        same_but_def gone_def)
qed


lemma wfx_upd_self:
  assumes "wfx (insert s D) w" "w_sock w s = Some so" "shape_ok (inst_of w) s so'"
    and "\<And>t. so_transport so' = Some t \<Longrightarrow> t \<in> dom (w_transport w)"
    and "so_close so' = so_close so \<or> is_local so \<and> is_local so'" "so_closing so' = so_closing so"
  shows "wfx (insert s D) (w\<lparr>w_sock := (w_sock w)(s \<mapsto> so')\<rparr>)"
proof -
  note parts = wfx_parts [OF assms(1)]
  have "peer_ok (insert s D) ((w_sock w)(s \<mapsto> so')) x xo" if "peer_ok (insert s D) (w_sock w) x xo" for x xo
    using that by (auto simp: peer_ok_def split: option.splits)
  with parts(1) assms(2-4) have "socks_ok (insert s D) ((w_sock w)(s \<mapsto> so')) (inst_of w) (dom (w_transport w)) (w_next_sock w)"
    unfolding socks_ok_def by (auto split: if_splits)
  then show ?thesis using lists_ok_same [OF parts(2) assms(2,5,6)] owners_ok_upd [OF parts(6) assms(2,3,5)] parts(3,4,5)
    by (simp add: wfx_def inst_of_def)
qed

lemma wfx_delete_other:
  assumes "wfx (insert s D) w" "w_sock w s = Some so" "\<not> is_local so"
  shows "wfx D (w\<lparr>device_tracker_list := remove1 s (device_tracker_list w), w_sock := (w_sock w)(s := None)\<rparr>)"
  using wfx_parts [OF assms(1)] socks_ok_del [of s D "w_sock w" "inst_of w"] lists_ok_other [of "w_sock w", OF _ assms(2,3)]
    owners_ok_other [of "inst_of w" "w_sock w" "listener_list w" s None] assms(2,3)
  by (simp add: wfx_def inst_of_def)

lemma not_tracker:
  assumes "wfx D w" "w_sock w s = Some so" "so_close so \<noteq> CloseTracker"
  shows "remove1 s (device_tracker_list w) = device_tracker_list w"
  using wfx_parts(2) [OF assms(1)] assms(2,3) by (auto simp: lists_ok_def remove1_idem)

lemma same_but_refl [simp]: "same_but S w w"
  by (simp add: same_but_def)

lemma same_but_trans: "same_but S w w' \<Longrightarrow> same_but S' w' w'' \<Longrightarrow> same_but (S \<union> S') w w''"
  by (auto simp: same_but_def dest: same_rest_trans)

lemma same_but_mono: "same_but S w w' \<Longrightarrow> S \<subseteq> S' \<Longrightarrow> same_but S' w w'"
  by (auto simp: same_but_def)

lemma same_but_upd: "same_but {s} w (w\<lparr>w_sock := (w_sock w)(s := v)\<rparr>)"
  by (simp add: same_but_def same_rest_def)

lemma quiet_same_but: "quiet w w' \<Longrightarrow> same_but S w w'"
  by (simp add: quiet_def same_but_def)

lemma okA_do_close:
  "w_sock w s = Some so \<Longrightarrow> okA E (do_close (Suc n) s) w Q \<longleftrightarrow>
     okA E (case so_close so of
         CloseLocal \<Rightarrow> local_socket_close (do_close n) s
       | CloseNotify \<Rightarrow> local_socket_close_notify (do_close n) s
       | CloseRemote \<Rightarrow> remote_socket_close (do_close n) s
       | CloseSmart \<Rightarrow> smart_socket_close (do_close n) s
       | CloseTracker \<Rightarrow> device_tracker_close (do_close n) s) w Q"
  by (subst do_close.simps) (simp add: wp)

lemma okA_close_local_solo:
  assumes "wfx (insert s D) w" "w_sock w s = Some so" "so_peer so = None" "so_close so = CloseLocal"
  shows "okA E (do_close (Suc n) s) w (\<lambda>_ w'. wfx D w' \<and> same_but {s} w w' \<and> gone (w_sock w' s))"
  using okA_finish [OF assms(1,2) _ assms(3)] assms(2-4)
  by (simp add: okA_do_close local_socket_close_def wp is_local_def)

lemma okA_close_notify_solo:
  assumes "wfx (insert s D) w" "w_sock w s = Some so" "so_peer so = None" "so_close so = CloseNotify"
  shows "okA E (do_close (Suc (Suc n)) s) w (\<lambda>_ w'. wfx D w' \<and> same_but {s} w w' \<and> gone (w_sock w' s))"
proof -
  let ?so = "so\<lparr>so_ready := ReadyLocal, so_shutdown := None, so_close := CloseLocal\<rparr>"
  let ?w = "w\<lparr>w_sock := (w_sock w)(s \<mapsto> ?so)\<rparr>"
  have loc: "is_local so" "is_local ?so" using assms(4) by (simp_all add: is_local_def)
  have "local_ok True (inst_of w) s so"
    using socks_okD(1) [OF wfx_parts(1) [OF assms(1)] assms(2)] loc(1) by (simp add: shape_local)
  then have "shape_ok (inst_of w) s ?so" by (simp add: shape_local [OF loc(2)] local_ok_def)
  then have wfx: "wfx (insert s D) ?w"
    using socks_okD(4) [OF wfx_parts(1) [OF assms(1)] assms(2)] loc
    by (intro wfx_upd_self [OF assms(1,2)]) auto
  have "okA E (do_close (Suc n) s) w' (\<lambda>_ w''. wfx D w'' \<and> same_but {s} w w'' \<and> gone (w_sock w'' s))"
    if q: "quiet ?w w'" for w'
  proof -
    have "wfx (insert s D) w'" "w_sock w' s = Some ?so" using q wfx by (simp_all add: quiet_wfx quiet_sock)
    from okA_close_local_solo [OF this] assms(3) have
      "okA E (do_close (Suc n) s) w' (\<lambda>_ w''. wfx D w'' \<and> same_but {s} w' w'' \<and> gone (w_sock w'' s))"
      by simp
    moreover have "same_but {s} w w'"
      using same_but_trans [OF same_but_upd quiet_same_but [OF q, of "{}"]] by simp
    ultimately show ?thesis by (auto elim!: okA_mono dest: same_but_trans)
  qed
  then have "okA E (thenA (SendFailA (so_fd so) ''closed'') (do_close (Suc n) s)) ?w
      (\<lambda>_ w''. wfx D w'' \<and> same_but {s} w w'' \<and> gone (w_sock w'' s))"
    unfolding wp_then by (intro okA_mono [OF okA_SendFail]) (simp)
  then show ?thesis using assms(2,4)
    by (subst do_close.simps(2)) (simp add: local_socket_close_notify_def wp)
qed

lemma okA_close_solo:
  assumes "wfx (insert s D) w" "w_sock w s = Some so" "so_peer so = None"
  shows "okA E (do_close (Suc (Suc n)) s) w (\<lambda>_ w'. wfx D w' \<and> same_but {s} w w' \<and> gone (w_sock w' s))"
proof (cases "so_close so")
  case CloseLocal
  with okA_close_local_solo [OF assms] show ?thesis .
next
  case CloseNotify
  with okA_close_notify_solo [OF assms] show ?thesis .
next
  case CloseRemote
  then have "\<not> is_local so" by (simp add: is_local_def)
  from wfx_delete_other [OF assms(1,2) this] CloseRemote not_tracker [OF assms(1,2)] assms show ?thesis
    by (simp add: okA_do_close remote_socket_close_def close_peer_def wp same_but_def same_rest_def gone_def)
next
  case CloseSmart
  then have "\<not> is_local so" by (simp add: is_local_def)
  from wfx_delete_other [OF assms(1,2) this] CloseSmart not_tracker [OF assms(1,2)] assms show ?thesis
    by (simp add: okA_do_close smart_socket_close_def close_peer_def wp same_but_def same_rest_def gone_def)
next
  case CloseTracker
  then have "\<not> is_local so" by (simp add: is_local_def)
  from wfx_delete_other [OF assms(1,2) this] CloseTracker assms show ?thesis
    by (simp add: okA_do_close device_tracker_close_def device_tracker_remove_def close_peer_def wp same_but_def same_rest_def
        gone_def)
qed


subsection \<open>Closing a socket and its peer\<close>

lemma shape_ok_peer [simp]: "shape_ok inst x (xo\<lparr>so_peer := v\<rparr>) \<longleftrightarrow> shape_ok inst x xo"
  by (cases "so_close xo") (simp_all add: shape_ok_def local_ok_def)

lemma is_local_peer [simp]: "is_local (so\<lparr>so_peer := v\<rparr>) \<longleftrightarrow> is_local so"
  by (simp add: is_local_def)

lemma world_peer:
  assumes "world_ok w" "w_sock w s = Some so" "so_peer so = Some p"
  obtains po where "w_sock w p = Some po" "so_peer po = Some s" "is_local so \<or> is_local po" "p \<noteq> s" "\<not> so_closing so"
  using socks_okD(2) [OF wfx_parts(1) [of "{}" w] assms(2)] assms that
  by (auto simp: world_ok_def peer_ok_def)

lemma wfx_alone:
  assumes "world_ok w" "w_sock w s = Some so" "so_peer so = None"
  shows "wfx {s} w"
proof -
  have "peer_ok {s} (w_sock w) x xo" if "w_sock w x = Some xo" "x \<noteq> s" for x xo
    using socks_okD(2) [OF wfx_parts(1) [of "{}" w] that(1)] assms that
    by (auto simp: world_ok_def peer_ok_def split: option.splits)
  with assms(1) show ?thesis unfolding world_ok_def wfx_def socks_ok_def by auto
qed

lemma wfx_detached:
  assumes "world_ok w" "w_sock w s = Some so" "so_peer so = Some p" "w_sock w p = Some po"
  shows "wfx {p, s} (w\<lparr>w_sock := (w_sock w)(p \<mapsto> po\<lparr>so_peer := None\<rparr>)\<rparr>)"
proof -
  have po: "so_peer po = Some s" using world_peer [OF assms(1-3)] assms(4) by auto
  have peers: "peer_ok {p, s} ((w_sock w)(p \<mapsto> po\<lparr>so_peer := None\<rparr>)) x xo" if "w_sock w x = Some xo" "x \<noteq> s" "x \<noteq> p" for x xo
    using socks_okD(2) [OF wfx_parts(1) [of "{}" w] that(1)] assms that po
    by (auto simp: world_ok_def peer_ok_def split: option.splits)
  note parts = wfx_parts [OF assms(1) [unfolded world_ok_def]]
  have "socks_ok {p, s} ((w_sock w)(p \<mapsto> po\<lparr>so_peer := None\<rparr>)) (inst_of w) (dom (w_transport w)) (w_next_sock w)"
    using parts(1) assms(4) peers unfolding socks_ok_def by (auto split: if_splits)
  moreover have "lists_ok ((w_sock w)(p \<mapsto> po\<lparr>so_peer := None\<rparr>)) (local_socket_list w)
      (local_socket_closing_list w) (device_tracker_list w)"
    by (rule lists_ok_same [OF parts(2) assms(4)]) simp_all
  moreover have "owners_ok (inst_of w) ((w_sock w)(p \<mapsto> po\<lparr>so_peer := None\<rparr>)) (listener_list w)"
    by (rule owners_ok_upd [OF parts(6) assms(4)]) (use socks_okD(1) [OF parts(1) assms(4)] in simp_all)
  ultimately show ?thesis using parts(3,4,5) by (simp add: wfx_def inst_of_def)
qed

lemma okA_shutdown:
  assumes "world_ok w" "w_sock w s = Some so"
  shows "okA E (do_shutdown s) w (\<lambda>_ w'. quiet w w')"
proof (cases "so_shutdown so")
  case None
  with assms(2) show ?thesis by (simp add: do_shutdown_def wp)
next
  case (Some f)
  note sk = wfx_parts(1) [OF assms(1) [unfolded world_ok_def]]
  have "so_close so = CloseRemote"
    using socks_okD(1) [OF sk assms(2)] Some by (auto simp: shape_ok_def local_ok_def split: close_fn.splits)
  then obtain t where t: "so_transport so = Some t" "w_transport w t \<noteq> None"
    using socks_okD(1,4) [OF sk assms(2)] by (auto simp: shape_ok_def)
  obtain f where "so_shutdown so = Some ShutdownRemote" using Some by (cases f) auto
  with assms(2) t okA_send_packet [of w t] show ?thesis
    by (cases "so_peer so")
      (auto simp: do_shutdown_def remote_socket_shutdown_def wp elim!: world_peer [OF assms])
qed

text \<open>Detaching the peer and closing it leaves the socket itself to be finished.\<close>

lemma okA_drop_peer:
  assumes "world_ok w" "w_sock w s = Some so" "so_peer so = Some p" "w_sock w p = Some po"
  shows "okA E (do_close (Suc (Suc n)) p) (w\<lparr>w_sock := (w_sock w)(p \<mapsto> po\<lparr>so_peer := None\<rparr>)\<rparr>)
    (\<lambda>_ w'. wfx {s} w' \<and> same_but {p} w w' \<and> gone (w_sock w' p) \<and> w_sock w' s = Some so)"
proof -
  have ne: "p \<noteq> s" using world_peer [OF assms(1-3)] by metis
  let ?w = "w\<lparr>w_sock := (w_sock w)(p \<mapsto> po\<lparr>so_peer := None\<rparr>)\<rparr>"
  have "w_sock ?w p = Some (po\<lparr>so_peer := None\<rparr>)" by simp
  from okA_close_solo [OF wfx_detached [OF assms] this]
  have "okA E (do_close (Suc (Suc n)) p) ?w (\<lambda>_ w'. wfx {s} w' \<and> same_but {p} ?w w' \<and> gone (w_sock w' p))"
    by simp
  then show ?thesis
    by (rule okA_mono) (use ne assms(2) in \<open>auto simp: same_but_def same_rest_def\<close>)
qed

definition peer_set :: "asocket \<Rightarrow> nat set" where
  "peer_set so = (case so_peer so of None \<Rightarrow> {} | Some p \<Rightarrow> {p})"

definition closed :: "nat \<Rightarrow> asocket \<Rightarrow> world \<Rightarrow> world \<Rightarrow> bool" where
  "closed s so w w' \<longleftrightarrow> world_ok w' \<and> same_but (insert s (peer_set so)) w w' \<and>
     (\<forall>x \<in> insert s (peer_set so). gone (w_sock w' x))"

lemma closedI:
  assumes "wfx {} w'" "same_but {p} w w1" "same_but {s} w1 w'" "gone (w_sock w1 p)" "gone (w_sock w' s)"
    and "so_peer so = Some p" "p \<noteq> s"
  shows "closed s so w w'"
proof -
  have "w_sock w' p = w_sock w1 p" using assms(3,7) by (simp add: same_but_def)
  with same_but_trans [OF assms(2,3)] assms show ?thesis
    by (simp add: closed_def world_ok_def peer_set_def insert_commute)
qed

lemma okA_close_other:
  assumes "world_ok w" "w_sock w s = Some so" "so_peer so = Some p" "\<not> is_local so"
  shows "okA E (do_close (Suc (Suc (Suc n))) s) w (\<lambda>_ w'. closed s so w w')"
proof -
  obtain po where po: "w_sock w p = Some po" "p \<noteq> s" using world_peer [OF assms(1-3)] by metis
  note drop = okA_drop_peer [OF assms(1-3) po(1), of E n]
  have fin: "closed s so w (w1\<lparr>device_tracker_list := remove1 s (device_tracker_list w1), w_sock := (w_sock w1)(s := None)\<rparr>)"
    if "wfx {s} w1" "same_but {p} w w1" "gone (w_sock w1 p)" "w_sock w1 s = Some so" for w1
    using that wfx_delete_other [of s "{}" w1 so] assms(3,4) po
    by (intro closedI [of _ p w w1]) (auto simp: same_but_def same_rest_def gone_def)
  have fin': "closed s so w (w1\<lparr>w_sock := (w_sock w1)(s := None)\<rparr>)"
    if "wfx {s} w1" "same_but {p} w w1" "gone (w_sock w1 p)" "w_sock w1 s = Some so" "so_close so \<noteq> CloseTracker" for w1
    using fin [OF that(1-4)] not_tracker [OF that(1,4,5)] by simp
  show ?thesis
  proof (cases "so_close so")
    case CloseRemote
    have "okA E (remote_socket_close (do_close (Suc (Suc n))) s) w (\<lambda>_ w'. closed s so w w')"
      unfolding remote_socket_close_def close_peer_def wp assms(2) option.case assms(3) po(1)
      by (rule okA_mono [OF drop]) (use CloseRemote fin' in \<open>auto simp: wp\<close>)
    with CloseRemote show ?thesis by (simp only: okA_do_close [OF assms(2)] close_fn.case)
  next
    case CloseSmart
    have clr: "closed s so w (w1\<lparr>w_sock := (w_sock w1)(s := None)\<rparr>)"
      if "wfx {s} w1 \<and> same_but {p} w w1 \<and> gone (w_sock w1 p) \<and> w_sock w1 s = Some so" for w1
      using that fin' CloseSmart by simp
    have "okA E (smart_socket_close (do_close (Suc (Suc n))) s) w (\<lambda>_ w'. closed s so w w')"
      unfolding smart_socket_close_def close_peer_def wp assms(2) option.case assms(3) po(1)
      by (rule okA_mono [OF drop]) (use clr in \<open>auto simp: wp\<close>)
    with CloseSmart show ?thesis by (simp only: okA_do_close [OF assms(2)] close_fn.case)
  next
    case CloseTracker
    have "okA E (device_tracker_close (do_close (Suc (Suc n))) s) w (\<lambda>_ w'. closed s so w w')"
      unfolding device_tracker_close_def device_tracker_remove_def close_peer_def wp assms(2) option.case assms(3) po(1)
      by (rule okA_mono [OF drop]) (use fin in \<open>auto simp: wp\<close>)
    with CloseTracker show ?thesis by (simp only: okA_do_close [OF assms(2)] close_fn.case)
  qed (use assms(4) in \<open>simp_all add: is_local_def\<close>)
qed


lemma okA_unlink_finish:
  assumes "wfx {s} w1 \<and> same_but {p} w w1 \<and> gone (w_sock w1 p) \<and> w_sock w1 s = Some so"
    and "so_peer so = Some p" "p \<noteq> s" "is_local so"
  shows "okA E (mod_sock s (\<lambda>so. so\<lparr>so_peer := None\<rparr>)) w1
    (\<lambda>_ w'. okA E (local_socket_finish s) w' (\<lambda>_ w'. closed s so w w'))"
proof -
  let ?w = "w1\<lparr>w_sock := (w_sock w1)(s \<mapsto> so\<lparr>so_peer := None\<rparr>)\<rparr>"
  have w1: "wfx {s} w1" "same_but {p} w w1" "gone (w_sock w1 p)" "w_sock w1 s = Some so" using assms(1) by auto
  note sk = socks_okD [OF wfx_parts(1) [OF w1(1)] w1(4)]
  have "wfx {s} ?w" by (rule wfx_upd_self [OF w1(1,4)]) (use sk(1,4) in simp_all)
  from okA_finish [OF this] assms(4) have
    "okA E (local_socket_finish s) ?w (\<lambda>_ w'. wfx {} w' \<and> same_but {s} ?w w' \<and> gone (w_sock w' s))"
    by simp
  then have "okA E (local_socket_finish s) ?w (\<lambda>_ w'. closed s so w w')"
  proof (rule okA_mono)
    fix u :: unit and w'
    assume w': "wfx {} w' \<and> same_but {s} ?w w' \<and> gone (w_sock w' s)"
    then have "same_but {s} w1 w'" using same_but_trans [OF same_but_upd] by fastforce
    with w1 w' assms(2,3) show "closed s so w w'" by (intro closedI) auto
  qed
  then show ?thesis using w1(4) by (simp add: wp)
qed

lemma okA_close_local:
  assumes "world_ok w" "w_sock w s = Some so" "so_peer so = Some p" "so_close so = CloseLocal"
  shows "okA E (do_close (Suc (Suc (Suc n))) s) w (\<lambda>_ w'. closed s so w w')"
proof -
  obtain po where po: "w_sock w p = Some po" "p \<noteq> s" using world_peer [OF assms(1-3)] by metis
  have loc: "is_local so" using assms(4) by (simp add: is_local_def)
  have rest: "okA E (do_close (Suc (Suc n)) p) (w0\<lparr>w_sock := (w_sock w0)(p \<mapsto> po\<lparr>so_peer := None\<rparr>)\<rparr>)
      (\<lambda>_ w'. okA E (mod_sock s (\<lambda>so. so\<lparr>so_peer := None\<rparr>)) w'
        (\<lambda>_ w'. okA E (local_socket_finish s) w' (\<lambda>_ w'. closed s so w w')))"
    if q: "quiet w w0" for w0
  proof -
    have w0: "world_ok w0" "w_sock w0 s = Some so" "w_sock w0 p = Some po"
      using q assms(1,2) po by (simp_all add: world_ok_def quiet_wfx quiet_sock)
    have "same_but {p} w w1" if "same_but {p} w0 w1" for w1
      using that same_but_trans [OF quiet_same_but [OF q, of "{}"]] by fastforce
    then show ?thesis
      by (intro okA_mono [OF okA_drop_peer [OF w0(1,2) assms(3) w0(3)]])
        (rule okA_unlink_finish, use assms(3) po(2) loc in auto)
  qed
  have "okA E (local_socket_close (do_close (Suc (Suc n))) s) w (\<lambda>_ w'. closed s so w w')"
    unfolding local_socket_close_def wp assms(2) option.case assms(3)
    by (rule okA_mono [OF okA_shutdown [OF assms(1) po(1)]]) (use rest [unfolded wp_mod_sock] po in \<open>simp add: quiet_sock\<close>)
  then show ?thesis by (simp only: okA_do_close [OF assms(2)] assms(4) close_fn.case)
qed

text \<open>A change of a local socket that keeps its peer.\<close>

lemma world_ok_upd:
  assumes "world_ok w" "w_sock w s = Some so" "shape_ok (inst_of w) s so'"
    and "so_peer so' = so_peer so" "so_closing so' = so_closing so"
    and "so_close so' = so_close so \<or> is_local so \<and> is_local so'"
    and "\<And>t. so_transport so' = Some t \<Longrightarrow> t \<in> dom (w_transport w)"
    and "\<And>p po. so_peer so = Some p \<Longrightarrow> w_sock w p = Some po \<Longrightarrow> so_close po = CloseSmart \<Longrightarrow>
      so_transport so' = None \<or> so_transport so' = so_transport so"
  shows "world_ok (w\<lparr>w_sock := (w_sock w)(s \<mapsto> so')\<rparr>)"
proof -
  note parts = wfx_parts [OF assms(1) [unfolded world_ok_def]]
  have loc: "is_local so' \<longleftrightarrow> is_local so" "so_close so' = CloseSmart \<longleftrightarrow> so_close so = CloseSmart"
    using assms(6) by (auto simp: is_local_def)
  have "peer_ok {} ((w_sock w)(s \<mapsto> so')) x (if x = s then so' else xo)" if "w_sock w x = Some xo" for x xo
    using socks_okD(2) [OF parts(1) that] that assms(2,4,5,8) loc
    by (fastforce simp: peer_ok_def split: option.splits)
  with parts(1) assms(2,3,7) have "socks_ok {} ((w_sock w)(s \<mapsto> so')) (inst_of w) (dom (w_transport w)) (w_next_sock w)"
    unfolding socks_ok_def by (fastforce split: if_splits)
  then show ?thesis using lists_ok_same [OF parts(2) assms(2,6,5)] owners_ok_upd [OF parts(6) assms(2,3,6)] parts(3,4,5)
    by (simp add: world_ok_def wfx_def inst_of_def)
qed

lemma plain_local:
  assumes "world_ok w" "w_sock w s = Some so" "is_local so"
  shows "world_ok (w\<lparr>w_sock := (w_sock w)(s \<mapsto> so\<lparr>so_ready := ReadyLocal, so_shutdown := None, so_close := CloseLocal\<rparr>)\<rparr>)"
proof -
  note sk = socks_okD [OF wfx_parts(1) [OF assms(1) [unfolded world_ok_def]] assms(2)]
  have loc: "is_local (so\<lparr>so_ready := ReadyLocal, so_shutdown := None, so_close := CloseLocal\<rparr>)"
    by (simp add: is_local_def)
  show ?thesis
    by (rule world_ok_upd [OF assms(1,2)])
      (use sk assms(3) loc in \<open>simp_all add: shape_local, simp add: local_ok_def\<close>)
qed


lemma okA_close_notify:
  assumes "world_ok w" "w_sock w s = Some so" "so_peer so = Some p" "so_close so = CloseNotify"
  shows "okA E (do_close (Suc (Suc (Suc (Suc n)))) s) w (\<lambda>_ w'. closed s so w w')"
proof -
  let ?so = "so\<lparr>so_ready := ReadyLocal, so_shutdown := None, so_close := CloseLocal\<rparr>"
  let ?w = "w\<lparr>w_sock := (w_sock w)(s \<mapsto> ?so)\<rparr>"
  have ok: "world_ok ?w" using plain_local [OF assms(1,2)] assms(4) by (simp add: is_local_def)
  have "okA E (do_close (Suc (Suc (Suc n))) s) w1 (\<lambda>_ w'. closed s so w w')" if q: "quiet ?w w1" for w1
  proof -
    have w1: "world_ok w1" "w_sock w1 s = Some ?so"
      using q ok by (simp_all add: world_ok_def quiet_wfx quiet_sock)
    have "same_but {s} w w1" using same_but_trans [OF same_but_upd quiet_same_but [OF q, of "{}"]] by simp
    then have "closed s so w w'" if "closed s ?so w1 w'" for w'
      using that same_but_trans [of "{s}" w w1 "insert s (peer_set so)" w'] by (simp add: closed_def peer_set_def)
    with okA_close_local [OF w1] assms(3) show ?thesis by (fastforce elim!: okA_mono)
  qed
  then have "okA E (local_socket_close_notify (do_close (Suc (Suc (Suc n)))) s) w (\<lambda>_ w'. closed s so w w')"
    unfolding local_socket_close_notify_def wp assms(2) option.case
    by (simp) (rule okA_mono [OF okA_SendFail], simp)
  then show ?thesis by (simp only: okA_do_close [OF assms(2)] assms(4) close_fn.case)
qed

lemma okA_sock_close:
  assumes "world_ok w" "w_sock w s = Some so"
  shows "okA E (sock_close s) w (\<lambda>_ w'. closed s so w w')"
proof -
  have depth: "close_depth = Suc (Suc (Suc (Suc 0)))" by (simp add: close_depth_def)
  show ?thesis
  proof (cases "so_peer so")
    case None
    show ?thesis unfolding sock_close_def depth
      by (rule okA_mono [OF okA_close_solo [OF wfx_alone [OF assms None] assms(2) None]])
        (simp add: closed_def world_ok_def peer_set_def None)
  next
    case (Some p)
    show ?thesis
    proof (cases "is_local so")
      case False
      then show ?thesis unfolding sock_close_def depth by (rule okA_close_other [OF assms Some])
    next
      case True
      then show ?thesis
        unfolding sock_close_def depth is_local_def
        using okA_close_local [OF assms Some] okA_close_notify [OF assms Some] by blast
    qed
  qed
qed


subsection \<open>Closing everything on a transport\<close>

text \<open>Neither the socket nor its peer is bound to the transport.\<close>

definition clear_of :: "nat \<Rightarrow> world \<Rightarrow> asocket \<Rightarrow> bool" where
  "clear_of t w so \<longleftrightarrow> so_transport so \<noteq> Some t \<and>
     (\<forall>p po. so_peer so = Some p \<longrightarrow> w_sock w p = Some po \<longrightarrow> so_transport po \<noteq> Some t)"

lemma world_lists:
  assumes "world_ok w"
  shows "distinct (local_socket_list w)"
    "s \<in> set (local_socket_list w) \<longleftrightarrow> (\<exists>so. w_sock w s = Some so \<and> is_local so \<and> \<not> so_closing so)"
  using wfx_parts(2) [OF assms [unfolded world_ok_def]] by (simp_all add: lists_ok_def)

lemma okA_first_on_transport:
  assumes "world_ok w" "set ss \<subseteq> set (local_socket_list w)"
  shows "okA E (first_on_transport t ss) w (\<lambda>r w'. w' = w \<and>
    (case r of
       None \<Rightarrow> \<forall>s\<in>set ss. \<forall>so. w_sock w s = Some so \<longrightarrow> clear_of t w so
     | Some s \<Rightarrow> s \<in> set ss \<and> (\<forall>so. w_sock w s = Some so \<longrightarrow> \<not> clear_of t w so)))"
  using assms(2)
proof (induction ss)
  case (Cons s ss)
  then obtain so where so: "w_sock w s = Some so" using world_lists(2) [OF assms(1)] by auto
  have "okA E (on_transport t s) w (\<lambda>b w'. w' = w \<and> b = (\<not> clear_of t w so))"
  proof (cases "so_peer so")
    case (Some p)
    then obtain po where "w_sock w p = Some po" using world_peer [OF assms(1) so] by metis
    with so Some show ?thesis by (simp add: on_transport_def wp clear_of_def)
  qed (use so in \<open>simp add: on_transport_def wp clear_of_def\<close>)
  then have "okA E (on_transport t s) w (\<lambda>b w'. okA E (if b then retA (Some s) else first_on_transport t ss) w'
      (\<lambda>r w'. w' = w \<and> (case r of
         None \<Rightarrow> \<forall>s\<in>set (s # ss). \<forall>so. w_sock w s = Some so \<longrightarrow> clear_of t w so
       | Some s' \<Rightarrow> s' \<in> set (s # ss) \<and> (\<forall>so. w_sock w s' = Some so \<longrightarrow> \<not> clear_of t w so))))"
  proof (rule okA_mono)
    fix b w'
    assume b: "w' = w \<and> b = (\<not> clear_of t w so)"
    show "okA E (if b then retA (Some s) else first_on_transport t ss) w'
      (\<lambda>r w'. w' = w \<and> (case r of
         None \<Rightarrow> \<forall>s\<in>set (s # ss). \<forall>so. w_sock w s = Some so \<longrightarrow> clear_of t w so
       | Some s' \<Rightarrow> s' \<in> set (s # ss) \<and> (\<forall>so. w_sock w s' = Some so \<longrightarrow> \<not> clear_of t w so)))"
      using b so Cons by (auto simp: wp elim!: okA_mono split: option.splits)
  qed
  then show ?case by (simp add: wp)
qed (simp add: wp)

text \<open>What closing sockets on a transport does to the others.\<close>

definition others_kept :: "nat \<Rightarrow> world \<Rightarrow> world \<Rightarrow> bool" where
  "others_kept t w w' \<longleftrightarrow> same_rest w w' \<and>
     (\<forall>x xo. w_sock w x = Some xo \<longrightarrow> clear_of t w xo \<longrightarrow> w_sock w' x = Some xo \<and> clear_of t w' xo)"

lemma others_kept_trans: "others_kept t w w' \<Longrightarrow> others_kept t w' w'' \<Longrightarrow> others_kept t w w''"
  unfolding others_kept_def using same_rest_trans by blast

lemma closed_others_kept:
  assumes "world_ok w" "w_sock w s = Some so" "\<not> clear_of t w so" "closed s so w w'"
  shows "others_kept t w w'"
proof -
  have other: "x \<notin> insert s (peer_set so)" if x: "w_sock w x = Some xo" "clear_of t w xo" for x xo
  proof
    assume "x \<in> insert s (peer_set so)"
    then consider "x = s" | "so_peer so = Some x" by (auto simp: peer_set_def split: option.splits)
    then show False
    proof cases
      case 1
      with x assms(2,3) show False by simp
    next
      case 2
      then have "so_peer xo = Some s" using world_peer [OF assms(1,2) 2] x(1) by auto
      with x assms(2,3) 2 show False by (auto simp: clear_of_def)
    qed
  qed
  have keep: "w_sock w' x = Some xo" if "w_sock w x = Some xo" "clear_of t w xo" for x xo
    using other [OF that] assms(4) that(1) by (simp add: closed_def same_but_def)
  have "clear_of t w' xo" if x: "w_sock w x = Some xo" "clear_of t w xo" for x xo
  proof (cases "so_peer xo")
    case (Some p)
    then obtain po where po: "w_sock w p = Some po" "so_peer po = Some x" using world_peer [OF assms(1) x(1)] by metis
    with x Some have "clear_of t w po" by (auto simp: clear_of_def)
    with keep [OF po(1)] x Some po show ?thesis by (auto simp: clear_of_def)
  qed (use x in \<open>simp add: clear_of_def\<close>)
  with keep assms(4) show ?thesis by (auto simp: others_kept_def closed_def same_but_def)
qed

lemma closed_shortens:
  assumes "world_ok w" "closed s so w w'" "s \<in> set (local_socket_list w)"
  shows "length (local_socket_list w') < length (local_socket_list w)"
proof -
  have ok': "world_ok w'" using assms(2) by (simp add: closed_def)
  have "x \<in> set (local_socket_list w) - {s}" if x: "x \<in> set (local_socket_list w')" for x
  proof -
    obtain xo where xo: "w_sock w' x = Some xo" "is_local xo" "\<not> so_closing xo"
      using x world_lists(2) [OF ok'] by auto
    then have "x \<notin> insert s (peer_set so)" using assms(2) by (auto simp: closed_def gone_def)
    with xo assms(2) show ?thesis using world_lists(2) [OF assms(1)] by (auto simp: closed_def same_but_def)
  qed
  then have "set (local_socket_list w') \<subset> set (local_socket_list w)" using assms(3) by blast
  then show ?thesis using world_lists(1) [OF assms(1)] world_lists(1) [OF ok']
    by (metis List.finite_set distinct_card psubset_card_mono)
qed

lemma okA_close_all_loop:
  "world_ok w \<Longrightarrow> length (local_socket_list w) < n \<Longrightarrow>
   okA E (close_all_loop n t) w (\<lambda>_ w'. world_ok w' \<and> others_kept t w w' \<and>
     (\<forall>s\<in>set (local_socket_list w'). \<forall>so. w_sock w' s = Some so \<longrightarrow> clear_of t w' so))"
proof (induction n arbitrary: w)
  case (Suc n)
  show ?case
    unfolding close_all_loop.simps wp
  proof (rule okA_mono [OF okA_first_on_transport [OF Suc.prems(1) subset_refl]], goal_cases)
    case (1 r w')
    then have w': "w' = w" by simp
    show ?case
    proof (cases r)
      case None
      with 1 Suc.prems show ?thesis by (simp add: wp others_kept_def)
    next
      case (Some s)
      with 1 obtain so where so: "w_sock w s = Some so" "\<not> clear_of t w so" and s: "s \<in> set (local_socket_list w)"
        using world_lists(2) [OF Suc.prems(1)] by auto
      have "okA E (close_all_loop n t) w1 (\<lambda>_ w'. world_ok w' \<and> others_kept t w w' \<and>
          (\<forall>s\<in>set (local_socket_list w'). \<forall>so. w_sock w' s = Some so \<longrightarrow> clear_of t w' so))"
        if c: "closed s so w w1" for w1
      proof -
        have "length (local_socket_list w1) < n"
          using closed_shortens [OF Suc.prems(1) c s] Suc.prems(2) by simp
        moreover have "world_ok w1" using c by (simp add: closed_def)
        ultimately show ?thesis
          using Suc.IH [of w1] closed_others_kept [OF Suc.prems(1) so c] others_kept_trans
          by (fastforce elim!: okA_mono)
      qed
      then show ?thesis using Some w'
        by (simp add: wp) (rule okA_mono [OF okA_sock_close [OF Suc.prems(1) so(1)]], simp)
    qed
  qed
qed simp

lemma okA_close_all_sockets:
  assumes "world_ok w"
  shows "okA E (close_all_sockets t) w (\<lambda>_ w'. world_ok w' \<and> others_kept t w w' \<and>
    (\<forall>s\<in>set (local_socket_list w'). \<forall>so. w_sock w' s = Some so \<longrightarrow> clear_of t w' so))"
  unfolding close_all_sockets_def wp by (rule okA_close_all_loop [OF assms]) simp


subsection \<open>Writing to the descriptor\<close>

text \<open>A local socket whose queue has just changed: all is well but for the event that waits to write it.\<close>

definition no_queue :: "nat \<Rightarrow> asocket \<Rightarrow> world \<Rightarrow> world" where
  "no_queue s so w = w\<lparr>w_sock := (w_sock w)(s \<mapsto> so\<lparr>so_packet_queue := empty_iov\<rparr>)\<rparr>"

definition unsettled :: "nat \<Rightarrow> asocket \<Rightarrow> world \<Rightarrow> bool" where
  "unsettled s so w \<longleftrightarrow> w_sock w s = Some so \<and> is_local so \<and> iov_inv (so_packet_queue so) \<and> world_ok (no_queue s so w)"

lemma is_local_queue [simp]: "is_local (so\<lparr>so_packet_queue := q\<rparr>) \<longleftrightarrow> is_local so"
  "is_local (so\<lparr>so_has_write_error := b\<rparr>) \<longleftrightarrow> is_local so"
  by (simp_all add: is_local_def)

lemma iov_empty_empty [simp]: "iov_empty empty_iov"
  by (simp add: iov_empty_bytes)

lemma world_local:
  assumes "world_ok w" "w_sock w s = Some so" "is_local so"
  shows "local_ok True (inst_of w) s so"
  using socks_okD(1) [OF wfx_parts(1) [OF assms(1) [unfolded world_ok_def]] assms(2)] assms(3)
  by (simp add: shape_local)

lemma world_ok_unsettled:
  assumes "world_ok w" "w_sock w s = Some so" "is_local so" "iov_inv q"
  shows "unsettled s (so\<lparr>so_packet_queue := q\<rparr>) (w\<lparr>w_sock := (w_sock w)(s \<mapsto> so\<lparr>so_packet_queue := q\<rparr>)\<rparr>)"
proof -
  note sk = socks_okD [OF wfx_parts(1) [OF assms(1) [unfolded world_ok_def]] assms(2)]
  have "world_ok (w\<lparr>w_sock := (w_sock w)(s \<mapsto> so\<lparr>so_packet_queue := empty_iov\<rparr>)\<rparr>)"
    by (rule world_ok_upd [OF assms(1,2)])
      (use sk(4) assms(3) world_local [OF assms(1-3)] in \<open>simp_all add: shape_local, auto simp: local_ok_def\<close>)
  then show ?thesis using assms by (simp add: unsettled_def no_queue_def)
qed

lemma inst_no_queue [simp]: "inst_of (no_queue s so w) = inst_of w"
  by (simp add: inst_of_def no_queue_def)

lemma unsettled_local:
  assumes "unsettled s so w"
  shows "local_ok False (inst_of w) s so"
proof -
  have "local_ok True (inst_of w) s (so\<lparr>so_packet_queue := empty_iov\<rparr>)"
    using world_local [of "no_queue s so w" s] assms by (simp add: unsettled_def no_queue_def inst_of_def)
  then show ?thesis using assms by (simp add: local_ok_def unsettled_def)
qed

text \<open>Putting the queue back, with the event's state it needs.\<close>

lemma unsettled_settle:
  assumes "unsettled s so w" "local_ok True (inst_of w) s so"
  shows "world_ok w"
proof -
  let ?w = "no_queue s so w"
  have s: "w_sock ?w s = Some (so\<lparr>so_packet_queue := empty_iov\<rparr>)" by (simp add: no_queue_def)
  have ok: "world_ok ?w" and loc: "is_local so" and so: "w_sock w s = Some so" using assms(1) by (simp_all add: unsettled_def)
  have "w = ?w\<lparr>w_sock := (w_sock ?w)(s \<mapsto> so)\<rparr>" using so by (simp add: no_queue_def fun_upd_idem)
  moreover have "world_ok (?w\<lparr>w_sock := (w_sock ?w)(s \<mapsto> so)\<rparr>)"
    by (rule world_ok_upd [OF ok s])
      (use socks_okD(4) [OF wfx_parts(1) [OF ok [unfolded world_ok_def]] s] loc assms(2) in \<open>simp_all add: shape_local\<close>)
  ultimately show ?thesis by simp
qed

text \<open>Changing the state of a local socket's event.\<close>

lemma world_ok_context:
  assumes "world_ok w" "w_sock w s = Some so" "is_local so" "so_fde so = Some fd" "inst_of w fd = Some e"
    and "context_ok c" "map_of (installed_fdevents c) = (inst_of w)(fd \<mapsto> e\<lparr>fde_state := S\<rparr>)"
    and "\<not> iov_empty (so_packet_queue so) \<Longrightarrow> \<not> so_has_write_error so \<Longrightarrow> FDE_WRITE \<in> S"
  shows "world_ok (w\<lparr>w_context := c\<rparr>)"
proof -
  note parts = wfx_parts [OF assms(1) [unfolded world_ok_def]]
  note loc = world_local [OF assms(1-3)]
  then have owner: "fde_owner e = SocketEvent s" using assms(4,5) by (auto simp: local_ok_def)
  have "shape_ok ((inst_of w)(fd \<mapsto> e\<lparr>fde_state := S\<rparr>)) x xo" if "w_sock w x = Some xo" for x xo
  proof (cases "x = s")
    case True
    with that assms(2-5,8) loc show ?thesis by (auto simp: shape_local local_ok_def)
  next
    case False
    then show ?thesis by (rule shape_ok_other [OF socks_okD(1) [OF parts(1) that] _ assms(5) owner])
  qed
  then have "socks_ok {} (w_sock w) ((inst_of w)(fd \<mapsto> e\<lparr>fde_state := S\<rparr>)) (dom (w_transport w)) (w_next_sock w)"
    using parts(1) unfolding socks_ok_def by blast
  with parts assms(6,7) listeners_ok_other [OF parts(5) assms(5) owner] owners_ok_state [OF parts(6) assms(5)] show ?thesis
    by (simp add: world_ok_def wfx_def inst_of_def)
qed


lemma unsettled_context:
  assumes "unsettled s so w" "so_fde so = Some fd" "inst_of w fd = Some e"
    and "context_ok c" "map_of (installed_fdevents c) = (inst_of w)(fd \<mapsto> e\<lparr>fde_state := S\<rparr>)"
    and "\<not> iov_empty (so_packet_queue so) \<Longrightarrow> \<not> so_has_write_error so \<Longrightarrow> FDE_WRITE \<in> S"
  shows "world_ok (w\<lparr>w_context := c\<rparr>)"
proof -
  have ok: "world_ok (no_queue s so w)" using assms(1) by (simp add: unsettled_def)
  have "world_ok ((no_queue s so w)\<lparr>w_context := c\<rparr>)"
    by (rule world_ok_context [OF ok, of s "so\<lparr>so_packet_queue := empty_iov\<rparr>" fd e c S])
      (use assms in \<open>simp_all add: no_queue_def unsettled_def inst_of_def\<close>)
  moreover have "no_queue s so (w\<lparr>w_context := c\<rparr>) = (no_queue s so w)\<lparr>w_context := c\<rparr>"
    by (simp add: no_queue_def)
  ultimately have "unsettled s so (w\<lparr>w_context := c\<rparr>)" using assms(1) by (simp add: unsettled_def)
  then show ?thesis
    by (rule unsettled_settle) (use unsettled_local [OF assms(1)] assms in \<open>auto simp: local_ok_def inst_of_def\<close>)
qed

lemma unsettled_quiet:
  assumes "unsettled s so w" "quiet w w'"
  shows "unsettled s so w'"
proof -
  have "quiet (no_queue s so w) (no_queue s so w')"
    using assms(2) by (simp add: quiet_def same_rest_def no_queue_def)
  with assms show ?thesis by (simp add: unsettled_def quiet_sock world_ok_def quiet_wfx)
qed

text \<open>What writing changes in a socket.\<close>

definition flushed_to :: "asocket \<Rightarrow> asocket \<Rightarrow> bool" where
  "flushed_to so so' \<longleftrightarrow> (\<exists>q b. so' = so\<lparr>so_packet_queue := q, so_has_write_error := b\<rparr>)"

lemma flushed_to_refl [simp]: "flushed_to so so"
  unfolding flushed_to_def by (rule exI [of _ "so_packet_queue so"], rule exI [of _ "so_has_write_error so"]) simp

lemma flushed_to_sel:
  assumes "flushed_to so so'"
  shows "so_id so' = so_id so" "so_peer so' = so_peer so" "so_closing so' = so_closing so" "so_fd so' = so_fd so"
    "so_fde so' = so_fde so" "so_transport so' = so_transport so" "so_close so' = so_close so"
    "so_ready so' = so_ready so" "so_available_send_bytes so' = so_available_send_bytes so"
    "is_local so' = is_local so" "so_enqueue so' = so_enqueue so"
  using assms by (auto simp: flushed_to_def is_local_def)

lemma unsettled_upd:
  assumes "unsettled s so w" "flushed_to so so'" "iov_inv (so_packet_queue so')"
  shows "unsettled s so' (w\<lparr>w_sock := (w_sock w)(s \<mapsto> so')\<rparr>)"
proof -
  let ?w = "no_queue s so w" and ?so = "so'\<lparr>so_packet_queue := empty_iov\<rparr>"
  have ok: "world_ok ?w" and s: "w_sock ?w s = Some (so\<lparr>so_packet_queue := empty_iov\<rparr>)"
    using assms(1) by (simp_all add: unsettled_def no_queue_def)
  have loc: "is_local so" using assms(1) by (simp add: unsettled_def)
  have "local_ok True (inst_of w) s ?so"
    using unsettled_local [OF assms(1)] assms(2) by (auto simp: local_ok_def flushed_to_def)
  then have "world_ok (?w\<lparr>w_sock := (w_sock ?w)(s \<mapsto> ?so)\<rparr>)"
    using flushed_to_sel [OF assms(2)] loc socks_okD(4) [OF wfx_parts(1) [OF ok [unfolded world_ok_def]] s]
    by (intro world_ok_upd [OF ok s]) (simp_all add: shape_local)
  then show ?thesis using assms flushed_to_sel [OF assms(2)] by (simp add: unsettled_def no_queue_def)
qed

end
