(* ===== verification/Socket_Flow.thy ===== *)
theory Socket_Flow
  imports Socket_Safety
begin

text \<open>
  Data flow through the local sockets: what the operations that move bytes do
  to the well-formedness of the world, and that they neither lose, duplicate
  nor reorder a byte.
\<close>

text \<open>What went out on the descriptor followed by what is still queued.\<close>

definition stream_of :: "world \<Rightarrow> nat \<Rightarrow> asocket \<Rightarrow> string" where
  "stream_of w fd so = io_log (w_io w fd) @ iov_bytes (so_packet_queue so)"

lemma okA_writev_log:
  "okA E (adb_writev (Some fd) iov) w (\<lambda>r w'. quiet w w' \<and> (\<forall>fd'. fd' \<noteq> fd \<longrightarrow> w_io w' fd' = w_io w fd') \<and>
     (case r of
        WrBytes k \<Rightarrow> k \<le> MAX_RW_COUNT \<and> k \<le> length (concat iov) \<and> io_log (w_io w' fd) = io_log (w_io w fd) @ take k (concat iov)
      | WrErr e \<Rightarrow> io_log (w_io w' fd) = io_log (w_io w fd)))"
proof -
  have len: "k \<le> length p" if "adb_write es p = (WrBytes k, es')" for es p k es'
    using that by (elim adb_write.elims) auto
  show ?thesis
    by (auto simp: okA_def adb_writev_def Let_def min_def split: prod.split wr_result.split if_splits dest!: len)
qed

lemma flush_bytes:
  assumes "iov_inv q" "0 < k" "k \<le> MAX_RW_COUNT" "k \<le> length (iov_bytes q)" "k \<noteq> iov_size q"
  shows "\<exists>q'. drop_front q k = Done q' \<and> iov_inv q' \<and> iov_bytes q' = drop k (iov_bytes q)"
  using drop_front_ok [of q k] assms by (auto simp: ends_def iov_size_bytes MAX_RW_COUNT_def)

text \<open>A flush of socket \<open>s\<close> moves bytes from the queue to the descriptor and touches nothing else.\<close>

definition flushed :: "nat \<Rightarrow> nat \<Rightarrow> asocket \<Rightarrow> world \<Rightarrow> world \<Rightarrow> bool" where
  "flushed s fd so w w' \<longleftrightarrow> same_but {s} w w' \<and> device_tracker_list w' = device_tracker_list w \<and>
     (\<exists>so'. unsettled s so' w' \<and> flushed_to so so' \<and> stream_of w' fd so' = stream_of w fd so)"

lemma flushed_quiet:
  assumes "unsettled s so w" "quiet w w'" "io_log (w_io w' fd) = io_log (w_io w fd)"
  shows "flushed s fd so w w'"
  using assms unsettled_quiet [OF assms(1,2)] quiet_same_but [OF assms(2)]
  by (auto simp: flushed_def stream_of_def quiet_def intro!: exI [of _ so])

lemma flushed_upd:
  assumes "unsettled s so w" "quiet w w1" "flushed_to so so'" "iov_inv (so_packet_queue so')"
    and "io_log (w_io w1 fd) @ iov_bytes (so_packet_queue so') = io_log (w_io w fd) @ iov_bytes (so_packet_queue so)"
  shows "flushed s fd so w (w1\<lparr>w_sock := (w_sock w1)(s \<mapsto> so')\<rparr>)"
  using assms unsettled_upd [OF unsettled_quiet [OF assms(1,2)] assms(3,4)]
    same_but_trans [OF quiet_same_but [OF assms(2), of "{}"] same_but_upd]
  by (auto simp: flushed_def stream_of_def quiet_def intro!: exI [of _ so'])

lemma okA_flush_queue:
  assumes "unsettled s so w" "so_fd so = Some fd"
  shows "okA E (flush_queue s) w (\<lambda>n w'. flushed s fd so w w')"
proof (cases "iov_empty (so_packet_queue so)")
  case True
  with assms show ?thesis using flushed_quiet [OF assms(1) quiet_refl] by (simp add: flush_queue_def wp unsettled_def)
next
  case False
  have so: "w_sock w s = Some so" and inv: "iov_inv (so_packet_queue so)" using assms by (simp_all add: unsettled_def)
  obtain iov where iov: "iovecs (so_packet_queue so) = Done iov" "concat iov = iov_bytes (so_packet_queue so)"
    using iterate_blocks_ok [OF inv] by (auto simp: iovecs_def ends_def)
  have fl: "flushed_to so (so\<lparr>so_packet_queue := q\<rparr>)" "flushed_to so (so\<lparr>so_has_write_error := b\<rparr>)" for q b
    unfolding flushed_to_def by (rule exI [of _ q], rule exI [of _ "so_has_write_error so"], simp)
      (rule exI [of _ "so_packet_queue so"], rule exI [of _ b], simp)
  have step: "flushed s fd so w (w1\<lparr>w_sock := (w_sock w)(s \<mapsto> so\<lparr>so_packet_queue := q\<rparr>)\<rparr>)"
    if "quiet w w1" "io_log (w_io w1 fd) = io_log (w_io w fd) @ take k (iov_bytes (so_packet_queue so))"
      "iov_inv q" "iov_bytes q = drop k (iov_bytes (so_packet_queue so))" for w1 k q
    using flushed_upd [OF assms(1) that(1) fl(1) , of q fd] that by (simp add: quiet_sock)
  have err: "flushed s fd so w (w1\<lparr>w_sock := (w_sock w)(s \<mapsto> so\<lparr>so_has_write_error := True\<rparr>)\<rparr>)"
    if "quiet w w1" "io_log (w_io w1 fd) = io_log (w_io w fd)" for w1
    using flushed_upd [OF assms(1) that(1) fl(2), of True fd] that inv by (simp add: quiet_sock)
  have wrote: "okA E (flush_wrote s (so_packet_queue so) r) w1 (\<lambda>n. flushed s fd so w)"
    if "quiet w w1" and r: "case r of
        WrBytes k \<Rightarrow> k \<le> MAX_RW_COUNT \<and> k \<le> length (iov_bytes (so_packet_queue so)) \<and>
          io_log (w_io w1 fd) = io_log (w_io w fd) @ take k (iov_bytes (so_packet_queue so))
      | WrErr e \<Rightarrow> io_log (w_io w1 fd) = io_log (w_io w fd)" for w1 r
  proof (cases r)
    case (WrBytes k)
    with r step [OF that(1), of k] err [OF that(1)] flush_bytes [OF inv, of k] quiet_sock [OF that(1)] so show ?thesis
      by (auto simp: flush_wrote_def wp iov_size_bytes inv)
  next
    case (WrErr e)
    with r err [OF that(1)] flushed_quiet [OF assms(1) that(1)] quiet_sock [OF that(1)] so show ?thesis
      by (simp add: flush_wrote_def wp)
  qed
  have "okA E (adb_writev (Some fd) iov) w (\<lambda>r w1. okA E (flush_wrote s (so_packet_queue so) r) w1 (\<lambda>n. flushed s fd so w))"
    by (rule okA_mono [OF okA_writev_log [of E fd iov w, unfolded iov(2)]]) (blast intro: wrote)
  then show ?thesis using False so assms(2) iov by (simp add: flush_queue_def wp)
qed

section \<open>Events of a local socket\<close>

text \<open>A step that only sets events of the loop.\<close>

definition events_only :: "world \<Rightarrow> world \<Rightarrow> bool" where
  "events_only w w' \<longleftrightarrow> (\<exists>c. w' = w\<lparr>w_context := c\<rparr>)"

lemma events_only_sel:
  assumes "events_only w w'"
  shows "w_sock w' = w_sock w" "w_io w' = w_io w" "same_but S w w'" "stream_of w' fd so = stream_of w fd so"
    "w_transport w' = w_transport w" "device_tracker_list w' = device_tracker_list w"
  using assms by (auto simp: events_only_def same_but_def same_rest_def stream_of_def)

lemma okA_add_event:
  assumes "unsettled s so w" "FDE_TIMEOUT \<notin> ev"
    and "FDE_WRITE \<in> ev \<or> local_ok True (inst_of w) s so"
  shows "okA E (fdevent_addA (so_fde so) ev) w (\<lambda>_ w'. world_ok w' \<and> events_only w w')"
proof -
  obtain fd e where e: "so_fde so = Some fd" "inst_of w fd = Some e"
    "local_ok True (inst_of w) s so \<Longrightarrow> \<not> iov_empty (so_packet_queue so) \<Longrightarrow> \<not> so_has_write_error so \<Longrightarrow> FDE_WRITE \<in> fde_state e"
    using unsettled_local [OF assms(1)] by (auto simp: local_ok_def)
  have "context_ok (w_context w)" using assms(1) by (simp add: unsettled_def world_ok_def wfx_def no_queue_def)
  then obtain c where c: "fdevent_add fd ev (w_context w) = Done c" "context_ok c"
    "map_of (installed_fdevents c) = (inst_of w)(fd \<mapsto> e\<lparr>fde_state := fde_state e \<union> ev\<rparr>)"
    using fdevent_add_ok [of "w_context w" fd e ev] e assms(2) by (auto simp: inst_of_def)
  have "world_ok (w\<lparr>w_context := c\<rparr>)"
    by (rule unsettled_context [OF assms(1) e(1,2) c(2,3)]) (use assms(3) e(3) in auto)
  with c(1) e(1) show ?thesis by (auto simp: fdevent_addA_def wp events_only_def)
qed

lemma okA_del_event:
  assumes "unsettled s so w" "FDE_TIMEOUT \<notin> ev"
    and "iov_empty (so_packet_queue so) \<or> so_has_write_error so \<or> local_ok True (inst_of w) s so \<and> FDE_WRITE \<notin> ev"
  shows "okA E (fdevent_delA (so_fde so) ev) w (\<lambda>_ w'. world_ok w' \<and> events_only w w')"
proof -
  obtain fd e where e: "so_fde so = Some fd" "inst_of w fd = Some e"
    "local_ok True (inst_of w) s so \<Longrightarrow> \<not> iov_empty (so_packet_queue so) \<Longrightarrow> \<not> so_has_write_error so \<Longrightarrow> FDE_WRITE \<in> fde_state e"
    using unsettled_local [OF assms(1)] by (auto simp: local_ok_def)
  have "context_ok (w_context w)" using assms(1) by (simp add: unsettled_def world_ok_def wfx_def no_queue_def)
  then obtain c where c: "fdevent_del fd ev (w_context w) = Done c" "context_ok c"
    "map_of (installed_fdevents c) = (inst_of w)(fd \<mapsto> e\<lparr>fde_state := fde_state e - ev\<rparr>)"
    using fdevent_del_ok [of "w_context w" fd e ev] e assms(2) by (auto simp: inst_of_def)
  have "world_ok (w\<lparr>w_context := c\<rparr>)"
    by (rule unsettled_context [OF assms(1) e(1,2) c(2,3)]) (use assms(3) e(3) in auto)
  with c(1) e(1) show ?thesis by (auto simp: fdevent_delA_def wp events_only_def)
qed

lemma settled:
  assumes "world_ok w" "w_sock w s = Some so" "is_local so"
  shows "unsettled s so w" "local_ok True (inst_of w) s so"
proof -
  have "iov_inv (so_packet_queue so)" using world_local [OF assms] by (simp add: local_ok_def)
  from world_ok_unsettled [OF assms this] assms(2) show "unsettled s so w" by (simp add: fun_upd_idem)
qed (rule world_local [OF assms])

lemma okA_read_event:
  assumes "world_ok w" "w_sock w s = Some so" "is_local so"
  shows "okA E (fdevent_delA (so_fde so) {FDE_READ}) w (\<lambda>_ w'. world_ok w' \<and> events_only w w')"
    "okA E (fdevent_addA (so_fde so) {FDE_READ}) w (\<lambda>_ w'. world_ok w' \<and> events_only w w')"
  using okA_del_event [OF settled(1) [OF assms], of "{FDE_READ}"] okA_add_event [OF settled(1) [OF assms], of "{FDE_READ}"]
    settled(2) [OF assms] by simp_all

section \<open>Flushing to the descriptor\<close>

lemma unsettled_peer:
  assumes "unsettled s so w"
  shows "so_transport so = Some t \<Longrightarrow> t \<in> dom (w_transport w)" "so_peer so = Some p \<Longrightarrow> p \<in> dom (w_sock w) \<and> p \<noteq> s"
    "so_closing so \<Longrightarrow> so_peer so = None"
proof -
  have ok: "socks_ok {} (w_sock (no_queue s so w)) (inst_of w) (dom (w_transport w)) (w_next_sock w)"
    and s: "w_sock (no_queue s so w) s = Some (so\<lparr>so_packet_queue := empty_iov\<rparr>)"
    using assms by (simp_all add: unsettled_def world_ok_def wfx_def no_queue_def inst_of_def)
  show "so_transport so = Some t \<Longrightarrow> t \<in> dom (w_transport w)" "so_peer so = Some p \<Longrightarrow> p \<in> dom (w_sock w) \<and> p \<noteq> s"
    "so_closing so \<Longrightarrow> so_peer so = None"
    using socks_okD(4) [OF ok s, of t] socks_okD(2) [OF ok s]
    by (auto simp: peer_ok_def no_queue_def split: option.splits)
qed

lemma okA_acknowledge:
  assumes "unsettled s so w"
  shows "okA E (acknowledge s n) w (\<lambda>_ w'. quiet w w' \<and> w_io w' = w_io w)"
proof (cases "so_transport so = None \<or> so_peer so = None")
  case True
  with assms show ?thesis by (auto simp: acknowledge_def wp unsettled_def split: option.split)
next
  case False
  then obtain t p where tp: "so_transport so = Some t" "so_peer so = Some p" by auto
  with unsettled_peer [OF assms] obtain po where "w_sock w p = Some po" by auto
  with tp unsettled_peer(1) [OF assms tp(1)] assms show ?thesis
    by (auto simp: acknowledge_def wp unsettled_def intro: okA_send_ready)
qed

text \<open>
  What a flush does: the world stays well formed, no other socket changes, and unless the socket
  was waiting to be destroyed it is still there, with the bytes of its stream where they were.
\<close>

definition flush_post :: "nat \<Rightarrow> nat \<Rightarrow> asocket \<Rightarrow> world \<Rightarrow> flush_result \<Rightarrow> world \<Rightarrow> bool" where
  "flush_post s fd so w r w' \<longleftrightarrow> world_ok w' \<and> same_but {s} w w' \<and>
     (if r = Destroyed then so_closing so \<and> gone (w_sock w' s)
      else device_tracker_list w' = device_tracker_list w \<and>
        (\<exists>so'. w_sock w' s = Some so' \<and> flushed_to so so' \<and> stream_of w' fd so' = stream_of w fd so \<and>
          (r = Completed \<longleftrightarrow> iov_empty (so_packet_queue so') \<or> so_has_write_error so')))"

lemma flush_post_ok: "flush_post s fd so w r w' \<Longrightarrow> world_ok w'"
  by (simp add: flush_post_def)

lemma okA_flush_outcome:
  assumes "same_but {s} w w2" and trk: "device_tracker_list w2 = device_tracker_list w" and "unsettled s so1 w2" "flushed_to so so1" "stream_of w2 fd so1 = stream_of w fd so"
    and full: "full \<longleftrightarrow> \<not> iov_empty (so_packet_queue so1) \<and> \<not> so_has_write_error so1"
  shows "okA E (flush_outcome s so1 full) w2 (flush_post s fd so w)"
proof -
  have so1: "w_sock w2 s = Some so1" "is_local so1" using assms(3) by (simp_all add: unsettled_def)
  have settle: "world_ok w2" if "\<not> full"
    using unsettled_settle [OF assms(3)] unsettled_local [OF assms(3)] full that by (auto simp: local_ok_def)
  have post: "flush_post s fd so w r w3" if "world_ok w3" "events_only w2 w3" "r \<noteq> Destroyed" "r = Completed \<longleftrightarrow> \<not> full" for r w3
    using that same_but_trans [OF assms(1) events_only_sel(3) [OF that(2), of "{}"]] events_only_sel [OF that(2)] so1 assms
    by (auto simp: flush_post_def)
  have closed: "flush_post s fd so w Destroyed w3" if "closed s so1 w2 w3" "so_closing so1" for w3
    using that same_but_trans [OF assms(1), of "{s}" w3] unsettled_peer(3) [OF assms(3)] flushed_to_sel(3) [OF assms(4)]
    by (simp add: closed_def peer_set_def flush_post_def)
  consider "so_closing so1" "\<not> full" | full | "\<not> so_closing so1" "\<not> full" by blast
  then show ?thesis
  proof cases
    case 1
    then show ?thesis using okA_mono [OF okA_sock_close [OF settle so1(1)] closed] by (simp add: flush_outcome_def wp)
  next
    case 2
    then show ?thesis using okA_mono [OF okA_add_event [OF assms(3), of "{FDE_WRITE}"], of "\<lambda>_. flush_post s fd so w TryAgain" E] post
      by (simp add: flush_outcome_def wp)
  next
    case 3
    then show ?thesis using okA_mono [OF okA_del_event [OF assms(3), of "{FDE_WRITE}"], of "\<lambda>_. flush_post s fd so w Completed" E] post full
      by (auto simp: flush_outcome_def wp)
  qed
qed

lemma okA_flush_incoming:
  assumes "unsettled s so w" "so_fd so = Some fd"
  shows "okA E (local_socket_flush_incoming s) w (flush_post s fd so w)"
  unfolding local_socket_flush_incoming_def wp_bind wp_deref_sock wp_then
proof (rule okA_mono [OF okA_flush_queue [OF assms]], goal_cases)
  case (1 n w1)
  then obtain so1 where so1: "unsettled s so1 w1" "flushed_to so so1" "stream_of w1 fd so1 = stream_of w fd so"
    "same_but {s} w w1" "device_tracker_list w1 = device_tracker_list w" by (auto simp: flushed_def)
  have "okA E (acknowledge s n) w1 (\<lambda>_ w2. okA E
    (flush_outcome s so1 (\<not> iov_empty (so_packet_queue so1) \<and> \<not> so_has_write_error so1)) w2 (flush_post s fd so w))"
    by (rule okA_mono [OF okA_acknowledge [OF so1(1)]], rule okA_flush_outcome)
      (use so1 unsettled_quiet [OF so1(1)] same_but_trans [OF so1(4) quiet_same_but [of w1 _ "{}"]] in \<open>auto simp: stream_of_def quiet_def\<close>)
  with so1(1) show ?case by (simp add: unsettled_def)
qed

section \<open>Enqueueing\<close>

definition enqueue_post :: "nat \<Rightarrow> nat \<Rightarrow> asocket \<Rightarrow> string \<Rightarrow> world \<Rightarrow> int \<Rightarrow> world \<Rightarrow> bool" where
  "enqueue_post s fd so data w r w' \<longleftrightarrow> world_ok w' \<and> same_but {s} w w' \<and> (r = - 1 \<or> r = 0 \<or> r = 1) \<and>
     (if r = - 1 then so_closing so \<and> gone (w_sock w' s)
      else device_tracker_list w' = device_tracker_list w \<and>
        (\<exists>so'. w_sock w' s = Some so' \<and> flushed_to so so' \<and> stream_of w' fd so' = stream_of w fd so @ data))"

lemma okA_local_enqueue:
  assumes "world_ok w" "w_sock w s = Some so" "is_local so" "so_fd so = Some fd"
  shows "okA E (local_socket_enqueue s data) w (enqueue_post s fd so data w)"
proof -
  have "iov_inv (so_packet_queue so)" using world_local [OF assms(1-3)] by (simp add: local_ok_def)
  then obtain q where q: "iov_put (so_packet_queue so) data = Done q" "iov_inv q" "iov_bytes q = iov_bytes (so_packet_queue so) @ data"
    using iovq.put [of "so_packet_queue so" data] by (auto simp: ends_def)
  let ?so = "so\<lparr>so_packet_queue := q\<rparr>" and ?w = "w\<lparr>w_sock := (w_sock w)(s \<mapsto> so\<lparr>so_packet_queue := q\<rparr>)\<rparr>"
  have un: "unsettled s ?so ?w" by (rule world_ok_unsettled [OF assms(1-3) q(2)])
  have fl: "flushed_to so so'" if "flushed_to ?so so'" for so' using that by (auto simp: flushed_to_def)
  have "enqueue_post s fd so data w (case r of Destroyed \<Rightarrow> - 1 | TryAgain \<Rightarrow> 1 | Completed \<Rightarrow> 0) w'"
    if "flush_post s fd ?so ?w r w'" for r w'
    using that same_but_trans [OF same_but_upd [of s w "Some ?so"], of "{s}" w'] fl q(3)
    by (cases r) (auto simp: enqueue_post_def flush_post_def stream_of_def)
  then show ?thesis
    using okA_mono [OF okA_flush_incoming [OF un], of fd] assms q(1) by (simp add: local_socket_enqueue_def wp)
qed

lemma world_remote:
  assumes "world_ok w" "w_sock w s = Some so" "so_close so = CloseRemote"
  obtains t p po where "so_transport so = Some t" "t \<in> dom (w_transport w)" "so_peer so = Some p" "w_sock w p = Some po"
proof -
  note sk = socks_okD [OF wfx_parts(1) [OF assms(1) [unfolded world_ok_def]] assms(2)]
  have "\<not> is_local so" using assms(3) by (simp add: is_local_def)
  with that sk(1) sk(2) sk(4) assms(3) show ?thesis by (fastforce simp: peer_ok_def shape_ok_def split: option.splits)
qed

lemma okA_remote_enqueue:
  assumes "world_ok w" "w_sock w s = Some so" "so_close so = CloseRemote"
  shows "okA E (remote_socket_enqueue s data) w (\<lambda>r w'. quiet w w' \<and> w_io w' = w_io w \<and> (r = 1 \<longleftrightarrow> length data \<le> MAX_PAYLOAD) \<and> (r = 1 \<or> r = - 1))"
proof -
  obtain t p po where "so_transport so = Some t" "t \<in> dom (w_transport w)" "so_peer so = Some p" "w_sock w p = Some po"
    by (rule world_remote [OF assms])
  with assms okA_send_packet_io [of w t] show ?thesis
    by (auto simp: remote_socket_enqueue_def wp intro: okA_mono)
qed

lemma okA_tracker_enqueue:
  assumes "world_ok w" "w_sock w s = Some so" "so_close so = CloseTracker"
  shows "okA E (device_tracker_enqueue s data) w (\<lambda>r w'. r = - 1 \<and> closed s so w w')"
proof -
  have "sock_close s w = device_tracker_close (do_close (close_depth - 1)) s w"
    using assms by (simp add: sock_close_def close_depth_def do_close.simps numeral_eq_Suc bindA_def deref_sock_def)
  then have "okA E (device_tracker_close (do_close (close_depth - 1)) s) w (\<lambda>_. closed s so w)"
    using okA_sock_close [OF assms(1,2)] by (simp add: okA_def)
  then show ?thesis by (simp add: device_tracker_enqueue_def wp)
qed

section \<open>From the descriptor to the peer\<close>

lemma okA_max_payload:
  assumes "world_ok w" "w_sock w s = Some so"
  shows "okA E (get_max_payload s) w (\<lambda>m w'. w' = w \<and> m \<le> MAX_PAYLOAD)"
proof -
  note sk = wfx_parts(1) [OF assms(1) [unfolded world_ok_def]]
  have t: "\<exists>tr. w_transport w t = Some tr" if "w_sock w x = Some xo" "so_transport xo = Some t" for x xo t
    using socks_okD(4) [OF sk that] by auto
  show ?thesis
  proof (cases "so_peer so")
    case None
    with assms(2) t [OF assms(2)] show ?thesis by (cases "so_transport so") (auto simp: get_max_payload_def wp)
  next
    case (Some p)
    then obtain po where po: "w_sock w p = Some po" using world_peer [OF assms] by metis
    show ?thesis using Some assms(2) po t [OF assms(2)] t [OF po]
      by (cases "so_transport so"; cases "so_transport po") (auto simp: get_max_payload_def wp)
  qed
qed

lemma adb_read_length: "adb_read es n = (RdBytes bs, es') \<Longrightarrow> length bs \<le> n"
  by (induction es n rule: adb_read.induct) (auto split: if_splits)

lemma read_loop_length: "case read_loop es n of (d, eof, es') \<Rightarrow> length d \<le> n"
proof (induction es n rule: read_loop.induct)
  case (1 es n)
  show ?case
  proof (cases "adb_read es n")
    case (Pair r es1)
    show ?thesis
    proof (cases r)
      case (RdBytes bs)
      with Pair have "length bs \<le> n" by (simp add: adb_read_length)
      then show ?thesis using 1 [OF _ Pair [symmetric] RdBytes] Pair RdBytes
        by (subst read_loop.simps) (auto split: prod.splits)
    qed (simp add: Pair read_loop.simps [of es n])
  qed
qed

lemma okA_read_fd: "okA E (read_fd fd n) w (\<lambda>(d, eof) w'. quiet w w' \<and> length d \<le> n)"
  by (auto simp: okA_def read_fd_def split: option.split prod.split)
    (use read_loop_length in \<open>force split: prod.splits\<close>)

lemma okA_after_enqueue:
  assumes "world_ok w" "r \<ge> 0 \<Longrightarrow> w_sock w s = Some so \<and> is_local so"
  shows "okA E (after_enqueue s r) w (\<lambda>b w'. world_ok w' \<and> (b \<longleftrightarrow> r \<ge> 0) \<and> (b \<longrightarrow> w_sock w' s = Some so))"
proof (cases "r < 0")
  case False
  then have s: "w_sock w s = Some so" "is_local so" using assms(2) by auto
  have "okA E (fdevent_delA (so_fde so) {FDE_READ}) w (\<lambda>_ w2. world_ok w2 \<and> w_sock w2 s = Some so)"
    by (rule okA_mono [OF okA_read_event(1) [OF assms(1) s]]) (use events_only_sel(1) s in auto)
  with s assms(1) False show ?thesis by (simp add: after_enqueue_def wp split: option.split)
qed (simp add: wp after_enqueue_def assms(1))

section \<open>Readiness\<close>

lemma quiet_ok: "quiet w w' \<Longrightarrow> world_ok w \<Longrightarrow> world_ok w'"
  by (simp add: world_ok_def quiet_wfx)

lemma world_tracker:
  assumes "world_ok w" "w_sock w s = Some so" "so_close so = CloseTracker"
  obtains p po where "so_peer so = Some p" "w_sock w p = Some po" "is_local po" "p \<noteq> s"
proof -
  have "\<not> is_local so" using assms(3) by (simp add: is_local_def)
  with that socks_okD(2) [OF wfx_parts(1) [OF assms(1) [unfolded world_ok_def]] assms(2)] show ?thesis
    by (auto simp: peer_ok_def split: option.splits)
qed

lemma ready_kind:
  assumes "world_ok w" "w_sock w s = Some so"
  shows "so_ready so = ReadyTracker \<longleftrightarrow> so_close so = CloseTracker" "so_ready so = ReadyRemote \<longleftrightarrow> so_close so = CloseRemote"
    "so_ready so = ReadyLocal \<or> so_ready so = ReadyNotify \<longleftrightarrow> is_local so"
  using socks_okD(1) [OF wfx_parts(1) [OF assms(1) [unfolded world_ok_def]] assms(2)]
  by (auto simp: shape_ok_def is_local_def local_ok_def split: close_fn.splits)

text \<open>
  After \<^verbatim>\<open>ready\<close> the lists are as they were; the call on a local socket leaves every other socket alone
  and the socket itself with its peer and its transport.
\<close>

definition ready_post :: "nat \<Rightarrow> asocket \<Rightarrow> world \<Rightarrow> world \<Rightarrow> bool" where
  "ready_post s so w w' \<longleftrightarrow> world_ok w' \<and> same_rest w w' \<and>
     (is_local so \<longrightarrow> same_but {s} w w' \<and>
        (\<exists>so'. w_sock w' s = Some so' \<and> is_local so' \<and> so_peer so' = so_peer so \<and> so_transport so' = so_transport so))"

lemma ready_post_ok: "ready_post s so w w' \<Longrightarrow> world_ok w'"
  by (simp add: ready_post_def)

lemma events_only_rest: "events_only w w' \<Longrightarrow> same_rest w w'"
  by (auto simp: events_only_def same_rest_def)

lemma okA_local_ready:
  assumes "world_ok w" "w_sock w s = Some so" "is_local so"
  shows "okA E (local_socket_ready s) w (\<lambda>_. ready_post s so w)"
proof -
  have "ready_post s so w w'" if "world_ok w' \<and> events_only w w'" for w'
    using that assms events_only_sel(1) [of w w'] events_only_rest [of w w'] by (simp add: ready_post_def same_but_def)
  then show ?thesis
    using okA_mono [OF okA_read_event(2) [OF assms], of "\<lambda>_. ready_post s so w"] assms(2) by (simp add: local_socket_ready_def wp)
qed

lemma okA_ready_notify:
  assumes "world_ok w" "w_sock w s = Some so" "is_local so"
  shows "okA E (local_socket_ready_notify s) w (\<lambda>_. ready_post s so w)"
proof -
  define so1 where "so1 = so\<lparr>so_ready := ReadyLocal, so_shutdown := None, so_close := CloseLocal\<rparr>"
  define w1 where "w1 = w\<lparr>w_sock := (w_sock w)(s \<mapsto> so1)\<rparr>"
  have ok: "world_ok w1" using plain_local [OF assms] by (simp add: w1_def so1_def)
  have so1: "w_sock w1 s = Some so1" "is_local so1" "so_peer so1 = so_peer so" "so_transport so1 = so_transport so"
    by (simp_all add: w1_def so1_def is_local_def)
  have post: "ready_post s so w w'" if "quiet w1 w2" "ready_post s so1 w2 w'" for w2 w'
  proof -
    have "same_but {s} w w'"
      using same_but_trans [OF same_but_trans [OF _ quiet_same_but [OF that(1), of "{}"]], of "{s}" w "{s}" w'] that(2) so1(2)
        same_but_upd [of s w "Some so1"] by (simp add: ready_post_def w1_def)
    then show ?thesis using that(2) so1 by (auto simp: ready_post_def same_but_def)
  qed
  have "okA E (local_socket_ready s) w2 (\<lambda>_. ready_post s so w)" if "quiet w1 w2" for w2
    by (rule okA_mono [OF okA_local_ready [of w2 s so1]])
      (use that ok so1 quiet_sock [OF that] post [OF that] in \<open>auto simp: world_ok_def quiet_wfx\<close>)
  then have "okA E (SendOkayA (so_fd so1)) w1 (\<lambda>_ w2. okA E (local_socket_ready s) w2 (\<lambda>_. ready_post s so w))"
    by (rule okA_mono [OF okA_SendOkay])
  with assms(2) so1(1) show ?thesis by (simp add: local_socket_ready_notify_def wp w1_def so1_def)
qed

lemma okA_remote_ready:
  assumes "world_ok w" "w_sock w s = Some so" "so_close so = CloseRemote"
  shows "okA E (remote_socket_ready s) w (\<lambda>_. ready_post s so w)"
proof -
  obtain t p po where "so_transport so = Some t" "t \<in> dom (w_transport w)" "so_peer so = Some p" "w_sock w p = Some po"
    by (rule world_remote [OF assms])
  moreover have "ready_post s so w w'" if "quiet w w'" for w'
    using that assms quiet_ok [OF that assms(1)] by (simp add: ready_post_def quiet_def is_local_def)
  ultimately show ?thesis using assms
    by (auto simp: remote_socket_ready_def wp intro!: okA_mono [OF okA_send_packet [of w t]])
qed

section \<open>Lists of transports\<close>

lemma okA_deref_list:
  assumes "world_ok w" "lst = transport_list \<or> lst = pending_list"
  shows "okA E (deref_list lst) w (\<lambda>ts w'. w' = w \<and> ts = transports_of (lst w) w)"
  using wfx_parts(4) [OF assms(1) [unfolded world_ok_def]] assms(2)
  by (auto simp: okA_def deref_list_def list_all_iff)

lemma okA_list_transports:
  assumes "world_ok w"
  shows "okA E (list_transportsA out) w (\<lambda>_ w'. w' = w)"
  unfolding list_transportsA_def wp_bind by (rule okA_mono [OF okA_deref_list [OF assms]]) (auto simp: wp)

lemma okA_iterate_transports:
  assumes "world_ok w"
  shows "okA E (iterate_transports fn) w (\<lambda>_ w'. w' = w)"
  unfolding iterate_transports_def wp_bind
  by (rule okA_mono [OF okA_deref_list [OF assms]]) (auto simp: wp intro!: okA_mono [OF okA_deref_list [OF assms]])

lemma tracker_after_split:
  "distinct (ps @ s # ss) \<Longrightarrow> tracker_after s (ps @ s # ss) = (case ss of [] \<Rightarrow> None | y # _ \<Rightarrow> Some y)"
  by (induction ps) auto

text \<open>The sockets are the same but for queues and write errors.\<close>

definition alike :: "world \<Rightarrow> world \<Rightarrow> bool" where
  "alike w w' \<longleftrightarrow> (\<forall>x. rel_option flushed_to (w_sock w x) (w_sock w' x))"

lemma flushed_to_trans: "flushed_to a b \<Longrightarrow> flushed_to b c \<Longrightarrow> flushed_to a c"
  unfolding flushed_to_def by (elim exE, rule exI, rule exI) simp

lemma alike_refl: "w_sock w' = w_sock w \<Longrightarrow> alike w w'"
  by (simp add: alike_def option.rel_refl)

lemma alike_trans: "alike w w' \<Longrightarrow> alike w' w'' \<Longrightarrow> alike w w''"
  unfolding alike_def by (metis (mono_tags, lifting) flushed_to_trans option.rel_sel)

lemma alike_one:
  assumes "same_but {p} w w'" "w_sock w p = Some po" "w_sock w' p = Some po'" "flushed_to po po'"
  shows "alike w w'"
  unfolding alike_def
proof
  fix x
  show "rel_option flushed_to (w_sock w x) (w_sock w' x)"
    using assms by (cases "x = p") (simp_all add: same_but_def option.rel_refl)
qed

lemma alikeD:
  assumes "alike w w'" "w_sock w x = Some xo"
  obtains xo' where "w_sock w' x = Some xo'" "flushed_to xo xo'"
proof -
  have "rel_option flushed_to (Some xo) (w_sock w' x)" using assms unfolding alike_def by metis
  then show ?thesis using that by (auto simp: option_rel_Some1)
qed

text \<open>
  What a socket relies on when it calls its peer's \<^verbatim>\<open>enqueue\<close>: the call keeps the world well formed;
  a result of zero or more leaves every socket but the peer as it was; a negative one says that the
  peer, and with it the caller, has been closed, which a local peer never does.
\<close>

locale peer_sink =
  fixes enq :: "nat \<Rightarrow> string \<Rightarrow> int act"
  assumes sink: "world_ok w \<Longrightarrow> w_sock w s = Some so \<Longrightarrow> so_peer so = Some p \<Longrightarrow> w_sock w p = Some po \<Longrightarrow>
    so_enqueue po \<noteq> EnqueueSmart \<Longrightarrow> length data \<le> MAX_PAYLOAD \<or> is_local po \<Longrightarrow>
    okA E (enq p data) w (\<lambda>r w'. world_ok w' \<and>
      (if r < 0 then \<not> is_local po \<and> closed p po w w'
       else same_but {p} w w' \<and> device_tracker_list w' = device_tracker_list w \<and>
         (\<exists>po'. w_sock w' p = Some po' \<and> flushed_to po po')))"
begin

lemma okA_tracker_send:
  assumes "world_ok w" "w_sock w s = Some so" "so_close so = CloseTracker"
  shows "okA E (device_tracker_send enq s str) w (\<lambda>_ w'. world_ok w' \<and> same_rest w w' \<and>
    device_tracker_list w' = device_tracker_list w \<and> w_sock w' s = Some so \<and> alike w w')"
proof -
  obtain p po where p: "so_peer so = Some p" "w_sock w p = Some po" "is_local po" "p \<noteq> s"
    by (rule world_tracker [OF assms])
  have "so_enqueue po \<noteq> EnqueueSmart" using world_local [OF assms(1) p(2,3)] by (simp add: local_ok_def)
  then have law: "okA E (enq p data) w (\<lambda>r w'. world_ok w' \<and> (if r < 0 then \<not> is_local po \<and> closed p po w w'
      else same_but {p} w w' \<and> device_tracker_list w' = device_tracker_list w \<and> (\<exists>po'. w_sock w' p = Some po' \<and> flushed_to po po')))" for data
    using sink [OF assms(1,2) p(1,2)] p(3) by blast
  have "okA E (enq p data) w (\<lambda>_ w'. world_ok w' \<and> same_rest w w' \<and>
      device_tracker_list w' = device_tracker_list w \<and> w_sock w' s = Some so \<and> alike w w')" for data
  proof (rule okA_mono [OF law], goal_cases)
    case (1 r w')
    then obtain po' where "same_but {p} w w'" "w_sock w' p = Some po'" "flushed_to po po'" using p(3) by (auto split: if_splits)
    with alike_one [OF _ p(2)] have "alike w w'" by blast
    with 1 p(3,4) assms(2) show ?case by (auto simp: same_but_def split: if_splits)
  qed
  with p(1) assms(2) show ?thesis by (simp add: device_tracker_send_def wp)
qed

lemma okA_tracker_ready:
  assumes "world_ok w" "w_sock w s = Some so" "so_close so = CloseTracker"
  shows "okA E (device_tracker_ready enq s) w (\<lambda>_ w'. ready_post s so w w' \<and>
    (\<forall>x. x \<noteq> s \<longrightarrow> rel_option flushed_to (w_sock w x) (w_sock w' x)))"
proof -
  let ?post = "\<lambda>w'. ready_post s so w w' \<and> (\<forall>x. x \<noteq> s \<longrightarrow> rel_option flushed_to (w_sock w x) (w_sock w' x))"
  let ?w = "w\<lparr>w_sock := (w_sock w)(s \<mapsto> so\<lparr>so_update_needed := False\<rparr>)\<rparr>"
  note sk = socks_okD [OF wfx_parts(1) [OF assms(1) [unfolded world_ok_def]] assms(2)]
  have "world_ok ?w"
    by (rule world_ok_upd [OF assms(1,2)]) (use sk(1,4) assms(3) in \<open>simp_all add: shape_ok_def\<close>)
  moreover have "?post w'" if "world_ok w'" "same_rest ?w w'" "alike ?w w'" for w'
  proof -
    have "ready_post s so w w'"
      using that(1,2) assms(3) same_rest_trans [of w ?w w'] same_but_upd [of s w] by (simp add: ready_post_def is_local_def same_but_def)
    moreover have "rel_option flushed_to (w_sock w x) (w_sock w' x)" if "x \<noteq> s" for x
      using \<open>alike ?w w'\<close> that by (auto simp: alike_def dest: spec [of _ x])
    ultimately show ?thesis by blast
  qed
  ultimately have "okA E (device_tracker_send enq s str) ?w (\<lambda>_. ?post)" for str
    using okA_mono [OF okA_tracker_send [of ?w s "so\<lparr>so_update_needed := False\<rparr>" E str], where Q = "\<lambda>_. ?post"] assms(3) by simp
  moreover have "?post w" using assms alike_refl [of w] by (simp add: ready_post_def alike_def)
  ultimately show ?thesis using \<open>world_ok ?w\<close> assms
    by (auto simp: device_tracker_ready_def wp intro: okA_mono [OF okA_list_transports])
qed

lemma okA_do_ready:
  assumes "world_ok w" "w_sock w s = Some so"
  shows "okA E (do_ready enq s) w (\<lambda>_. ready_post s so w)"
proof -
  have kind: "so_ready so = ReadyTracker \<longleftrightarrow> so_close so = CloseTracker" "so_ready so = ReadyRemote \<longleftrightarrow> so_close so = CloseRemote"
    "so_ready so = ReadyLocal \<or> so_ready so = ReadyNotify \<longleftrightarrow> is_local so"
    by (rule ready_kind [OF assms])+
  moreover have "ready_post s so w w" using assms by (simp add: ready_post_def)
  ultimately show ?thesis
    using okA_local_ready [OF assms] okA_ready_notify [OF assms] okA_remote_ready [OF assms]
      okA_mono [OF okA_tracker_ready [OF assms], of "\<lambda>_. ready_post s so w"] assms
    by (cases "so_ready so") (auto simp: do_ready_def wp smart_socket_ready_def)
qed

lemma okA_do_ready_peer:
  assumes "world_ok w" "w_sock w s = Some so" "is_local so \<or> so_close so = CloseTracker"
    and "p \<noteq> s" "w_sock w p = Some po" "is_local po"
  shows "okA E (do_ready enq s) w (\<lambda>_ w'. world_ok w' \<and> (\<exists>po'. w_sock w' p = Some po' \<and> is_local po'))"
proof (cases "is_local so")
  case True
  show ?thesis
    by (rule okA_mono [OF okA_do_ready [OF assms(1,2)]]) (use True assms(4-6) in \<open>auto simp: ready_post_def same_but_def\<close>)
next
  case False
  then have tracker: "so_close so = CloseTracker" using assms(3) by simp
  then have "so_ready so = ReadyTracker" using ready_kind(1) [OF assms(1,2)] by simp
  then have ready: "okA E (do_ready enq s) w Q \<longleftrightarrow> okA E (device_tracker_ready enq s) w Q" for Q
    using assms(2) by (simp add: do_ready_def wp)
  show ?thesis unfolding ready
  proof (rule okA_mono [OF okA_tracker_ready [OF assms(1,2) tracker]], goal_cases)
    case (1 _ w')
    have "rel_option flushed_to (w_sock w p) (w_sock w' p)" using 1 assms(4) by blast
    then obtain po' where "w_sock w' p = Some po'" "flushed_to po po'" using assms(5) by (auto simp: option_rel_Some1)
    then show ?case using 1 assms(6) flushed_to_sel(10) [of po po'] by (simp add: ready_post_def)
  qed
qed

lemma okA_local_ack:
  assumes "world_ok w" "w_sock w s = Some so" "is_local so"
  shows "okA E (local_socket_ack enq s a) w (\<lambda>_. ready_post s so w)"
proof -
  let ?so = "\<lambda>n. so\<lparr>so_available_send_bytes := n\<rparr>"
  let ?w = "\<lambda>n. w\<lparr>w_sock := (w_sock w)(s \<mapsto> so\<lparr>so_available_send_bytes := n\<rparr>)\<rparr>"
  have ok: "world_ok (?w n)" for n
    by (rule world_ok_upd [OF assms(1,2)])
      (use world_local [OF assms] socks_okD(4) [OF wfx_parts(1) [OF assms(1) [unfolded world_ok_def]] assms(2)] assms(3)
        in \<open>auto simp: shape_ok_def local_ok_def is_local_def split: close_fn.splits\<close>)
  have loc: "is_local (?so n)" for n using assms(3) by (simp add: is_local_def)
  have post: "ready_post s so w w'" if "ready_post s (?so n) (?w n) w'" for n w'
    using that same_but_trans [OF same_but_upd [of s w "Some (?so n)"], of "{s}" w'] loc [of n]
    by (auto simp: ready_post_def same_but_def)
  have "okA E (do_ready enq s) (?w n) (\<lambda>_. ready_post s so w)" for n
    by (rule okA_mono [OF okA_do_ready [OF ok, where so = "?so n"]]) (simp, erule post)
  moreover have "ready_post s so w (?w n)" for n
    using ok loc same_but_upd [of s w "Some (?so n)"] by (auto simp: ready_post_def same_but_def)
  moreover have "ready_post s so w w" using assms by (simp add: ready_post_def)
  ultimately show ?thesis using assms okA_do_ready [OF assms(1,2)]
    by (auto simp: local_socket_ack_def wp split: option.split)
qed

lemma okA_notify_trackers:
  assumes "world_ok w" "device_tracker_list w = ps @ qs" "length qs \<le> n"
  shows "okA E (notify_trackers enq n (case qs of [] \<Rightarrow> None | s # _ \<Rightarrow> Some s)) w (\<lambda>_ w'. world_ok w' \<and> same_rest w w' \<and> alike w w')"
  using assms
proof (induction n arbitrary: w ps qs)
  case (Suc n)
  show ?case
  proof (cases qs)
    case (Cons s ss)
    with Suc.prems have "s \<in> set (device_tracker_list w)" by simp
    then obtain so where so: "w_sock w s = Some so" "so_close so = CloseTracker"
      using wfx_parts(2) [OF Suc.prems(1) [unfolded world_ok_def]] by (auto simp: lists_ok_def)
    have "distinct (ps @ s # ss)"
      using wfx_parts(2) [OF Suc.prems(1) [unfolded world_ok_def]] Suc.prems(2) Cons by (auto simp: lists_ok_def)
    then have after: "tracker_after s (device_tracker_list w) = (case ss of [] \<Rightarrow> None | y # _ \<Rightarrow> Some y)"
      using Suc.prems(2) Cons by (simp add: tracker_after_split)
    have "okA E (device_tracker_send enq s str) w (\<lambda>_ w1. okA E
        (notify_trackers enq n (case ss of [] \<Rightarrow> None | s # _ \<Rightarrow> Some s)) w1 (\<lambda>_ w'. world_ok w' \<and> same_rest w w' \<and> alike w w'))" for str
      by (rule okA_mono [OF okA_tracker_send [OF Suc.prems(1) so]], rule okA_mono [OF Suc.IH [of _ "ps @ [s]" ss]])
        (use Suc.prems Cons same_rest_trans alike_trans in auto)
    then show ?thesis using Cons so after Suc.prems(1)
      by (auto simp: wp intro: okA_mono [OF okA_list_transports])
  qed (simp add: wp Suc.prems alike_refl)
qed (simp add: wp alike_refl)

lemma okA_update_transports:
  assumes "world_ok w"
  shows "okA E (update_transports enq) w (\<lambda>_ w'. world_ok w' \<and> same_rest w w' \<and> alike w w')"
proof -
  let ?w = "\<lambda>b. w\<lparr>transports_ready := b\<rparr>"
  have ok: "world_ok (?w b)" "same_rest w (?w b)" for b
    using assms by (simp_all add: world_ok_def wfx_def inst_of_def same_rest_def)
  have "okA E (notify_trackers enq (length ss) (case ss of [] \<Rightarrow> None | s # _ \<Rightarrow> Some s)) (?w b)
      (\<lambda>_ w'. world_ok w' \<and> same_rest w w' \<and> alike w w')" if "ss = device_tracker_list w" for ss b
    by (rule okA_mono [OF okA_notify_trackers [OF ok(1), of b "[]" ss]])
      (use that ok(2) same_rest_trans alike_trans [OF alike_refl [of "?w b" w]] in auto)
  then show ?thesis
    by (auto simp: update_transports_def update_transport_status_def wp intro!: okA_mono [OF okA_iterate_transports [OF assms]])
qed

lemma okA_SetConnectionState:
  assumes "world_ok w" "t \<in> dom (w_transport w)"
  shows "okA E (SetConnectionState enq t st) w (\<lambda>_ w'. world_ok w' \<and> same_rest w w' \<and> alike w w')"
proof -
  obtain tr where tr: "w_transport w t = Some tr" using assms(2) by auto
  let ?w = "w\<lparr>w_transport := (w_transport w)(t \<mapsto> tr\<lparr>t_state := st\<rparr>)\<rparr>"
  have "quiet w ?w" by (rule quiet_transport [OF tr]) simp
  then have "world_ok ?w" "same_rest w ?w" using assms(1) by (simp_all add: world_ok_def quiet_wfx quiet_def)
  then have "okA E (update_transports enq) ?w (\<lambda>_ w'. world_ok w' \<and> same_rest w w' \<and> alike w w')"
    using same_rest_trans [of w ?w] alike_trans [OF alike_refl [of ?w w]] by (intro okA_mono [OF okA_update_transports]) auto
  with tr show ?thesis by (simp add: SetConnectionState_def wp)
qed

end

text \<open>
  A peer that may be a smart socket, whose request can end the process in the ways \<open>X\<close>.  A result of
  zero or more says that the calling socket is still there.
\<close>

locale smart_sink = peer_sink +
  fixes X :: "stop set"
  assumes smart: "world_ok w \<Longrightarrow> w_sock w s = Some so \<Longrightarrow> is_local so \<Longrightarrow> so_peer so = Some p \<Longrightarrow> w_sock w p = Some po \<Longrightarrow>
    so_enqueue po = EnqueueSmart \<Longrightarrow>
    okA X (enq p data) w (\<lambda>r w'. world_ok w' \<and> (r \<ge> 0 \<longrightarrow> (\<exists>so'. w_sock w' s = Some so' \<and> is_local so')))"
begin

lemma deliver:
  assumes "world_ok w" "w_sock w s = Some so" "is_local so" "so_peer so = Some p" "w_sock w p = Some po"
    and "so_enqueue po = EnqueueSmart \<Longrightarrow> X \<subseteq> E" "length data \<le> MAX_PAYLOAD"
  shows "okA E (enq p data) w (\<lambda>r w'. world_ok w' \<and> (r \<ge> 0 \<longrightarrow> (\<exists>so'. w_sock w' s = Some so' \<and> is_local so')))"
proof (cases "so_enqueue po = EnqueueSmart")
  case True
  then show ?thesis using assms(6) by (intro okA_weaken [OF smart [OF assms(1-5)]])
next
  case False
  have "p \<noteq> s" using world_peer [OF assms(1,2,4)] by metis
  then show ?thesis
    by (intro okA_mono [OF sink [OF assms(1,2,4,5) False]]) (use assms(2,3,7) in \<open>auto simp: same_but_def split: if_splits\<close>)
qed

lemma okA_pass_to_peer:
  assumes "world_ok w" "w_sock w s = Some so" "is_local so" "so_peer so = Some p" "w_sock w p = Some po"
    and "so_enqueue po = EnqueueSmart \<Longrightarrow> X \<subseteq> E" "length data \<le> MAX_PAYLOAD"
  shows "okA E (pass_to_peer enq s p data) w (\<lambda>b w'. world_ok w' \<and> (b \<longrightarrow> (\<exists>so'. w_sock w' s = Some so' \<and> is_local so')))"
proof -
  define so1 where "so1 = so\<lparr>so_available_send_bytes := map_option (\<lambda>n. n - int (length data)) (so_available_send_bytes so)\<rparr>"
  define w1 where "w1 = w\<lparr>w_sock := (w_sock w)(s \<mapsto> so1)\<rparr>"
  have loc: "is_local so1" "so_peer so1 = Some p" using assms(3,4) by (simp_all add: is_local_def so1_def)
  have ps: "p \<noteq> s" using world_peer [OF assms(1,2,4)] by metis
  have sel: "w_sock w1 s = Some so1" "w_sock w1 p = Some po" using ps assms(5) by (simp_all add: w1_def)
  have "shape_ok (inst_of w) s so1" using world_local [OF assms(1-3)] loc by (simp add: shape_local local_ok_def so1_def)
  then have ok: "world_ok w1"
    using socks_okD(4) [OF wfx_parts(1) [OF assms(1) [unfolded world_ok_def]] assms(2)] assms(3,4) loc unfolding w1_def
    by (intro world_ok_upd [OF assms(1,2)]) (simp_all add: so1_def)
  have after: "okA E (after_enqueue s r) w2 (\<lambda>b w'. world_ok w' \<and> (b \<longrightarrow> (\<exists>so'. w_sock w' s = Some so' \<and> is_local so')))"
    if "world_ok w2" "r \<ge> 0 \<Longrightarrow> \<exists>so2. w_sock w2 s = Some so2 \<and> is_local so2" for r w2
  proof -
    have "\<exists>so2. r \<ge> 0 \<longrightarrow> w_sock w2 s = Some so2 \<and> is_local so2" using that(2) by blast
    then obtain so2 where "r \<ge> 0 \<longrightarrow> w_sock w2 s = Some so2 \<and> is_local so2" ..
    then show ?thesis by (intro okA_mono [OF okA_after_enqueue [OF that(1), of r s so2]]) auto
  qed
  have "okA E (enq p data) w1 (\<lambda>r w2. okA E (after_enqueue s r) w2
      (\<lambda>b w'. world_ok w' \<and> (b \<longrightarrow> (\<exists>so'. w_sock w' s = Some so' \<and> is_local so'))))"
    by (rule okA_mono [OF deliver [OF ok sel(1) loc(1,2) sel(2) assms(6,7)]]) (auto intro: after)
  with assms(2) show ?thesis by (simp add: pass_to_peer_def wp w1_def so1_def)
qed

lemma okA_flush_outgoing:
  assumes "world_ok w" "w_sock w s = Some so" "is_local so"
    and direct: "\<And>p po. so_peer so = Some p \<Longrightarrow> w_sock w p = Some po \<Longrightarrow> so_enqueue po = EnqueueSmart \<Longrightarrow> X \<subseteq> E"
  shows "okA E (local_socket_flush_outgoing enq s) w (\<lambda>b w'. world_ok w' \<and> (b \<longrightarrow> s \<in> dom (w_sock w')))"
proof -
  have rest: "okA E (case so_peer so of
          Some p \<Rightarrow> if data \<noteq> [] then pass_to_peer enq s p data else retA True
        | None \<Rightarrow> retA True) w1 (\<lambda>b w'. world_ok w' \<and> (b \<longrightarrow> (\<exists>so'. w_sock w' s = Some so' \<and> is_local so')))"
    if "quiet w w1" "length data \<le> MAX_PAYLOAD" for data w1
  proof -
    have ok: "world_ok w1" and sk: "w_sock w1 = w_sock w" using that(1) assms(1) by (simp_all add: world_ok_def quiet_wfx quiet_sock)
    show ?thesis
    proof (cases "so_peer so")
      case (Some p)
      then obtain po where "w_sock w p = Some po" using world_peer [OF assms(1,2)] by metis
      then have "okA E (pass_to_peer enq s p data) w1 (\<lambda>b w'. world_ok w' \<and> (b \<longrightarrow> (\<exists>so'. w_sock w' s = Some so' \<and> is_local so')))"
        by (intro okA_pass_to_peer [of w1 s so p po]) (use Some direct [OF Some] ok sk assms that in auto)
      with Some ok sk assms show ?thesis by (auto simp: wp)
    qed (use ok sk assms in \<open>simp add: wp\<close>)
  qed
  have fin: "okA E (if \<not> b then retA False else if eof then thenA (sock_close s) (retA False) else retA True) w2
      (\<lambda>b w'. world_ok w' \<and> (b \<longrightarrow> s \<in> dom (w_sock w')))"
    if "world_ok w2 \<and> (b \<longrightarrow> (\<exists>so'. w_sock w2 s = Some so' \<and> is_local so'))" for b eof w2
    using that okA_mono [OF okA_sock_close [of w2 s]] by (auto simp: wp closed_def)
  have step: "okA E (bindA (case so_peer so of
          Some p \<Rightarrow> if data \<noteq> [] then pass_to_peer enq s p data else retA True
        | None \<Rightarrow> retA True)
      (\<lambda>b. if \<not> b then retA False else if eof then thenA (sock_close s) (retA False) else retA True)) w1
      (\<lambda>b w'. world_ok w' \<and> (b \<longrightarrow> s \<in> dom (w_sock w')))"
    if "quiet w w1" "length data \<le> MAX_PAYLOAD" for data eof w1
    unfolding wp_bind by (rule okA_mono [OF rest [OF that] fin])
  show ?thesis
    unfolding local_socket_flush_outgoing_def wp_bind wp_deref_sock
  proof (rule okA_mono [OF okA_max_payload [OF assms(1,2)]], simp add: assms(2), rule okA_mono [OF okA_read_fd], goal_cases)
    case (1 m r w1)
    then show ?case using step [of w1 "fst r" "snd r"] by (auto simp: case_prod_beta wp_bind [symmetric] simp del: not_Some_eq)
  qed
qed

text \<open>\<^verbatim>\<open>local_socket_event_func\<close>, for the event of a socket in the table.\<close>

lemma okA_event_func:
  assumes "world_ok w" "w_sock w s = Some so" "is_local so"
    and direct: "\<And>p po. so_peer so = Some p \<Longrightarrow> w_sock w p = Some po \<Longrightarrow> so_enqueue po = EnqueueSmart \<Longrightarrow> X \<subseteq> E"
  shows "okA E (local_socket_event_func enq s ev) w (\<lambda>_ w'. world_ok w')"
proof -
  obtain fd where fd: "so_fd so = Some fd" using world_local [OF assms(1-3)] by (auto simp: local_ok_def)
  have out: "okA E (local_socket_flush_outgoing enq s) w1 (\<lambda>_ w'. world_ok w')"
    if w1: "flush_post s fd so w r w1" "r \<noteq> Destroyed" for r w1
  proof -
    obtain so1 where so1: "world_ok w1" "w_sock w1 s = Some so1" "flushed_to so so1" "same_but {s} w w1"
      using w1 by (auto simp: flush_post_def)
    have "X \<subseteq> E" if "so_peer so1 = Some p" "w_sock w1 p = Some po" "so_enqueue po = EnqueueSmart" for p po
    proof -
      have p: "so_peer so = Some p" using that(1) flushed_to_sel(2) [OF so1(3)] by simp
      moreover have "p \<noteq> s" using world_peer [OF assms(1,2) p] by metis
      ultimately show ?thesis using direct so1(4) that(2,3) by (simp add: same_but_def)
    qed
    then show ?thesis using flushed_to_sel(10) [OF so1(3)] assms(3)
      by (intro okA_mono [OF okA_flush_outgoing [OF so1(1,2)]]) auto
  qed
  have "okA E (local_socket_flush_incoming s) w (flush_post s fd so w)"
    by (rule okA_flush_incoming [OF settled(1) [OF assms(1-3)] fd])
  then have flush: "okA E (local_socket_flush_incoming s) w (\<lambda>r w1. okA E
      (if r = Destroyed then retA () else if FDE_READ \<in> ev then bindA (local_socket_flush_outgoing enq s) (\<lambda>_. retA ()) else retA ())
      w1 (\<lambda>_ w'. world_ok w'))"
    by (rule okA_mono) (use out flush_post_ok in \<open>auto simp: wp\<close>)
  have "okA E (local_socket_flush_outgoing enq s) w (\<lambda>_ w'. world_ok w')"
    by (rule okA_mono [OF okA_flush_outgoing [OF assms]]) auto
  with flush assms(1) show ?thesis by (auto simp: local_socket_event_func_def wp)
qed

end

end
