(* ===== verification/Connect_Safety.thy ===== *)
theory Connect_Safety
  imports Socket_Flow Services
begin

text \<open>
  Memory safety of what makes sockets and ties them together: new local, remote and smart sockets,
  trackers, the listeners that accept connections, and the disconnect lists of transports.
\<close>

section \<open>Calls to the kernel\<close>

lemma wp_kernel_fd [wp]:
  "okA E (kernel_fd r) w Q \<longleftrightarrow>
     Q (case r of None \<Rightarrow> None | Some fd \<Rightarrow> if inst_of w fd = None then Some fd else None) w"
  by (simp add: okA_def kernel_fd_def inst_of_def split: option.split)

lemma wp_on_net [wp]:
  "okA E (on_net f) w Q \<longleftrightarrow> Q (f (c_net (w_config w) (w_net_calls w))) (w\<lparr>w_net_calls := Suc (w_net_calls w)\<rparr>)"
  by (simp add: okA_def on_net_def)

lemma quiet_upd [simp]:
  "quiet w (w\<lparr>w_net_calls := n\<rparr>)" "quiet w (w\<lparr>w_new_fds := f\<rparr>)" "quiet w (w\<lparr>w_threads := th\<rparr>)"
  "quiet w (w\<lparr>run_queue := q\<rparr>)" "quiet w (w\<lparr>reconnect_queue := rq\<rparr>)" "quiet w (w\<lparr>reconnect_running := b\<rparr>)"
  "quiet w (w\<lparr>local_transports := lt\<rparr>)" "quiet w (w\<lparr>retry_ports := rp\<rparr>)" "quiet w (w\<lparr>transports_ready := b\<rparr>)"
  "quiet w (w\<lparr>device_scan_complete := b\<rparr>)"
  by (simp_all add: quiet_def same_rest_def disconnects_of_def)

lemma inst_quiet: "quiet w w' \<Longrightarrow> inst_of w' = inst_of w"
  by (simp add: quiet_def inst_of_def)

lemma okA_new_fd: "okA E new_fd w (\<lambda>r w'. quiet w w' \<and> (\<forall>fd. r = Some fd \<longrightarrow> inst_of w' fd = None))"
  by (auto simp: okA_def new_fd_def kernel_fd_def inst_of_def split: list.split option.split)

section \<open>New sockets\<close>

text \<open>What making a socket leaves as it was.\<close>

definition same_env :: "world \<Rightarrow> world \<Rightarrow> bool" where
  "same_env w w' \<longleftrightarrow> disconnects_of w' = disconnects_of w \<and>
     listener_list w' = listener_list w \<and> w_next_listener w' = w_next_listener w \<and>
     transport_list w' = transport_list w \<and> pending_list w' = pending_list w \<and>
     w_next_transport w' = w_next_transport w"

lemma same_env_refl [simp]: "same_env w w"
  by (simp add: same_env_def)

lemma same_env_trans: "same_env w w' \<Longrightarrow> same_env w' w'' \<Longrightarrow> same_env w w''"
  by (simp add: same_env_def)

lemma same_rest_env: "same_rest w w' \<Longrightarrow> same_env w w'"
  by (simp add: same_rest_def same_env_def)

lemma same_env_dom: "same_env w w' \<Longrightarrow> dom (w_transport w') = dom (w_transport w)"
  unfolding same_env_def by (metis disconnects_dom)

lemma shape_ok_fresh: "shape_ok inst x xo \<Longrightarrow> inst fd = None \<Longrightarrow> shape_ok (inst(fd \<mapsto> e)) x xo"
  by (auto simp: shape_ok_def local_ok_def split: close_fn.splits)

lemma listeners_ok_fresh: "listeners_ok ls inst dis nx \<Longrightarrow> inst fd = None \<Longrightarrow> listeners_ok ls (inst(fd \<mapsto> e)) dis nx"
  unfolding listeners_ok_def listener_ok_def by fastforce

lemma world_next: "world_ok w \<Longrightarrow> w_sock w (w_next_sock w) = None"
  using socks_okD(3) [OF wfx_parts(1) [of "{}" w]] by (fastforce simp: world_ok_def)

lemma socks_ok_new:
  assumes "socks_ok {} sk inst trs nx" "shape_ok inst' nx ao" "\<And>t. so_transport ao = Some t \<Longrightarrow> t \<in> trs"
    and "\<And>x xo. shape_ok inst x xo \<Longrightarrow> shape_ok inst' x xo"
  shows "socks_ok {nx} (sk(nx \<mapsto> ao)) inst' trs (Suc nx)"
  unfolding socks_ok_def
proof (intro allI impI)
  fix x xo
  assume x: "(sk(nx \<mapsto> ao)) x = Some xo"
  have nx: "sk nx = None" using socks_okD(3) [OF assms(1), of nx] by fastforce
  show "shape_ok inst' x xo \<and> (x \<notin> {nx} \<longrightarrow> peer_ok {nx} (sk(nx \<mapsto> ao)) x xo) \<and> x < Suc nx \<and>
      (\<forall>t. so_transport xo = Some t \<longrightarrow> t \<in> trs)"
  proof (cases "x = nx")
    case False
    with x have sx: "sk x = Some xo" by simp
    note old = socks_okD [OF assms(1) sx]
    have "peer_ok {nx} (sk(nx \<mapsto> ao)) x xo"
      using old(2) nx by (auto simp: peer_ok_def split: option.splits)
    with old assms(4) show ?thesis by (auto simp: less_Suc_eq)
  qed (use x assms(2,3) in auto)
qed

text \<open>A remote or a smart socket that has no peer yet.\<close>

lemma wfx_new:
  assumes "world_ok w" "shape_ok (inst_of w) (w_next_sock w) ao" "so_close ao = CloseRemote \<or> so_close ao = CloseSmart"
    and "\<And>t. so_transport ao = Some t \<Longrightarrow> t \<in> dom (w_transport w)"
  shows "wfx {w_next_sock w} (w\<lparr>w_sock := (w_sock w)(w_next_sock w \<mapsto> ao), w_next_sock := Suc (w_next_sock w)\<rparr>)"
proof -
  note parts = wfx_parts [OF assms(1) [unfolded world_ok_def]]
  have "lists_ok ((w_sock w)(w_next_sock w \<mapsto> ao)) (local_socket_list w) (local_socket_closing_list w) (device_tracker_list w)"
    using parts(2) world_next [OF assms(1)] assms(3) by (auto simp: lists_ok_def is_local_def)
  with socks_ok_new [OF parts(1) assms(2,4)] owners_ok_other [OF parts(6)] world_next [OF assms(1)] parts(3-5) show ?thesis
    by (simp add: wfx_def inst_of_def)
qed

lemma wfx_new_tracker:
  assumes "world_ok w" "shape_ok (inst_of w) (w_next_sock w) ao" "so_close ao = CloseTracker" "so_transport ao = None"
  shows "wfx {w_next_sock w} (w\<lparr>w_sock := (w_sock w)(w_next_sock w \<mapsto> ao), w_next_sock := Suc (w_next_sock w),
    device_tracker_list := w_next_sock w # device_tracker_list w\<rparr>)"
proof -
  note parts = wfx_parts [OF assms(1) [unfolded world_ok_def]]
  have "lists_ok ((w_sock w)(w_next_sock w \<mapsto> ao)) (local_socket_list w) (local_socket_closing_list w)
      (w_next_sock w # device_tracker_list w)"
    using parts(2) world_next [OF assms(1)] assms(3) by (auto simp: lists_ok_def is_local_def)
  with socks_ok_new [OF parts(1) assms(2)] owners_ok_other [OF parts(6)] world_next [OF assms(1)] assms(4) parts(3-5) show ?thesis
    by (simp add: wfx_def inst_of_def)
qed

text \<open>Making a socket and a local one each other's peer.\<close>

lemma link_peers_in:
  assumes "wfx (insert a D) w" "w_sock w a = Some ao" "\<not> so_closing ao" "w_sock w s = Some so" "is_local so" "so_peer so = None"
    and "\<not> so_closing so" "a \<noteq> s" "so_close ao = CloseSmart \<Longrightarrow> so_transport so = None" "a \<notin> D" "s \<notin> D"
  shows "wfx D (w\<lparr>w_sock := (w_sock w)(s \<mapsto> so\<lparr>so_peer := Some a\<rparr>, a \<mapsto> ao\<lparr>so_peer := Some s\<rparr>)\<rparr>)"
proof -
  note parts = wfx_parts [OF assms(1)]
  let ?sk = "(w_sock w)(s \<mapsto> so\<lparr>so_peer := Some a\<rparr>, a \<mapsto> ao\<lparr>so_peer := Some s\<rparr>)"
  have "so_close so \<noteq> CloseSmart" using assms(5) by (auto simp: is_local_def)
  moreover have "peer_ok D ?sk x xo" if "w_sock w x = Some xo" "x \<noteq> s" "x \<noteq> a" "x \<notin> D" for x xo
    using socks_okD(2) [OF parts(1) that(1)] that assms(4,6) by (auto simp: peer_ok_def split: option.splits)
  ultimately have "socks_ok D ?sk (inst_of w) (dom (w_transport w)) (w_next_sock w)"
    using parts(1) assms(2-11) unfolding socks_ok_def by (auto simp: peer_ok_def)
  moreover have "lists_ok ?sk (local_socket_list w) (local_socket_closing_list w) (device_tracker_list w)"
    using lists_ok_same [OF lists_ok_same [OF parts(2) assms(4), of "so\<lparr>so_peer := Some a\<rparr>"], of a ao "ao\<lparr>so_peer := Some s\<rparr>"]
      assms(2,8) by simp
  moreover have "owners_ok (inst_of w) ?sk (listener_list w)"
  proof (intro owners_ok_upd [OF owners_ok_upd [OF parts(6) assms(4)]])
    show "((w_sock w)(s \<mapsto> so\<lparr>so_peer := Some a\<rparr>)) a = Some ao" using assms(2,8) by simp
  qed (use socks_okD(1) [OF parts(1) assms(2)] socks_okD(1) [OF parts(1) assms(4)] in simp_all)
  ultimately show ?thesis using parts(3-5) by (simp add: wfx_def inst_of_def)
qed

lemma link_peers:
  assumes "wfx {a} w" "w_sock w a = Some ao" "\<not> so_closing ao" "w_sock w s = Some so" "is_local so" "so_peer so = None"
    and "\<not> so_closing so" "a \<noteq> s" "so_close ao = CloseSmart \<Longrightarrow> so_transport so = None"
  shows "world_ok (w\<lparr>w_sock := (w_sock w)(s \<mapsto> so\<lparr>so_peer := Some a\<rparr>, a \<mapsto> ao\<lparr>so_peer := Some s\<rparr>)\<rparr>)"
  unfolding world_ok_def by (rule link_peers_in [OF assms]) simp_all

section \<open>New local sockets\<close>

lemma owners_ok_fresh:
  assumes "owners_ok inst sk ls" "owner_ok sk ls fd (fde_owner e)"
  shows "owners_ok (inst(fd \<mapsto> e)) sk ls"
  using assms by (simp add: owners_ok_def)

definition fresh_local :: "nat \<Rightarrow> asocket \<Rightarrow> bool" where
  "fresh_local fd so \<longleftrightarrow> so_close so = CloseLocal \<and> so_ready so = ReadyLocal \<and> so_peer so = None \<and> \<not> so_closing so \<and>
     so_transport so = None \<and> so_fd so = Some fd"

definition added_local :: "nat \<Rightarrow> nat \<Rightarrow> world \<Rightarrow> world \<Rightarrow> bool" where
  "added_local s fd w w' \<longleftrightarrow> world_ok w' \<and> same_env w w' \<and> w_sock w s = None \<and> device_tracker_list w' = device_tracker_list w \<and>
     (\<forall>x. x \<noteq> s \<longrightarrow> w_sock w' x = w_sock w x) \<and> (\<exists>so. w_sock w' s = Some so \<and> fresh_local fd so)"

lemma okA_create_local_socket:
  assumes "world_ok w" "inst_of w fd = None" "LogFatal \<in> E"
  shows "okA E (create_local_socket (Some fd)) w (\<lambda>s w'. added_local s fd w w')"
proof -
  note parts = wfx_parts [OF assms(1) [unfolded world_ok_def]]
  define s where "s = w_next_sock w"
  have s: "w_sock w s = None" using world_next [OF assms(1)] by (simp add: s_def)
  obtain c e where c: "fdevent_create (Some fd) (SocketEvent s) (w_context w) = Done c" "context_ok c"
      "fde_owner e = SocketEvent s" "map_of (installed_fdevents c) = (inst_of w)(fd \<mapsto> e)"
    using fdevent_create_ok [OF parts(3), of fd "SocketEvent s"] assms(2) by (auto simp: inst_of_def)
  define so where "so = (new_asocket EnqueueLocal ReadyLocal None CloseLocal)\<lparr>so_fd := Some fd, so_id := local_socket_next_id w, so_fde := Some fd\<rparr>"
  define w' where "w' = w\<lparr>w_next_sock := Suc s, local_socket_next_id := local_socket_next_id w + 1,
    local_socket_list := local_socket_list w @ [s], w_context := c, w_sock := (w_sock w)(s \<mapsto> so)\<rparr>"
  have so: "fresh_local fd so" "is_local so" by (simp_all add: so_def new_asocket_def fresh_local_def is_local_def)
  have shape: "shape_ok ((inst_of w)(fd \<mapsto> e)) s so"
    using c(3) by (simp add: so_def shape_ok_def new_asocket_def local_ok_def iov_inv_empty)
  have "socks_ok {s} (w_sock w') ((inst_of w)(fd \<mapsto> e)) (dom (w_transport w)) (Suc s)"
    using socks_ok_new [OF parts(1) shape [unfolded s_def]] shape_ok_fresh [of "inst_of w" _ _ fd e] assms(2) so(1)
    by (simp add: w'_def s_def fresh_local_def)
  then have "socks_ok {} (w_sock w') ((inst_of w)(fd \<mapsto> e)) (dom (w_transport w)) (Suc s)"
    using socks_ok_solo [of s "{}" "w_sock w'" "(inst_of w)(fd \<mapsto> e)" _ _ so "(inst_of w)(fd \<mapsto> e)" so] shape so
    by (simp add: w'_def fresh_local_def)
  moreover have own: "owners_ok ((inst_of w)(fd \<mapsto> e)) (w_sock w') (listener_list w)"
    using owners_ok_fresh [OF owners_ok_other [OF parts(6), of s "Some so"], of fd e] s c(3) so(2)
    by (simp add: owner_ok_def w'_def) (simp add: so_def new_asocket_def)
  moreover have "lists_ok (w_sock w') (local_socket_list w') (local_socket_closing_list w') (device_tracker_list w')"
    using parts(2) s so by (auto simp: lists_ok_def w'_def fresh_local_def)
  ultimately have "world_ok w'"
    using c(2,4) parts(4) own listeners_ok_fresh [of _ "inst_of w" _ _ fd e, OF parts(5)] assms(2)
    by (simp add: world_ok_def wfx_def w'_def inst_of_def)
  then have "added_local s fd w w'" using s so(1) by (auto simp: added_local_def w'_def same_env_def)
  then show ?thesis using assms(3) c(1)
    by (simp add: create_local_socket_def install_local_socket_def wp s_def w'_def so_def new_asocket_def)
qed

lemma added_local_sock:
  assumes "added_local s fd w w'"
  obtains so where "w_sock w' s = Some so" "is_local so" "so_peer so = None" "\<not> so_closing so" "so_transport so = None"
    "so_fd so = Some fd"
  using assms by (auto simp: added_local_def fresh_local_def is_local_def)

lemma added_local_trans:
  assumes "added_local s fd w1 w'" "quiet w w1"
  shows "added_local s fd w w'"
  using assms same_env_trans [OF same_rest_env, of w w1 w'] by (simp add: added_local_def quiet_def)

text \<open>Putting a fresh or peerless socket on a transport.\<close>

lemma world_ok_transport:
  assumes "world_ok w" "w_sock w s = Some so" "is_local so" "so_peer so = None" "\<And>t. v = Some t \<Longrightarrow> t \<in> dom (w_transport w)"
  shows "world_ok (w\<lparr>w_sock := (w_sock w)(s \<mapsto> so\<lparr>so_transport := v\<rparr>)\<rparr>)"
proof (rule world_ok_upd [OF assms(1,2)])
  show "shape_ok (inst_of w) s (so\<lparr>so_transport := v\<rparr>)"
    using world_local [OF assms(1-3)] assms(3) by (auto simp: shape_ok_def local_ok_def is_local_def split: close_fn.splits)
qed (use assms(4,5) in simp_all)

section \<open>Connecting to a service of a device\<close>

lemma UpdateReverseConfig_disconnects:
  "UpdateReverseConfig d tr = Done tr' \<Longrightarrow> t_disconnects tr' = t_disconnects tr"
  by (auto simp: UpdateReverseConfig_def Let_def split: option.splits if_splits prod.splits)

lemma UpdateReverseConfig_stops: "UpdateReverseConfig d tr = Stop e \<Longrightarrow> e = LogFatal"
  by (auto simp: UpdateReverseConfig_def Let_def split: option.splits if_splits prod.splits)

text \<open>A request to a device changes its transport and the bytes its socket may send, nothing else.\<close>

lemma okA_connect_to_remote:
  assumes "w_sock w s = Some so" "so_peer so = None" "so_transport so = Some t" "t \<in> dom (w_transport w)"
    and "LogFatal \<in> E" "CheckFailed \<in> E"
  shows "okA E (connect_to_remote s destination) w
    (\<lambda>_ w'. \<exists>v. quiet (w\<lparr>w_sock := (w_sock w)(s \<mapsto> so\<lparr>so_available_send_bytes := v\<rparr>)\<rparr>) w')"
proof -
  obtain tr where tr: "w_transport w t = Some tr" using assms(4) by auto
  show ?thesis
  proof (cases "UpdateReverseConfig destination tr")
    case (Done tr')
    define w1 where "w1 = w\<lparr>w_transport := (w_transport w)(t \<mapsto> tr')\<rparr>"
    define w2 where "w2 = (\<lambda>v. w1\<lparr>w_sock := (w_sock w)(s \<mapsto> so\<lparr>so_available_send_bytes := v\<rparr>)\<rparr>)"
    let ?w = "\<lambda>v. w\<lparr>w_sock := (w_sock w)(s \<mapsto> so\<lparr>so_available_send_bytes := v\<rparr>)\<rparr>"
    have q: "quiet (?w v) (w2 v)" for v
      using tr UpdateReverseConfig_disconnects [OF Done]
      by (auto simp: w2_def w1_def quiet_def same_rest_def disconnects_of_def)
    have send: "okA E (send_packet (packet_of c a b xs) (Some t)) (w2 v) (\<lambda>_ w'. \<exists>v. quiet (?w v) w')" for c a b xs v
      by (rule okA_mono [OF okA_send_packet]) (simp add: w2_def w1_def, blast intro: quiet_trans [OF q])
    have "w2 (so_available_send_bytes so) = w1" using assms(1) by (auto simp: w2_def w1_def fun_upd_idem)
    with send [of _ _ _ _ "so_available_send_bytes so"] send [of _ _ _ _ "Some 0"] assms tr Done show ?thesis
      by (auto simp: connect_to_remote_def wp get_max_payload_def Let_def w1_def w2_def)
  qed (use assms tr UpdateReverseConfig_stops in \<open>auto simp: connect_to_remote_def wp\<close>)
qed

lemma wfx_available:
  assumes "wfx D w" "w_sock w s = Some so"
  shows "wfx D (w\<lparr>w_sock := (w_sock w)(s \<mapsto> so\<lparr>so_available_send_bytes := v\<rparr>)\<rparr>)"
proof -
  note parts = wfx_parts [OF assms(1)]
  let ?so = "so\<lparr>so_available_send_bytes := v\<rparr>" and ?sk = "(w_sock w)(s \<mapsto> so\<lparr>so_available_send_bytes := v\<rparr>)"
  have sel: "is_local ?so = is_local so" "shape_ok inst x ?so = shape_ok inst x so" for inst x
    by (auto simp: is_local_def shape_ok_def local_ok_def split: close_fn.splits)
  have "peer_ok D ?sk x xo" if "peer_ok D (w_sock w) x xo" for x xo
    using that assms(2) sel(1) by (auto simp: peer_ok_def split: option.splits)
  moreover have "peer_ok D sk x ?so = peer_ok D sk x so" for sk x by (simp add: peer_ok_def sel split: option.split)
  ultimately have "socks_ok D ?sk (inst_of w) (dom (w_transport w)) (w_next_sock w)"
    using parts(1) assms(2) unfolding socks_ok_def by (auto simp: sel)
  then show ?thesis
    using lists_ok_same [OF parts(2) assms(2), of ?so] parts(3-5) owners_ok_upd [OF parts(6) assms(2), of ?so] socks_okD(1) [OF parts(1) assms(2)]
    by (simp add: wfx_def inst_of_def sel)
qed

section \<open>Listeners\<close>

lemma socks_ok_release:
  assumes "socks_ok D sk inst trs nx" "inst fd = Some e" "fde_owner e \<in> {ListenerEvent i, SmartListenerEvent i}"
  shows "socks_ok D sk (inst(fd := v)) trs nx"
proof -
  have "shape_ok (inst(fd := v)) x xo" if "shape_ok inst x xo" for x xo
    using that assms(2,3) by (auto simp: shape_ok_def local_ok_def split: close_fn.splits)
  with assms(1) show ?thesis unfolding socks_ok_def by blast
qed

lemma listeners_okI:
  assumes "distinct (map fst ls)" "\<And>i l. (i, l) \<in> set ls \<Longrightarrow> i < nx \<and> listener_ok inst dis i l"
    and "\<And>t ds. dis t = Some ds \<Longrightarrow> distinct ds \<and> (\<forall>i\<in>set ds. \<exists>l. (i, l) \<in> set ls \<and> l_transport l = Some t)"
  shows "listeners_ok ls inst dis nx"
  using assms unfolding listeners_ok_def by blast

lemma listeners_okD:
  assumes "listeners_ok ls inst dis nx"
  shows "distinct (map fst ls)" "(i, l) \<in> set ls \<Longrightarrow> i < nx \<and> listener_ok inst dis i l"
    "dis t = Some ds \<Longrightarrow> distinct ds" "dis t = Some ds \<Longrightarrow> j \<in> set ds \<Longrightarrow> \<exists>l. (j, l) \<in> set ls \<and> l_transport l = Some t"
  using assms unfolding listeners_ok_def by blast+

lemma in_mod_listener:
  "(j, m') \<in> set (map (\<lambda>(j, l). (j, if j = i then f l else l)) ls) \<longleftrightarrow> (\<exists>m. (j, m) \<in> set ls \<and> m' = (if j = i then f m else m))"
  by force

lemma fst_mod_listener: "map fst (map (\<lambda>(j, l). (j, if j = i then f l else l)) ls) = map fst ls"
  by (simp add: case_prod_beta)

definition drop_disconnect :: "nat \<Rightarrow> nat option \<Rightarrow> (nat \<Rightarrow> nat list option) \<Rightarrow> nat \<Rightarrow> nat list option" where
  "drop_disconnect i v dis =
     (case v of None \<Rightarrow> dis | Some t \<Rightarrow> dis(t := map_option (filter (\<lambda>j. j \<noteq> i)) (dis t)))"

lemma listeners_ok_erase:
  assumes "listeners_ok ls inst dis nx" "(i, l) \<in> set ls" "l_fde l = Some fd"
  shows "listeners_ok (filter (\<lambda>(j, _). j \<noteq> i) ls) (inst(fd := None)) (drop_disconnect i (l_transport l) dis) nx"
proof -
  have l: "listener_ok inst dis i l" using assms(1,2) unfolding listeners_ok_def by blast
  have i: "l' = l" if "(i, l') \<in> set ls" for l'
    using that assms(1,2) eq_key_imp_eq_value [of ls i l' l] by (simp add: listeners_ok_def)
  have entries: "j < nx \<and> listener_ok (inst(fd := None)) (drop_disconnect i (l_transport l) dis) j l'"
    if "(j, l') \<in> set ls" "j \<noteq> i" for j l'
  proof -
    have j: "j < nx" "listener_ok inst dis j l'" using assms(1) that(1) unfolding listeners_ok_def by blast+
    then have "l_fde l' \<noteq> Some fd" using l assms(3) that(2) by (auto simp: listener_ok_def)
    with j that(2) show ?thesis by (auto simp: listener_ok_def drop_disconnect_def split: option.split)
  qed
  have lists: "distinct ds \<and> (\<forall>j\<in>set ds. \<exists>l'. (j, l') \<in> set (filter (\<lambda>(j, _). j \<noteq> i) ls) \<and> l_transport l' = Some t)"
    if ds: "drop_disconnect i (l_transport l) dis t = Some ds" for t ds
  proof -
    obtain ds0 where d: "dis t = Some ds0" "ds = (if l_transport l = Some t then filter (\<lambda>j. j \<noteq> i) ds0 else ds0)"
      using ds by (cases "l_transport l"; cases "dis t") (auto simp: drop_disconnect_def split: if_splits)
    have old: "distinct ds0" "\<And>j. j \<in> set ds0 \<Longrightarrow> \<exists>l'. (j, l') \<in> set ls \<and> l_transport l' = Some t"
      using assms(1) d(1) unfolding listeners_ok_def by blast+
    have "j \<noteq> i" if "j \<in> set ds" for j using that d(2) old(2) [of j] i by (auto split: if_splits)
    moreover have "set ds \<subseteq> set ds0" "distinct ds" using d(2) old(1) by auto
    ultimately show ?thesis using old(2) by (simp add: case_prod_beta) blast
  qed
  have "distinct (map fst (filter (\<lambda>(j, _). j \<noteq> i) ls))"
    using assms(1) by (simp add: listeners_ok_def distinct_map_filter)
  with entries lists show ?thesis unfolding listeners_ok_def by (simp add: case_prod_beta) blast
qed

lemma owners_ok_listeners:
  assumes "owners_ok inst sk ls" "\<And>i l. map_of ls i = Some l \<Longrightarrow>
    \<exists>l'. map_of ls' i = Some l' \<and> l_fde l' = l_fde l \<and> (l_transport l \<noteq> None \<longrightarrow> l_transport l' \<noteq> None)"
  shows "owners_ok inst sk ls'"
proof -
  have "owner_ok sk ls' fd ow" if "owner_ok sk ls fd ow" for fd ow
    using that assms(2) by (cases ow) (force simp: owner_ok_def)+
  with assms(1) show ?thesis by (simp add: owners_ok_def)
qed

lemma map_of_erase: "map_of (filter (\<lambda>(j, _). j \<noteq> i) ls) k = (if k = i then None else map_of ls k)"
  by (induction ls) auto

lemma owners_ok_erase:
  assumes "owners_ok inst sk ls" "map_of ls i = Some l" "l_fde l = Some fd"
  shows "owners_ok (inst(fd := None)) sk (filter (\<lambda>(j, _). j \<noteq> i) ls)"
proof -
  have "owner_ok sk (filter (\<lambda>(j, _). j \<noteq> i) ls) fd' ow" if "owner_ok sk ls fd' ow" "fd' \<noteq> fd" for fd' ow
    using that assms(2,3) by (cases ow) (auto simp: owner_ok_def map_of_erase)
  with assms(1) show ?thesis by (auto simp: owners_ok_def)
qed

text \<open>What the operations on listeners leave as it was.\<close>

definition no_disconnects :: "atransport \<Rightarrow> atransport" where
  "no_disconnects tr = tr\<lparr>t_disconnects := []\<rparr>"

definition listeners_only :: "world \<Rightarrow> world \<Rightarrow> bool" where
  "listeners_only w w' \<longleftrightarrow> w_sock w' = w_sock w \<and> w_next_sock w' = w_next_sock w \<and>
     local_socket_list w' = local_socket_list w \<and> local_socket_closing_list w' = local_socket_closing_list w \<and>
     device_tracker_list w' = device_tracker_list w \<and> transport_list w' = transport_list w \<and>
     pending_list w' = pending_list w \<and> w_next_transport w' = w_next_transport w \<and>
     map_option no_disconnects \<circ> w_transport w' = map_option no_disconnects \<circ> w_transport w"

lemma listeners_only_refl [simp]: "listeners_only w w"
  by (simp add: listeners_only_def)

lemma listeners_only_trans: "listeners_only w w' \<Longrightarrow> listeners_only w' w'' \<Longrightarrow> listeners_only w w''"
  by (simp add: listeners_only_def)

lemma listeners_only_dom: "listeners_only w w' \<Longrightarrow> dom (w_transport w') = dom (w_transport w)"
proof -
  assume "listeners_only w w'"
  then have "map_option no_disconnects (w_transport w' t) = map_option no_disconnects (w_transport w t)" for t
    unfolding listeners_only_def by (metis comp_apply)
  then have "w_transport w' t = None \<longleftrightarrow> w_transport w t = None" for t
    by (metis option.map_disc_iff)
  then show ?thesis by (simp add: dom_def)
qed

lemma listeners_only_tr:
  assumes "w_transport w t = Some tr"
  shows "map_option no_disconnects \<circ> (w_transport w)(t \<mapsto> tr\<lparr>t_disconnects := ds\<rparr>) = map_option no_disconnects \<circ> w_transport w"
  using assms by (auto simp: no_disconnects_def)

lemma disconnects_of_set:
  "disconnects_of (w\<lparr>w_transport := (w_transport w)(t \<mapsto> tr\<lparr>t_disconnects := ds\<rparr>)\<rparr>) = (disconnects_of w)(t \<mapsto> ds)"
  by (auto simp: disconnects_of_def)

lemma listener_entry:
  assumes "world_ok w" "map_of (listener_list w) i = Some l"
  obtains fd e where "(i, l) \<in> set (listener_list w)" "l_fde l = Some fd" "inst_of w fd = Some e"
    "fde_owner e \<in> {ListenerEvent i, SmartListenerEvent i}"
    "l_connect_to l \<noteq> kSmartSocketConnectTo \<longrightarrow> l_transport l \<noteq> None"
    "\<forall>t. l_transport l = Some t \<longrightarrow> (\<exists>tr. w_transport w t = Some tr \<and> i \<in> set (t_disconnects tr))"
proof -
  have i: "(i, l) \<in> set (listener_list w)" using assms(2) by (rule map_of_SomeD)
  then have ok: "listener_ok (inst_of w) (disconnects_of w) i l"
    using wfx_parts(5) [OF assms(1) [unfolded world_ok_def]] unfolding listeners_ok_def by blast
  then obtain fd e where "l_fde l = Some fd" "inst_of w fd = Some e" "fde_owner e \<in> {ListenerEvent i, SmartListenerEvent i}"
    by (auto simp: listener_ok_def)
  moreover have "l_connect_to l \<noteq> kSmartSocketConnectTo \<longrightarrow> l_transport l \<noteq> None"
    using ok by (simp add: listener_ok_def)
  moreover have "\<forall>t. l_transport l = Some t \<longrightarrow> (\<exists>tr. w_transport w t = Some tr \<and> i \<in> set (t_disconnects tr))"
    using ok by (auto simp: listener_ok_def disconnects_of_def)
  ultimately show ?thesis by (rule that [OF i])
qed

lemma okA_erase_listener:
  assumes "world_ok w" "map_of (listener_list w) i = Some l"
  shows "okA E (erase_listener i) w (\<lambda>_ w'. world_ok w' \<and> listeners_only w w' \<and>
    listener_list w' = filter (\<lambda>(j, _). j \<noteq> i) (listener_list w))"
proof -
  note parts = wfx_parts [OF assms(1) [unfolded world_ok_def]]
  obtain fd e where l: "(i, l) \<in> set (listener_list w)" "l_fde l = Some fd" "inst_of w fd = Some e"
    "fde_owner e \<in> {ListenerEvent i, SmartListenerEvent i}" "l_connect_to l \<noteq> kSmartSocketConnectTo \<longrightarrow> l_transport l \<noteq> None"
    "\<forall>t. l_transport l = Some t \<longrightarrow> (\<exists>tr. w_transport w t = Some tr \<and> i \<in> set (t_disconnects tr))"
    by (rule listener_entry [OF assms])
  obtain c where c: "fdevent_release fd (w_context w) = Done c" "context_ok c" "map_of (installed_fdevents c) = (inst_of w)(fd := None)"
    using fdevent_release_ok [OF parts(3), of fd] l(3) by (auto simp: inst_of_def)
  have ls: "listeners_ok (filter (\<lambda>(j, _). j \<noteq> i) (listener_list w)) ((inst_of w)(fd := None))
      (drop_disconnect i (l_transport l) (disconnects_of w)) (w_next_listener w)"
    by (rule listeners_ok_erase [OF parts(5) l(1,2)])
  have sk: "socks_ok {} (w_sock w) ((inst_of w)(fd := None)) (dom (w_transport w)) (w_next_sock w)"
    by (rule socks_ok_release [OF parts(1) l(3,4)])
  note own = owners_ok_erase [OF parts(6) assms(2) l(2)]
  define w1 where "w1 = w\<lparr>listener_list := filter (\<lambda>(j, _). j \<noteq> i) (listener_list w), w_context := c\<rparr>"
  show ?thesis
  proof (cases "l_transport l")
    case None
    then have "world_ok w1 \<and> listeners_only w w1"
      using ls sk own parts c(2,3) by (simp add: world_ok_def wfx_def w1_def inst_of_def listeners_only_def drop_disconnect_def)
    with None l(2) c(1) assms(2) show ?thesis by (simp add: erase_listener_def alistener_delete_def wp w1_def)
  next
    case (Some t)
    then obtain tr where tr: "w_transport w t = Some tr" using l(6) by blast
    define w2 where "w2 = w1\<lparr>w_transport := (w_transport w1)(t \<mapsto> tr\<lparr>t_disconnects := filter (\<lambda>j. j \<noteq> i) (t_disconnects tr)\<rparr>)\<rparr>"
    have dis: "disconnects_of w2 = drop_disconnect i (l_transport l) (disconnects_of w)"
      using tr Some by (auto simp: w2_def w1_def disconnects_of_def drop_disconnect_def)
    have "dom (w_transport w2) = dom (w_transport w)" using tr by (auto simp: w2_def w1_def)
    then have "world_ok w2 \<and> listeners_only w w2"
      using ls sk own parts c(2,3) dis listeners_only_tr [OF tr]
      by (simp add: world_ok_def wfx_def w2_def w1_def inst_of_def listeners_only_def)
    with Some l(2) c(1) assms(2) tr show ?thesis
      by (simp add: erase_listener_def alistener_delete_def RemoveDisconnect_def wp w1_def w2_def)
  qed
qed

text \<open>
  While a transport runs its disconnects, its list still names listeners that are gone: the world is
  well formed if the list is cut down to those still to come.
\<close>

definition with_disconnects :: "nat \<Rightarrow> nat list \<Rightarrow> world \<Rightarrow> world" where
  "with_disconnects t ds w =
     w\<lparr>w_transport := (w_transport w)(t := map_option (\<lambda>tr. tr\<lparr>t_disconnects := ds\<rparr>) (w_transport w t))\<rparr>"

lemma with_disconnects_sel [simp]:
  "listener_list (with_disconnects t ds w) = listener_list w" "inst_of (with_disconnects t ds w) = inst_of w"
  "w_context (with_disconnects t ds w) = w_context w" "w_sock (with_disconnects t ds w) = w_sock w"
  "w_next_listener (with_disconnects t ds w) = w_next_listener w" "w_next_sock (with_disconnects t ds w) = w_next_sock w"
  by (simp_all add: with_disconnects_def inst_of_def)

lemma with_disconnects_dom [simp]: "dom (w_transport (with_disconnects t ds w)) = dom (w_transport w)"
  by (auto simp: with_disconnects_def)

lemma world_ok_disconnects:
  assumes "world_ok (with_disconnects t ds w)" "listener_list w' = ls" "context_ok (w_context w')"
    and "socks_ok {} (w_sock w) (inst_of w') (dom (w_transport w)) (w_next_sock w)"
    and "listeners_ok ls (inst_of w') (disconnects_of (with_disconnects t ds' w)) (w_next_listener w)"
    and "w' = w\<lparr>listener_list := ls, w_context := c\<rparr>" "owners_ok (inst_of w') (w_sock w) ls"
  shows "world_ok (with_disconnects t ds' w')"
proof -
  note parts = wfx_parts [OF assms(1) [unfolded world_ok_def]]
  have "disconnects_of (with_disconnects t ds' w') = disconnects_of (with_disconnects t ds' w)"
    by (simp add: assms(6) disconnects_of_def with_disconnects_def)
  moreover have "dom (w_transport (with_disconnects t ds' w')) = dom (w_transport w)"
    by (auto simp: assms(6) with_disconnects_def)
  ultimately show ?thesis using parts assms(2-5,7)
    by (simp add: world_ok_def wfx_def assms(6)) (simp add: with_disconnects_def)
qed

lemma filter_mod_listener:
  "filter (\<lambda>(j, _). j \<noteq> i) (map (\<lambda>(j, l). (j, if j = i then f l else l)) xs) = filter (\<lambda>(j, _). j \<noteq> i) xs"
  by (induction xs) auto

lemma map_of_mod_listener:
  "map_of (map (\<lambda>(j, l). (j, if j = i then f l else l)) xs) k = map_option (if k = i then f else id) (map_of xs k)"
  by (induction xs) auto

lemma okA_listener_disconnect:
  assumes "world_ok (with_disconnects t (i # is) w)" "i \<notin> set is" "w_transport w t = Some tr"
  shows "okA E (listener_disconnect i) w (\<lambda>_ w'. world_ok (with_disconnects t is w') \<and> listeners_only w w' \<and> w_transport w' = w_transport w)"
proof -
  let ?w = "with_disconnects t (i # is) w"
  note parts = wfx_parts [OF assms(1) [unfolded world_ok_def]]
  have dis: "disconnects_of ?w = (disconnects_of w)(t \<mapsto> i # is)" "disconnects_of (with_disconnects t is w) = (disconnects_of w)(t \<mapsto> is)"
    using assms(3) by (simp_all add: with_disconnects_def disconnects_of_set)
  have entry: "\<exists>l. (i, l) \<in> set (listener_list w) \<and> l_transport l = Some t" "distinct (map fst (listener_list w))"
    using parts(5) dis(1) unfolding listeners_ok_def by auto
  then obtain l where l: "map_of (listener_list w) i = Some l" "l_transport l = Some t" by force
  obtain fd e where fd: "(i, l) \<in> set (listener_list ?w)" "l_fde l = Some fd" "inst_of ?w fd = Some e"
    "fde_owner e \<in> {ListenerEvent i, SmartListenerEvent i}"
    by (rule listener_entry [OF assms(1)]) (use l(1) in simp_all)
  obtain c where c: "fdevent_release fd (w_context w) = Done c" "context_ok c" "map_of (installed_fdevents c) = (inst_of w)(fd := None)"
    using fdevent_release_ok [of "w_context w" fd] parts(3) fd(3) by (auto simp: inst_of_def)
  define ls where "ls = filter (\<lambda>(j, _). j \<noteq> i) (listener_list w)"
  define w' where "w' = w\<lparr>listener_list := ls, w_context := c\<rparr>"
  have "drop_disconnect i (Some t) (disconnects_of ?w) = disconnects_of (with_disconnects t is w)"
    using assms(2,3) dis by (auto simp: drop_disconnect_def filter_id_conv)
  then have "listeners_ok ls ((inst_of w)(fd := None)) (disconnects_of (with_disconnects t is w)) (w_next_listener w)"
    using listeners_ok_erase [OF parts(5) fd(1,2)] l(2) by (simp add: ls_def)
  moreover have "socks_ok {} (w_sock w) ((inst_of w)(fd := None)) (dom (w_transport w)) (w_next_sock w)"
    using socks_ok_release [OF parts(1) fd(3,4), of None] by simp
  moreover have "owners_ok ((inst_of w)(fd := None)) (w_sock w) ls"
    using owners_ok_erase [OF parts(6) _ fd(2)] l(1) by (simp add: ls_def)
  ultimately have "world_ok (with_disconnects t is w')"
    using c(2,3) by (intro world_ok_disconnects [OF assms(1)]) (auto simp: w'_def inst_of_def)
  then show ?thesis using l(1) fd(2) c(1)
    by (simp add: listener_disconnect_def mod_listener_def erase_listener_def alistener_delete_def wp w'_def ls_def listeners_only_def
        filter_mod_listener map_of_mod_listener)
qed

lemma okA_disconnect_loop:
  assumes "world_ok (with_disconnects t is w)" "distinct is" "w_transport w t = Some tr"
  shows "okA E (forA listener_disconnect is) w
    (\<lambda>_ w'. world_ok (with_disconnects t [] w') \<and> listeners_only w w' \<and> w_transport w' = w_transport w)"
  using assms
proof (induction "is" arbitrary: w)
  case (Cons i "is")
  have "okA E (listener_disconnect i) w (\<lambda>_ w1. okA E (forA listener_disconnect is) w1
    (\<lambda>_ w'. world_ok (with_disconnects t [] w') \<and> listeners_only w w' \<and> w_transport w' = w_transport w))"
    by (rule okA_mono [OF okA_listener_disconnect [OF Cons.prems(1) _ Cons.prems(3)]], use Cons.prems(2) in simp,
        rule okA_mono [OF Cons.IH]) (use Cons.prems listeners_only_trans in auto)
  then show ?case by (simp add: wp)
qed (simp add: wp)

lemma okA_RunDisconnects:
  assumes "world_ok w" "w_transport w t = Some tr"
  shows "okA E (RunDisconnects t) w (\<lambda>_ w'. world_ok w' \<and> listeners_only w w' \<and> disconnects_of w' t = Some [])"
proof -
  have "disconnects_of w t = Some (t_disconnects tr)" using assms(2) by (simp add: disconnects_of_def)
  then have "distinct (t_disconnects tr)"
    using wfx_parts(5) [OF assms(1) [unfolded world_ok_def]] unfolding listeners_ok_def by blast
  moreover have "with_disconnects t (t_disconnects tr) w = w" using assms(2) by (simp add: with_disconnects_def fun_upd_idem)
  ultimately have "okA E (forA listener_disconnect (t_disconnects tr)) w
      (\<lambda>_ w'. world_ok (with_disconnects t [] w') \<and> listeners_only w w' \<and> w_transport w' = w_transport w)"
    using okA_disconnect_loop [of t "t_disconnects tr" w tr] assms by simp
  moreover have "listeners_only w (with_disconnects t [] w')" if "listeners_only w w'" "w_transport w' = w_transport w" for w'
    using that assms(2) listeners_only_tr [of w' t tr "[]"] by (simp add: listeners_only_def with_disconnects_def)
  ultimately show ?thesis using assms(2)
    by (auto simp: RunDisconnects_def wp with_disconnects_def disconnects_of_def elim!: okA_mono)
qed

subsection \<open>Removing\<close>

lemma map_of_filter_other: "k \<noteq> i \<Longrightarrow> map_of (filter (\<lambda>(j, _). j \<noteq> i) xs) k = map_of xs k"
  by (induction xs) auto

lemma okA_erase_loop:
  assumes "world_ok w" "distinct (map fst ls)" "\<forall>(i, l) \<in> set ls. map_of (listener_list w) i = Some l"
  shows "okA E (forA (\<lambda>(i, l). whenA (P l) (erase_listener i)) ls) w (\<lambda>_ w'. world_ok w' \<and> listeners_only w w')"
  using assms
proof (induction ls arbitrary: w)
  case (Cons x ls)
  obtain i l where x: "x = (i, l)" by force
  have i: "map_of (listener_list w) i = Some l" using Cons.prems(3) x by simp
  have "map_of (filter (\<lambda>(j, _). j \<noteq> i) (listener_list w)) k = Some m" if "(k, m) \<in> set ls" for k m
    using that Cons.prems(2,3) x by (subst map_of_filter_other) force+
  then have rest: "okA E (forA (\<lambda>(i, l). whenA (P l) (erase_listener i)) ls) w1 (\<lambda>_ w'. world_ok w' \<and> listeners_only w w')"
    if "world_ok w1 \<and> listeners_only w w1 \<and> listener_list w1 = filter (\<lambda>(j, _). j \<noteq> i) (listener_list w)" for w1
    by (intro okA_mono [OF Cons.IH]) (use that Cons.prems(2) x listeners_only_trans [of w w1] in auto)
  have "okA E (erase_listener i) w (\<lambda>_ w1. okA E (forA (\<lambda>(i, l). whenA (P l) (erase_listener i)) ls) w1
      (\<lambda>_ w'. world_ok w' \<and> listeners_only w w'))"
    by (rule okA_mono [OF okA_erase_listener [OF Cons.prems(1) i]]) (rule rest)
  moreover have "okA E (forA (\<lambda>(i, l). whenA (P l) (erase_listener i)) ls) w (\<lambda>_ w'. world_ok w' \<and> listeners_only w w')"
    by (rule Cons.IH) (use Cons.prems in auto)
  ultimately show ?case by (simp add: wp x)
qed (simp add: wp)

lemma listener_list_distinct: "world_ok w \<Longrightarrow> distinct (map fst (listener_list w))"
  using wfx_parts(5) [of "{}" w] by (simp add: world_ok_def listeners_ok_def)

lemma listener_list_lookup:
  assumes "world_ok w"
  shows "\<forall>(i, l) \<in> set (listener_list w). map_of (listener_list w) i = Some l"
  using map_of_is_SomeI [OF listener_list_distinct [OF assms]] by blast

lemma okA_remove_all_listeners:
  assumes "world_ok w"
  shows "okA E remove_all_listeners w (\<lambda>_ w'. world_ok w' \<and> listeners_only w w')"
  using okA_erase_loop [OF assms listener_list_distinct [OF assms] listener_list_lookup [OF assms]]
  by (simp add: remove_all_listeners_def wp)

lemma okA_close_smartsockets:
  assumes "world_ok w"
  shows "okA E close_smartsockets w (\<lambda>_ w'. world_ok w' \<and> listeners_only w w')"
  using okA_erase_loop [OF assms listener_list_distinct [OF assms] listener_list_lookup [OF assms]]
  by (simp add: close_smartsockets_def wp)

lemma okA_remove_listener:
  assumes "world_ok w"
  shows "okA E (remove_listener name) w (\<lambda>_ w'. world_ok w' \<and> listeners_only w w')"
proof (cases "find (\<lambda>(i, l). l_local_name l = name) (listener_list w)")
  case (Some x)
  then have "x \<in> set (listener_list w)" by (metis find_Some_iff nth_mem)
  moreover obtain i l where x: "x = (i, l)" by force
  ultimately have "map_of (listener_list w) i = Some l" using listener_list_distinct [OF assms] by simp
  from okA_erase_listener [OF assms this, of E] show ?thesis
    by (auto simp: remove_listener_def wp Some x elim: okA_mono)
qed (simp add: remove_listener_def wp assms)

lemma okA_format_loop:
  assumes "world_ok w" "set ls \<subseteq> set (listener_list w)"
  shows "okA E (format_loop ls r) w (\<lambda>_ w'. w' = w)"
  using assms(2)
proof (induction ls arbitrary: r)
  case (Cons x ls)
  obtain i l where x: "x = (i, l)" by force
  then have "map_of (listener_list w) i = Some l" using Cons.prems listener_list_distinct [OF assms(1)] by simp
  then obtain "l_connect_to l \<noteq> kSmartSocketConnectTo \<longrightarrow> l_transport l \<noteq> None"
    "\<forall>t. l_transport l = Some t \<longrightarrow> (\<exists>tr. w_transport w t = Some tr \<and> i \<in> set (t_disconnects tr))"
    by (rule listener_entry [OF assms(1)])
  then show ?case using Cons x by (auto simp: wp isSmartSocket_def listener_line_def)
qed (simp add: wp)

lemma okA_format_listeners: "world_ok w \<Longrightarrow> okA E format_listeners w (\<lambda>_ w'. w' = w)"
  by (simp add: format_listeners_def wp okA_format_loop)

subsection \<open>Installing\<close>

lemma listeners_ok_rename:
  assumes "listeners_ok ls inst dis nx" "map_of ls i = Some l" "l_transport l \<noteq> None"
  shows "listeners_ok (map (\<lambda>(j, l). (j, if j = i then l\<lparr>l_connect_to := c\<rparr> else l)) ls) inst dis nx"
proof (rule listeners_okI, goal_cases)
  case 1
  then show ?case using listeners_okD(1) [OF assms(1)] by (simp only: fst_mod_listener)
next
  case (2 j m')
  then obtain m where m: "(j, m) \<in> set ls" "m' = (if j = i then m\<lparr>l_connect_to := c\<rparr> else m)" by (auto simp only: in_mod_listener)
  moreover have "m = l" if "j = i" using that m(1) listeners_okD(1) [OF assms(1)] assms(2) by simp
  ultimately show ?case using listeners_okD(2) [OF assms(1) m(1)] assms(3) by (auto simp: listener_ok_def)
next
  case (3 t ds)
  show ?case
  proof (intro conjI ballI)
    fix j assume "j \<in> set ds"
    then obtain m where "(j, m) \<in> set ls" "l_transport m = Some t" using listeners_okD(4) [OF assms(1) 3] by blast
    then show "\<exists>l. (j, l) \<in> set (map (\<lambda>(j, l). (j, if j = i then l\<lparr>l_connect_to := c\<rparr> else l)) ls) \<and> l_transport l = Some t"
      by (intro exI [of _ "if j = i then m\<lparr>l_connect_to := c\<rparr> else m"]) (auto simp only: in_mod_listener, simp)
  qed (rule listeners_okD(3) [OF assms(1) 3])
qed

text \<open>Moving a listener from one transport's list to another's.\<close>

lemma listeners_ok_move:
  assumes "listeners_ok ls inst dis nx" "map_of ls i = Some l" "l_transport l = Some old" "old \<noteq> new"
    and "dis old = Some d1" "dis new = Some d2"
  shows "listeners_ok (map (\<lambda>(j, l). (j, if j = i then l\<lparr>l_transport := Some new\<rparr> else l)) ls) inst
    (dis(old \<mapsto> filter (\<lambda>j. j \<noteq> i) d1, new \<mapsto> d2 @ [i])) nx"
proof -
  note old = listeners_okD [OF assms(1)]
  have key: "m = l" if "(i, m) \<in> set ls" for m using that old(1) assms(2) by simp
  have other: "j \<noteq> i" if "j \<in> set ds" "dis t = Some ds" "t \<noteq> old" for j t ds
    using old(4) [OF that(2,1)] key that(3) assms(3) by auto
  show ?thesis
  proof (rule listeners_okI, goal_cases)
    case 1
    then show ?case using old(1) by (simp only: fst_mod_listener)
  next
    case (2 j m')
    then obtain m where m: "(j, m) \<in> set ls" "m' = (if j = i then m\<lparr>l_transport := Some new\<rparr> else m)" by (auto simp only: in_mod_listener)
    with old(2) [OF m(1)] assms(4-6) show ?case by (auto simp: listener_ok_def)
  next
    case (3 t ds)
    define ds0 where "ds0 = (if t = new then d2 else if t = old then d1 else ds)"
    have ds0: "dis t = Some ds0" "set ds \<subseteq> (if t = new then insert i (set ds0) else set ds0 - {i})"
      using 3 assms(4-6) other [of _ ds t] by (auto simp: ds0_def split: if_splits)
    have "i \<notin> set d2" using other [OF _ assms(6)] assms(4) by blast
    then have "distinct ds" using 3 old(3) [OF ds0(1)] assms(4) by (auto simp: ds0_def split: if_splits)
    moreover have "\<exists>m. (j, m) \<in> set (map (\<lambda>(j, l). (j, if j = i then l\<lparr>l_transport := Some new\<rparr> else l)) ls) \<and> l_transport m = Some t"
      if j: "j \<in> set ds" for j
    proof (cases "j = i")
      case True
      then have "t = new" using ds0(2) j by (auto split: if_splits)
      then show ?thesis using True map_of_SomeD [OF assms(2)]
        by (intro exI [of _ "l\<lparr>l_transport := Some new\<rparr>"]) (auto simp only: in_mod_listener, auto)
    next
      case False
      then have "j \<in> set ds0" using ds0(2) j by (auto split: if_splits)
      then obtain m where "(j, m) \<in> set ls" "l_transport m = Some t" using old(4) [OF ds0(1)] by blast
      then show ?thesis using False by (intro exI [of _ m]) (auto simp only: in_mod_listener, auto)
    qed
    ultimately show ?case by blast
  qed
qed

text \<open>A change of the listeners and the disconnect lists only.\<close>

lemma world_ok_listeners:
  assumes "world_ok w" "listeners_only w w'" "w_context w' = w_context w"
    and "listeners_ok (listener_list w') (inst_of w) (disconnects_of w') (w_next_listener w')"
    and "owners_ok (inst_of w) (w_sock w) (listener_list w')"
  shows "world_ok w'"
  using wfx_parts [OF assms(1) [unfolded world_ok_def]] assms listeners_only_dom [OF assms(2)]
  by (simp add: world_ok_def wfx_def listeners_only_def inst_of_def)

lemma okA_rebind_listener:
  assumes "world_ok w" "map_of (listener_list w) i = Some l" "new \<in> dom (w_transport w)"
  shows "okA E (rebind_listener i l connect_to (Some new) flags) w (\<lambda>_ w'. world_ok w' \<and> listeners_only w w')"
proof (cases "isSmartSocket l \<or> flags AND INSTALL_LISTENER_NO_REBIND \<noteq> 0")
  case False
  note parts = wfx_parts [OF assms(1) [unfolded world_ok_def]]
  obtain fd e where l: "l_connect_to l \<noteq> kSmartSocketConnectTo \<longrightarrow> l_transport l \<noteq> None"
    "\<forall>t. l_transport l = Some t \<longrightarrow> (\<exists>tr. w_transport w t = Some tr \<and> i \<in> set (t_disconnects tr))"
    by (rule listener_entry [OF assms(1,2)])
  obtain old tr where old: "l_transport l = Some old" "w_transport w old = Some tr" using l False by (auto simp: isSmartSocket_def)
  obtain ntr where ntr: "w_transport w new = Some ntr" using assms(3) by auto
  define ls where "ls = map (\<lambda>(j, l). (j, if j = i then l\<lparr>l_connect_to := connect_to\<rparr> else l)) (listener_list w)"
  define w1 where "w1 = w\<lparr>listener_list := ls\<rparr>"
  have ls: "listeners_ok ls (inst_of w) (disconnects_of w) (w_next_listener w)"
    using listeners_ok_rename [OF parts(5) assms(2)] old(1) by (simp add: ls_def)
  have own: "owners_ok (inst_of w) (w_sock w) ls"
    by (rule owners_ok_listeners [OF parts(6)]) (auto simp: ls_def map_of_mod_listener)
  then have ok1: "listeners_only w w1" "world_ok w1"
    by (auto intro!: world_ok_listeners [OF assms(1)] simp: w1_def ls listeners_only_def)
  show ?thesis
  proof (cases "old = new")
    case True
    with False ok1 old(1) show ?thesis by (simp add: rebind_listener_def mod_listener_def wp w1_def ls_def)
  next
    case move: False
    have i: "map_of ls i = Some (l\<lparr>l_connect_to := connect_to\<rparr>)" using assms(2) by (simp add: ls_def map_of_mod_listener)
    define w2 where "w2 = w1\<lparr>w_transport := (w_transport w)(old \<mapsto> tr\<lparr>t_disconnects := filter (\<lambda>j. j \<noteq> i) (t_disconnects tr)\<rparr>),
      listener_list := map (\<lambda>(j, l). (j, if j = i then l\<lparr>l_transport := Some new\<rparr> else l)) ls,
      w_transport := (w_transport w)(old \<mapsto> tr\<lparr>t_disconnects := filter (\<lambda>j. j \<noteq> i) (t_disconnects tr)\<rparr>,
        new \<mapsto> ntr\<lparr>t_disconnects := t_disconnects ntr @ [i]\<rparr>)\<rparr>"
    have dis: "disconnects_of w2 = (disconnects_of w)(old \<mapsto> filter (\<lambda>j. j \<noteq> i) (t_disconnects tr), new \<mapsto> t_disconnects ntr @ [i])"
      by (auto simp: w2_def disconnects_of_def)
    have "listeners_ok (listener_list w2) (inst_of w) (disconnects_of w2) (w_next_listener w2)"
      using listeners_ok_move [OF ls i, of old new] old ntr move dis by (simp add: w2_def w1_def disconnects_of_def)
    moreover have "listeners_only w w2"
      using old(2) ntr move by (auto simp: listeners_only_def w2_def w1_def no_disconnects_def fun_eq_iff)
    moreover have "owners_ok (inst_of w) (w_sock w) (listener_list w2)"
      by (rule owners_ok_listeners [OF own]) (auto simp: w2_def map_of_mod_listener)
    ultimately have "world_ok w2 \<and> listeners_only w w2"
      by (auto intro!: world_ok_listeners [OF assms(1)] simp: w2_def w1_def)
    then show ?thesis using False old ntr move
      by (simp add: rebind_listener_def mod_listener_def RemoveDisconnect_def AddDisconnect_def wp w2_def w1_def ls_def)
  qed
qed (use assms(1) in \<open>auto simp: rebind_listener_def wp\<close>)

definition add_disconnect :: "nat \<Rightarrow> nat option \<Rightarrow> (nat \<Rightarrow> nat list option) \<Rightarrow> nat \<Rightarrow> nat list option" where
  "add_disconnect i v dis = (case v of None \<Rightarrow> dis | Some t \<Rightarrow> dis(t := map_option (\<lambda>d. d @ [i]) (dis t)))"

lemma listeners_ok_add:
  assumes "listeners_ok ls inst dis nx" "inst fd = None" "l_fde l = Some fd" "fde_owner e \<in> {ListenerEvent nx, SmartListenerEvent nx}"
    and "l_connect_to l \<noteq> kSmartSocketConnectTo \<Longrightarrow> l_transport l \<noteq> None" "\<And>t. l_transport l = Some t \<Longrightarrow> t \<in> dom dis"
  shows "listeners_ok (ls @ [(nx, l)]) (inst(fd \<mapsto> e)) (add_disconnect nx (l_transport l) dis) (Suc nx)"
proof -
  note old = listeners_okD [OF assms(1)]
  have fresh: "nx \<notin> set (map fst ls)" using old(2) by fastforce
  show ?thesis
  proof (rule listeners_okI, goal_cases)
    case 1
    then show ?case using old(1) fresh by simp
  next
    case (2 j m)
    show ?case
    proof (cases "j = nx")
      case True
      then have "m = l" using 2 fresh by force
      with True assms(3-6) show ?thesis by (auto simp: listener_ok_def add_disconnect_def)
    next
      case False
      then have "j < nx \<and> listener_ok inst dis j m" using 2 old(2) by simp
      with False assms(2) show ?thesis by (auto simp: listener_ok_def add_disconnect_def less_Suc_eq split: option.split)
    qed
  next
    case (3 t ds)
    then obtain ds0 where ds0: "dis t = Some ds0" "ds = (if l_transport l = Some t then ds0 @ [nx] else ds0)"
      by (cases "l_transport l"; cases "dis t") (auto simp: add_disconnect_def split: if_splits)
    have "nx \<notin> set ds0" using old(4) [OF ds0(1)] fresh by force
    with ds0 old(3,4) [OF ds0(1)] show ?case by force
  qed
qed

lemma okA_add_listener:
  assumes "world_ok w" "inst_of w fd = None" "connect_to \<noteq> kSmartSocketConnectTo \<Longrightarrow> transport \<noteq> None"
    and "\<And>t. transport = Some t \<Longrightarrow> t \<in> dom (w_transport w)"
  shows "okA E (add_listener fd local_name connect_to transport flags) w (\<lambda>_ w'. world_ok w' \<and> listeners_only w w')"
proof -
  note parts = wfx_parts [OF assms(1) [unfolded world_ok_def]]
  define i where "i = w_next_listener w"
  define l where "l = \<lparr>l_fde = Some fd, l_local_name = local_name, l_connect_to = connect_to, l_transport = transport\<rparr>"
  define ow where "ow = (if isSmartSocket l then SmartListenerEvent i else ListenerEvent i)"
  obtain c1 e1 where c1: "fdevent_create (Some fd) ow (w_context w) = Done c1" "context_ok c1" "fde_owner e1 = ow"
      "map_of (installed_fdevents c1) = (inst_of w)(fd \<mapsto> e1)"
    using fdevent_create_ok [OF parts(3), of fd ow] assms(2) by (auto simp: inst_of_def)
  obtain c2 where c2: "fdevent_set fd {FDE_READ} c1 = Done c2" "context_ok c2"
      "map_of (installed_fdevents c2) = (inst_of w)(fd \<mapsto> e1\<lparr>fde_state := {FDE_READ}\<rparr>)"
    using fdevent_set_ok [OF c1(2), of fd e1 "{FDE_READ}"] c1(4) by auto
  define tr where "tr = (case transport of None \<Rightarrow> w_transport w
    | Some t \<Rightarrow> (w_transport w)(t := map_option (\<lambda>tr. tr\<lparr>t_disconnects := t_disconnects tr @ [i]\<rparr>) (w_transport w t)))"
  define wn where "wn = (\<lambda>c. w\<lparr>w_next_listener := Suc i, w_context := c, w_transport := tr,
    listener_list := listener_list w @ [(i, l)]\<rparr>)"
  have dis: "disconnects_of (wn c) = add_disconnect i (l_transport l) (disconnects_of w)" for c
    by (auto simp: wn_def tr_def l_def disconnects_of_def add_disconnect_def option.map_comp comp_def split: option.split)
  have "map_option no_disconnects (tr t) = map_option no_disconnects (w_transport w t)" for t
    by (cases "w_transport w t") (auto simp: tr_def no_disconnects_def split: option.split)
  then have lo: "listeners_only w (wn c)" for c by (auto simp: listeners_only_def wn_def)
  have new: "map_of (listener_list w) i = None"
    using listeners_okD(2) [OF parts(5), of i] by (auto simp: i_def map_of_eq_None_iff)
  have own: "owners_ok (inst_of w) (w_sock w) (listener_list w @ [(i, l)])" "owner_ok (w_sock w) (listener_list w @ [(i, l)]) fd ow"
    using owners_ok_listeners [OF parts(6), of "listener_list w @ [(i, l)]"] assms(3) new
    by (auto simp: map_add_def owner_ok_def ow_def l_def isSmartSocket_def)
  have "world_ok (wn c)" if c: "context_ok c" "map_of (installed_fdevents c) = (inst_of w)(fd \<mapsto> e)" "fde_owner e = ow" for c e
  proof -
    have ls: "listeners_ok (listener_list (wn c)) (inst_of (wn c)) (disconnects_of (wn c)) (w_next_listener (wn c))"
      using listeners_ok_add [of _ "inst_of w" _ i fd l e] parts(5) assms(2-4) c(2,3) dis [of c]
      by (simp add: wn_def i_def l_def ow_def inst_of_def disconnects_dom)
    have "socks_ok {} (w_sock w) (inst_of (wn c)) (dom (w_transport w)) (w_next_sock w)"
      using parts(1) shape_ok_fresh [of "inst_of w" _ _ fd e] assms(2) c(2) by (simp add: socks_ok_def wn_def inst_of_def)
    moreover have "owners_ok (inst_of (wn c)) (w_sock w) (listener_list w @ [(i, l)])"
      using owners_ok_fresh [OF own(1), of fd e] own(2) c(2,3) by (simp add: wn_def inst_of_def)
    ultimately show ?thesis using ls c(1) parts listeners_only_dom [OF lo, of c] by (simp add: world_ok_def wfx_def wn_def)
  qed
  note ok = this [OF c1(2,4,3)] this [OF c2(2,3)]
  have last: "okA E (case transport of None \<Rightarrow> retA () | Some t \<Rightarrow> AddDisconnect t i) (w\<lparr>w_next_listener := Suc i, w_context := c\<rparr>)
      (\<lambda>_ w'. okA E (modA (\<lambda>w. w\<lparr>listener_list := listener_list w @ [(i, l)]\<rparr>)) w' (\<lambda>_ w'. world_ok w' \<and> listeners_only w w'))"
    if "world_ok (wn c)" for c
  proof (cases transport)
    case (Some t)
    then obtain x where "w_transport w t = Some x" using assms(4) by blast
    with Some that lo [of c] show ?thesis by (simp add: AddDisconnect_def wp wn_def tr_def)
  qed (use that lo [of c] in \<open>simp add: wp wn_def tr_def\<close>)
  have "okA E (add_listener fd local_name connect_to transport flags) w Q \<longleftrightarrow>
      okA E (thenA (modA (\<lambda>w. w\<lparr>w_next_listener := Suc i\<rparr>)) (thenA (on_context (fdevent_create (Some fd) ow))
       (thenA (whenA (flags AND INSTALL_LISTENER_DISABLED = 0) (on_context (fdevent_set fd {FDE_READ})))
       (thenA (case transport of None \<Rightarrow> retA () | Some t \<Rightarrow> AddDisconnect t i)
       (modA (\<lambda>w. w\<lparr>listener_list := listener_list w @ [(i, l)]\<rparr>)))))) w Q" for Q
    unfolding add_listener_def wp_bind wp_get Let_def i_def l_def ow_def by (rule refl)
  then show ?thesis using last [of c1] last [of c2] ok c1 c2(1) by (simp add: wp)
qed

lemma listen_total: "\<exists>r. socket_spec_listen n b spec = Done r"
  by (auto simp: socket_spec_listen_def listen_vsock_def Split_def split: option.split)

lemma connect_total: "\<exists>r. socket_spec_connect n spec p = Done r"
  by (auto simp: socket_spec_connect_def connect_vsock_def Split_def)

lemma world_quiet: "quiet w w' \<Longrightarrow> world_ok w' \<longleftrightarrow> world_ok w"
  by (simp add: world_ok_def quiet_wfx)

lemma okA_install_listener:
  assumes "world_ok w" "t \<in> dom (w_transport w)"
  shows "okA E (install_listener name connect_to (Some t) flags) w (\<lambda>_ w'. world_ok w' \<and> listeners_only w w')"
proof (cases "find (\<lambda>(i, l). l_local_name l = name) (listener_list w)")
  case None
  define w1 where "w1 = w\<lparr>w_net_calls := Suc (w_net_calls w)\<rparr>"
  have w1: "world_ok w1" "t \<in> dom (w_transport w1)" "listeners_only w w1" "inst_of w1 = inst_of w"
    using assms world_quiet [of w w1] by (auto simp: w1_def listeners_only_def inst_of_def)
  obtain r where r: "socket_spec_listen (c_net (w_config w) (w_net_calls w)) (c_listen_all (w_config w)) name = Done r"
    using listen_total by blast
  have "okA E (add_listener fd ln connect_to (Some t) flags) w1 (\<lambda>_ w'. world_ok w' \<and> listeners_only w w')"
    if "inst_of w fd = None" for fd ln
    by (rule okA_mono [OF okA_add_listener [OF w1(1)]]) (use that w1 listeners_only_trans in auto)
  with w1 show ?thesis
    by (auto simp: install_listener_def wp None r w1_def [symmetric] split: sum.split)
next
  case (Some x)
  then have "x \<in> set (listener_list w)" by (metis find_Some_iff nth_mem)
  moreover obtain i l where x: "x = (i, l)" by force
  ultimately have "map_of (listener_list w) i = Some l" using listener_list_distinct [OF assms(1)] by simp
  from okA_rebind_listener [OF assms(1) this assms(2), of E connect_to flags] show ?thesis
    by (auto simp: install_listener_def wp Some x elim: okA_mono)
qed

section \<open>Accepting connections\<close>

lemma okA_listener_event_func:
  assumes "world_ok w" "map_of (listener_list w) i = Some l" "l_transport l \<noteq> None"
  shows "okA {LogFatal, CheckFailed} (listener_event_func i ev) w (\<lambda>_ w'. world_ok w')"
proof -
  obtain "\<forall>t. l_transport l = Some t \<longrightarrow> (\<exists>tr. w_transport w t = Some tr \<and> i \<in> set (t_disconnects tr))"
    by (rule listener_entry [OF assms(1,2)])
  then obtain t tr where t: "l_transport l = Some t" "w_transport w t = Some tr" using assms(3) by blast
  have conn: "okA {LogFatal, CheckFailed} (thenA (mod_sock s (\<lambda>so. so\<lparr>so_transport := Some t\<rparr>)) (connect_to_remote s d)) w2 (\<lambda>_ w'. world_ok w')"
    if new: "added_local s fd w w2" for s fd w2 d
  proof -
    obtain so where so: "w_sock w2 s = Some so" "is_local so" "so_peer so = None" by (rule added_local_sock [OF new])
    have "t \<in> dom (w_transport w2)" using same_env_dom [of w w2] new t(2) by (auto simp: added_local_def)
    define so3 where "so3 = so\<lparr>so_transport := Some t\<rparr>"
    define w3 where "w3 = w2\<lparr>w_sock := (w_sock w2)(s \<mapsto> so3)\<rparr>"
    have ok: "world_ok w3" using world_ok_transport [OF _ so, of "Some t"] new \<open>t \<in> _\<close> by (simp add: w3_def so3_def added_local_def)
    have so3: "w_sock w3 s = Some so3" "so_peer so3 = None" "so_transport so3 = Some t" "t \<in> dom (w_transport w3)"
      using so \<open>t \<in> _\<close> by (simp_all add: w3_def so3_def)
    have "okA {LogFatal, CheckFailed} (connect_to_remote s d) w3 (\<lambda>_ w'. world_ok w')"
      by (rule okA_mono [OF okA_connect_to_remote [OF so3]])
        (use wfx_available [OF ok [unfolded world_ok_def] so3(1)] in \<open>auto simp: world_ok_def quiet_wfx\<close>)
    then show ?thesis using so(1) by (simp add: wp w3_def so3_def)
  qed
  let ?rest = "\<lambda>s. bindA (getA listener_list) (\<lambda>ls. case map_of ls i of
      None \<Rightarrow> stopA BadAccess
    | Some l \<Rightarrow> thenA (mod_sock s (\<lambda>so. so\<lparr>so_transport := l_transport l\<rparr>)) (connect_to_remote s (l_connect_to l)))"
  have rest: "okA {LogFatal, CheckFailed} (?rest s) w2 (\<lambda>_ w'. world_ok w')" if "added_local s fd w w2" for s fd w2
  proof -
    have "map_of (listener_list w2) i = Some l" using that assms(2) by (simp add: added_local_def same_env_def)
    then show ?thesis using conn [OF that, of "l_connect_to l"] t(1) by (simp only: wp_bind wp_get option.case)
  qed
  have acc: "okA {LogFatal, CheckFailed} (bindA (create_local_socket (Some fd)) ?rest) w1 (\<lambda>_ w'. world_ok w')"
    if "quiet w w1" "inst_of w1 fd = None" for w1 fd
  proof -
    have "okA {LogFatal, CheckFailed} (create_local_socket (Some fd)) w1 (\<lambda>s w2. added_local s fd w1 w2)"
      by (rule okA_create_local_socket) (use that assms(1) world_quiet in auto)
    then show ?thesis unfolding wp_bind [of _ "create_local_socket (Some fd)"]
      by (rule okA_mono) (rule rest [OF added_local_trans [OF _ that(1)]])
  qed
  have "okA {LogFatal, CheckFailed} (bindA new_fd (\<lambda>fd. if fd = None then retA () else bindA (create_local_socket fd) ?rest)) w
      (\<lambda>_ w'. world_ok w')"
    unfolding wp_bind [of _ new_fd]
  proof (rule okA_mono [OF okA_new_fd], goal_cases)
    case (1 r w1)
    then show ?case using acc [of w1] assms(1) world_quiet [of w w1] by (cases r) (simp_all add: wp_ret)
  qed
  then show ?thesis using assms(1) by (cases "FDE_READ \<in> ev") (simp_all add: listener_event_func_def wp_ret)
qed

end
