(* ===== verification/Device_Safety.thy ===== *)
theory Device_Safety
  imports Connect_Safety Device
begin

text \<open>
  Memory safety of the packets a device sends (\<^verbatim>\<open>handle_packet\<close> of \<^verbatim>\<open>adb/adb.cpp\<close>) and of a device going
  offline, for any \<^verbatim>\<open>enqueue\<close> that keeps the contract of \<^verbatim>\<open>peer_sink\<close>.
\<close>

section \<open>Finding a socket\<close>

lemma okA_find_local_loop:
  assumes "world_ok w" "set ss \<subseteq> set (local_socket_list w)"
  shows "okA E (find_local_loop ss lid pid) w (\<lambda>r w'. w' = w \<and>
    (\<forall>s. r = Some s \<longrightarrow> s \<in> set ss \<and> (pid \<noteq> 0 \<longrightarrow> (\<forall>so. w_sock w s = Some so \<longrightarrow> so_peer so \<noteq> None))))"
  using assms(2)
proof (induction ss)
  case (Cons s ss)
  then have "s \<in> set (local_socket_list w)" by simp
  then obtain so where so: "w_sock w s = Some so" using world_lists(2) [OF assms(1)] by blast
  have IH: "okA E (find_local_loop ss lid pid) w (\<lambda>r w'. w' = w \<and>
    (\<forall>s'. r = Some s' \<longrightarrow> s' \<in> set (s # ss) \<and> (pid \<noteq> 0 \<longrightarrow> (\<forall>so. w_sock w s' = Some so \<longrightarrow> so_peer so \<noteq> None))))"
    by (rule okA_mono [OF Cons.IH]) (use Cons.prems in auto)
  show ?case
  proof (cases "so_peer so")
    case None
    with so IH show ?thesis by (auto simp: wp)
  next
    case (Some p)
    then obtain po where "w_sock w p = Some po" using world_peer [OF assms(1) so] by metis
    with Some so IH show ?thesis by (auto simp: wp)
  qed
qed (simp add: wp)

lemma okA_find_local_socket:
  assumes "world_ok w"
  shows "okA E (find_local_socket lid pid) w (\<lambda>r w'. w' = w \<and> (\<forall>s. r = Some s \<longrightarrow>
    (\<exists>so. w_sock w s = Some so \<and> is_local so \<and> \<not> so_closing so \<and> (pid \<noteq> 0 \<longrightarrow> so_peer so \<noteq> None))))"
proof -
  have "okA E (find_local_loop (local_socket_list w) lid pid) w (\<lambda>r w'. w' = w \<and> (\<forall>s. r = Some s \<longrightarrow>
      (\<exists>so. w_sock w s = Some so \<and> is_local so \<and> \<not> so_closing so \<and> (pid \<noteq> 0 \<longrightarrow> so_peer so \<noteq> None))))"
    by (rule okA_mono [OF okA_find_local_loop [OF assms subset_refl]]) (use world_lists(2) [OF assms] in blast)
  then show ?thesis by (simp add: find_local_socket_def wp)
qed

section \<open>Steps on the transport\<close>

lemma okA_mod_tr_quiet:
  assumes "w_transport w t = Some tr" "t_disconnects (f tr) = t_disconnects tr"
  shows "okA E (mod_tr t f) w (\<lambda>_ w'. quiet w w')"
  using assms quiet_transport [OF assms(1)] by (simp add: wp)

lemma quiet_dom: "quiet w w' \<Longrightarrow> dom (w_transport w') = dom (w_transport w)"
  using same_rest_dom [of w w'] by (simp add: quiet_def)

text \<open>Attaching a new remote socket to a local one.\<close>

lemma okA_attach_remote:
  assumes "world_ok w" "w_sock w s = Some so" "is_local so" "so_peer so = None" "\<not> so_closing so"
    and "t \<in> dom (w_transport w)" "i \<noteq> 0"
    and rest: "\<And>p w'. world_ok w' \<Longrightarrow> same_env w w' \<Longrightarrow> w_sock w' s = Some (so\<lparr>so_peer := Some p\<rparr>) \<Longrightarrow> okA E (m p) w' Q"
  shows "okA E (bindA (create_remote_socket i t) (\<lambda>p.
    thenA (mod_sock s (\<lambda>so. so\<lparr>so_peer := Some p\<rparr>)) (thenA (mod_sock p (\<lambda>po. po\<lparr>so_peer := Some s\<rparr>)) (m p)))) w Q"
proof -
  define p where "p = w_next_sock w"
  define po where "po = (new_asocket EnqueueRemote ReadyRemote (Some ShutdownRemote) CloseRemote)\<lparr>so_id := i, so_transport := Some t\<rparr>"
  define w1 where "w1 = w\<lparr>w_sock := (w_sock w)(p \<mapsto> po), w_next_sock := Suc p\<rparr>"
  have po: "so_close po = CloseRemote" "so_transport po = Some t" "\<not> so_closing po" "shape_ok inst x po" for inst x
    by (simp_all add: po_def new_asocket_def shape_ok_def)
  have ps: "p \<noteq> s" using world_next [OF assms(1)] assms(2) by (auto simp: p_def)
  have "wfx {p} w1"
    using wfx_new [OF assms(1) po(4)] po assms(6) by (simp add: w1_def p_def)
  then have ok: "world_ok (w1\<lparr>w_sock := (w_sock w1)(s \<mapsto> so\<lparr>so_peer := Some p\<rparr>, p \<mapsto> po\<lparr>so_peer := Some s\<rparr>)\<rparr>)"
    by (rule link_peers) (use assms po ps in \<open>simp_all add: w1_def\<close>)
  define w2 where "w2 = w1\<lparr>w_sock := (w_sock w1)(s \<mapsto> so\<lparr>so_peer := Some p\<rparr>, p \<mapsto> po\<lparr>so_peer := Some s\<rparr>)\<rparr>"
  have "okA E (m p) w2 Q"
    by (rule rest) (use ok ps in \<open>simp_all add: w2_def w1_def same_env_def disconnects_of_def\<close>)
  then show ?thesis using assms(2,7) ps
    by (simp add: create_remote_socket_def wp w2_def w1_def p_def [symmetric] po_def [symmetric])
qed

section \<open>Going offline\<close>

text \<open>Sockets that have nothing to do with transport \<open>t\<close> stay, but for bytes that are written.\<close>

definition kept :: "nat \<Rightarrow> world \<Rightarrow> world \<Rightarrow> bool" where
  "kept t w w' \<longleftrightarrow> (\<forall>x xo. w_sock w x = Some xo \<longrightarrow> clear_of t w xo \<longrightarrow> (\<exists>xo'. w_sock w' x = Some xo' \<and> flushed_to xo xo'))"

text \<open>No socket that is not closing, and no listener, is on transport \<open>t\<close>.\<close>

definition deserted :: "nat \<Rightarrow> world \<Rightarrow> bool" where
  "deserted t w \<longleftrightarrow> (\<forall>s so. w_sock w s = Some so \<longrightarrow> \<not> so_closing so \<longrightarrow> so_transport so \<noteq> Some t) \<and>
     (\<forall>i l. (i, l) \<in> set (listener_list w) \<longrightarrow> l_transport l \<noteq> Some t)"

lemma alike_clear:
  assumes "alike w w'" "clear_of t w xo" "flushed_to xo xo'"
  shows "clear_of t w' xo'"
  unfolding clear_of_def
proof (intro conjI allI impI)
  show "so_transport xo' \<noteq> Some t" using assms(2) flushed_to_sel(6) [OF assms(3)] by (simp add: clear_of_def)
  fix p po'
  assume p: "so_peer xo' = Some p" "w_sock w' p = Some po'"
  have "rel_option flushed_to (w_sock w p) (Some po')" using assms(1) p(2) unfolding alike_def by metis
  then obtain po where po: "w_sock w p = Some po" "flushed_to po po'" by (auto simp: option_rel_Some2)
  then show "so_transport po' \<noteq> Some t"
    using assms(2) p(1) flushed_to_sel(2) [OF assms(3)] flushed_to_sel(6) [OF po(2)] by (simp add: clear_of_def)
qed

lemma off_transport:
  assumes "world_ok w" "\<forall>s\<in>set (local_socket_list w). \<forall>so. w_sock w s = Some so \<longrightarrow> clear_of t w so"
    and "w_sock w s = Some so" "\<not> so_closing so"
  shows "so_transport so \<noteq> Some t"
proof (cases "is_local so")
  case True
  then show ?thesis using assms world_lists(2) [OF assms(1), of s] by (auto simp: clear_of_def)
next
  case False
  then obtain p where "so_peer so = Some p"
    using socks_okD(2) [OF wfx_parts(1) [OF assms(1) [unfolded world_ok_def]] assms(3)] by (auto simp: peer_ok_def split: option.splits)
  then obtain po where p: "w_sock w p = Some po" "so_peer po = Some s" "is_local po"
    using world_peer [OF assms(1,3)] False by metis
  then have "\<not> so_closing po" using world_peer [OF assms(1) p(1,2)] by metis
  then show ?thesis using assms(2,3) p world_lists(2) [OF assms(1), of p] by (auto simp: clear_of_def)
qed

lemma listeners_gone:
  assumes "world_ok w" "disconnects_of w t = Some []" "(i, l) \<in> set (listener_list w)"
  shows "l_transport l \<noteq> Some t"
  using listeners_okD(2) [OF wfx_parts(5) [OF assms(1) [unfolded world_ok_def]] assms(3)] assms(2) by (auto simp: listener_ok_def)

lemma kept_refl [simp]: "kept t w w"
  by (simp add: kept_def)

lemma kept_trans_others:
  assumes "alike w w1" "w_sock w2 = w_sock w1" "others_kept t w2 w3" "w_sock w4 = w_sock w3"
  shows "kept t w w4"
  unfolding kept_def
proof (intro allI impI)
  fix x xo
  assume x: "w_sock w x = Some xo" "clear_of t w xo"
  obtain xo' where x': "w_sock w1 x = Some xo'" "flushed_to xo xo'" using assms(1) x(1) by (rule alikeD)
  then have "clear_of t w2 xo'" using alike_clear [OF assms(1) x(2) x'(2)] assms(2) by (simp add: clear_of_def)
  with x' assms(2,3,4) show "\<exists>xo'. w_sock w4 x = Some xo' \<and> flushed_to xo xo'" by (auto simp: others_kept_def)
qed

text \<open>What the lists and the heap of transports keep while a device goes offline.\<close>

definition same_transports :: "world \<Rightarrow> world \<Rightarrow> bool" where
  "same_transports w w' \<longleftrightarrow> dom (w_transport w') = dom (w_transport w) \<and> transport_list w' = transport_list w \<and>
     pending_list w' = pending_list w \<and> w_next_transport w' = w_next_transport w"

lemma same_transports_refl [simp]: "same_transports w w"
  by (simp add: same_transports_def)

lemma same_transports_trans: "same_transports w w' \<Longrightarrow> same_transports w' w'' \<Longrightarrow> same_transports w w''"
  by (simp add: same_transports_def)

lemma same_transports_in: "same_transports w w' \<Longrightarrow> t \<in> dom (w_transport w) \<Longrightarrow> t \<in> dom (w_transport w')"
  by (simp add: same_transports_def)

lemma same_rest_transports: "same_rest w w' \<Longrightarrow> same_transports w w'"
  using same_rest_dom [of w w'] by (simp add: same_transports_def same_rest_def)

lemma listeners_only_transports: "listeners_only w w' \<Longrightarrow> same_transports w w'"
  using listeners_only_dom [of w w'] by (simp add: same_transports_def listeners_only_def)

lemma same_env_transports: "same_env w w' \<Longrightarrow> same_transports w w'"
  using same_env_dom [of w w'] by (simp add: same_transports_def same_env_def)

lemma quiet_transports: "quiet w w' \<Longrightarrow> same_transports w w'"
  using same_rest_transports [of w w'] by (simp add: quiet_def)

definition offline_post :: "nat \<Rightarrow> bool \<Rightarrow> world \<Rightarrow> world \<Rightarrow> bool" where
  "offline_post t was_offline w w' \<longleftrightarrow> world_ok w' \<and> same_transports w w' \<and> kept t w w' \<and> (\<not> was_offline \<longrightarrow> deserted t w')"

section \<open>Services\<close>

lemma okA_service_to_fd: "okA E (service_to_fd name) w (\<lambda>r w'. quiet w w' \<and> (\<forall>fd. r = Some fd \<longrightarrow> inst_of w' fd = None))"
proof (cases "is_socket_spec name")
  case True
  obtain r where r: "socket_spec_connect (c_net (w_config w) (w_net_calls w)) name 0 = Done r" using connect_total by blast
  show ?thesis using True r by (auto simp: service_to_fd_def wp inst_of_def split: option.splits)
qed (simp add: service_to_fd_def wp)

lemma okA_create_service:
  assumes "world_ok w" "t \<in> dom (w_transport w)" "LogFatal \<in> E"
  shows "okA E (create_local_service_socket name t) w (\<lambda>r w'. world_ok w' \<and> same_transports w w' \<and>
    (\<forall>s. r = Some s \<longrightarrow> (\<exists>so. w_sock w' s = Some so \<and> is_local so \<and> so_peer so = None \<and> \<not> so_closing so)))"
  unfolding create_local_service_socket_def wp_bind
proof (rule okA_mono [OF okA_service_to_fd], goal_cases)
  case (1 r w1)
  then have w1: "world_ok w1" "same_transports w w1" using quiet_ok assms(1) quiet_transports by blast+
  show ?case
  proof (cases r)
    case (Some fd)
    have "okA E (create_local_socket (Some fd)) w1 (\<lambda>s w2. okA E
        (thenA (mod_sock s (\<lambda>so. so\<lparr>so_transport := Some t\<rparr>)) (retA (Some s))) w2 (\<lambda>r w'. world_ok w' \<and> same_transports w w' \<and>
      (\<forall>s. r = Some s \<longrightarrow> (\<exists>so. w_sock w' s = Some so \<and> is_local so \<and> so_peer so = None \<and> \<not> so_closing so))))"
    proof (rule okA_mono [OF okA_create_local_socket [OF w1(1) _ assms(3)]])
      show "inst_of w1 fd = None" using 1 Some by simp
    next
      fix s w2
      assume new: "added_local s fd w1 w2"
      obtain so where so: "w_sock w2 s = Some so" "is_local so" "so_peer so = None" "\<not> so_closing so"
        using new by (auto simp: added_local_def fresh_local_def is_local_def)
      have t2: "same_transports w w2"
        using new same_transports_trans [OF w1(2) same_env_transports] by (simp add: added_local_def)
      have "world_ok (w2\<lparr>w_sock := (w_sock w2)(s \<mapsto> so\<lparr>so_transport := Some t\<rparr>)\<rparr>)"
        by (rule world_ok_transport) (use new so same_transports_in [OF t2 assms(2)] in \<open>auto simp: added_local_def\<close>)
      with so t2 show "okA E (thenA (mod_sock s (\<lambda>so. so\<lparr>so_transport := Some t\<rparr>)) (retA (Some s))) w2
          (\<lambda>r w'. world_ok w' \<and> same_transports w w' \<and>
          (\<forall>s. r = Some s \<longrightarrow> (\<exists>so. w_sock w' s = Some so \<and> is_local so \<and> so_peer so = None \<and> \<not> so_closing so)))"
        by (simp add: wp same_transports_def is_local_def)
    qed
    with Some show ?thesis by (simp add: wp_bind)
  qed (use w1 in \<open>simp add: wp\<close>)
qed

section \<open>Banners\<close>

lemma banner_prop_ok: "\<exists>y. banner_prop e p x = Done y \<and> t_disconnects y = t_disconnects x"
  by (auto simp: banner_prop_def Split_def SetFeatures_def Let_def)

lemma banner_props_ok: "\<exists>y. banner_props e ps x = Done y \<and> t_disconnects y = t_disconnects x"
proof (induction ps arbitrary: x)
  case (Cons p ps)
  obtain y where "banner_prop e p x = Done y" "t_disconnects y = t_disconnects x" using banner_prop_ok by blast
  with Cons [of y] show ?case by auto
qed simp

lemma banner_fields_ok: "\<exists>y. banner_fields e pieces x = Done y \<and> t_disconnects y = t_disconnects x"
proof (cases "length pieces > 2")
  case True
  obtain y where "banner_props e (split_loop '';'' (pieces ! 2)) (SetFeatures e [] x) = Done y" "t_disconnects y = t_disconnects (SetFeatures e [] x)"
    using banner_props_ok by blast
  with True show ?thesis by (simp add: banner_fields_def Let_def Split_def) (simp add: SetFeatures_def Let_def)
qed (simp add: banner_fields_def SetFeatures_def Let_def)

section \<open>Packets\<close>

text \<open>The ways a packet can stop the server: a malformed one, a device that asks for what it may not have, or no key.\<close>

definition packet_stops :: "apacket \<Rightarrow> stop set" where
  "packet_stops p =
     (if length (p_payload p) \<noteq> unat (m_data_length (p_msg p)) then {CheckFailed}
      else if m_command (p_msg p) = A_AUTH then {CheckFailed}
      else if m_command (p_msg p) = A_OPEN then (if CHR 0x00 \<in> set (p_payload p) then {LogFatal} else {OutOfRange})
      else {})"

context peer_sink
begin

lemma okA_handle_offline:
  assumes "world_ok w" "w_transport w t = Some tr"
  shows "okA E (handle_offline enq t) w (\<lambda>_ w'. offline_post t (t_state tr = kCsOffline) w w')"
proof (cases "t_state tr = kCsOffline")
  case False
  have disc: "okA E (RunDisconnects t) w3 (\<lambda>_ w'. offline_post t False w w')"
    if a: "world_ok w1" "same_rest w w1" "alike w w1" "quiet w1 w2" "world_ok w3" "others_kept t w2 w3"
      "\<forall>s\<in>set (local_socket_list w3). \<forall>so. w_sock w3 s = Some so \<longrightarrow> clear_of t w3 so" for w1 w2 w3
  proof -
    have t3: "same_transports w w3"
      using same_transports_trans [OF same_transports_trans [OF same_rest_transports [OF a(2)] quiet_transports [OF a(4)]]]
        same_rest_transports [of w2 w3] a(6) by (simp add: others_kept_def)
    then have "t \<in> dom (w_transport w3)" using assms(2) by (auto simp: same_transports_def)
    then obtain tr3 where tr3: "w_transport w3 t = Some tr3" by blast
    show ?thesis
    proof (rule okA_mono [OF okA_RunDisconnects [OF a(5) tr3]], goal_cases)
      case (1 _ w4)
      then have w4: "world_ok w4" "listeners_only w3 w4" "disconnects_of w4 t = Some []" "w_sock w4 = w_sock w3"
        by (simp_all add: listeners_only_def)
      have "deserted t w4"
        using off_transport [OF a(5,7)] listeners_gone [OF w4(1,3)] w4(4) by (auto simp: deserted_def)
      moreover have "kept t w w4" using kept_trans_others [OF a(3) quiet_sock [OF a(4)] a(6) w4(4)] .
      ultimately show ?case
        using w4(1) same_transports_trans [OF t3 listeners_only_transports [OF w4(2)]] by (simp add: offline_post_def)
    qed
  qed
  have "okA E (thenA (mod_tr t (\<lambda>tr. tr\<lparr>t_online := False\<rparr>)) (thenA (close_all_sockets t) (RunDisconnects t))) w1
      (\<lambda>_ w'. offline_post t False w w')"
    if a: "world_ok w1" "same_rest w w1" "alike w w1" for w1
  proof -
    have "t \<in> dom (w_transport w1)" using same_rest_dom [OF a(2)] assms(2) by auto
    then obtain tr1 where tr1: "w_transport w1 t = Some tr1" by blast
    have close: "okA E (close_all_sockets t) w2 (\<lambda>_ w3. okA E (RunDisconnects t) w3 (\<lambda>_ w'. offline_post t False w w'))"
      if "quiet w1 w2" for w2
    proof (rule okA_mono [OF okA_close_all_sockets [OF quiet_ok [OF that a(1)]]], goal_cases)
      case (1 _ w3)
      then show ?case using disc [OF a that, of w3] by blast
    qed
    show ?thesis unfolding wp_then by (rule okA_mono [OF okA_mod_tr_quiet [OF tr1]]) (simp, rule close)
  qed
  then have "okA E (SetConnectionState enq t kCsOffline) w (\<lambda>_ w1. okA E
      (thenA (mod_tr t (\<lambda>tr. tr\<lparr>t_online := False\<rparr>)) (thenA (close_all_sockets t) (RunDisconnects t))) w1
      (\<lambda>_ w'. offline_post t False w w'))"
    by (intro okA_mono [OF okA_SetConnectionState [OF assms(1)]]) (use assms(2) in blast)+
  with False assms(2) show ?thesis by (simp add: handle_offline_def wp_bind wp_deref_tr wp_then)
qed (use assms in \<open>simp add: handle_offline_def wp offline_post_def\<close>)

text \<open>A chain of steps that keep the world well formed and the transports in place.\<close>

lemma okA_quiet_then:
  assumes "world_ok w" "okA E m w (\<lambda>_ w'. quiet w w')"
  shows "okA E m w (\<lambda>_ w'. world_ok w' \<and> same_transports w w')"
  by (rule okA_mono [OF assms(2)]) (use assms(1) quiet_ok [of w] quiet_transports [of w] in simp)

lemma okA_state_then:
  assumes "world_ok w" "t \<in> dom (w_transport w)"
  shows "okA E (SetConnectionState enq t st) w (\<lambda>_ w'. world_ok w' \<and> same_transports w w')"
  by (rule okA_mono [OF okA_SetConnectionState [OF assms]]) (use same_rest_transports [of w] in simp)

lemma okA_offline_then:
  assumes "world_ok w" "t \<in> dom (w_transport w)"
  shows "okA E (handle_offline enq t) w (\<lambda>_ w'. world_ok w' \<and> same_transports w w')"
proof -
  obtain tr where "w_transport w t = Some tr" using assms(2) by blast
  then show ?thesis by (intro okA_mono [OF okA_handle_offline [OF assms(1)]]) (auto simp: offline_post_def)
qed

lemma okA_tr_then:
  assumes "world_ok w" "t \<in> dom (w_transport w)" "\<And>tr. t_disconnects (f tr) = t_disconnects tr"
  shows "okA E (mod_tr t f) w (\<lambda>_ w'. world_ok w' \<and> same_transports w w')"
proof -
  obtain tr where "w_transport w t = Some tr" using assms(2) by blast
  then show ?thesis using assms(3) by (intro okA_quiet_then [OF assms(1)] okA_mod_tr_quiet)
qed

lemma okA_send_then:
  assumes "world_ok w" "t \<in> dom (w_transport w)"
  shows "okA E (send_packet (packet_of c a b xs) (Some t)) w (\<lambda>_ w'. world_ok w' \<and> same_transports w w')"
  by (rule okA_quiet_then [OF assms(1) okA_send_packet]) (use assms(2) in auto)

lemma okA_seq:
  assumes "okA E m w (\<lambda>_ w'. world_ok w' \<and> same_transports w w')"
    and "\<And>w'. world_ok w' \<Longrightarrow> same_transports w w' \<Longrightarrow> okA E n w' (\<lambda>_ w''. world_ok w'' \<and> same_transports w' w'')"
  shows "okA E (thenA m n) w (\<lambda>_ w''. world_ok w'' \<and> same_transports w w'')"
  unfolding wp_then
proof (rule okA_mono [OF assms(1)], goal_cases)
  case (1 _ w')
  then have "okA E n w' (\<lambda>_ w''. world_ok w'' \<and> same_transports w' w'')" by (intro assms(2)) simp_all
  then show ?case by (rule okA_mono) (use 1 same_transports_trans [of w w'] in simp)
qed

lemma okA_parse_banner:
  assumes "world_ok w" "t \<in> dom (w_transport w)"
  shows "okA E (parse_banner enq banner t) w (\<lambda>_ w'. world_ok w' \<and> same_transports w w')"
proof -
  obtain tr where tr: "w_transport w t = Some tr" using assms(2) by blast
  obtain pieces where p: "Split banner '':'' = Done pieces" by (simp add: Split_def)
  obtain tr' where tr': "banner_fields (c_env (w_config w)) pieces tr = Done tr'" "t_disconnects tr' = t_disconnects tr"
    using banner_fields_ok by blast
  have "okA E (thenA (mod_tr t (\<lambda>_. tr')) (SetConnectionState enq t (banner_state (pieces ! 0)))) w
      (\<lambda>_ w'. world_ok w' \<and> same_transports w w')"
    by (rule okA_seq [OF okA_quiet_then [OF assms(1) okA_mod_tr_quiet [OF tr]] okA_state_then])
      (use tr' assms(2) in \<open>auto simp: same_transports_def\<close>)
  with p tr tr'(1) show ?thesis by (simp add: parse_banner_def wp_bind wp_lift wp_deref_tr wp_get)
qed

lemma okA_handle_online:
  assumes "world_ok w" "t \<in> dom (w_transport w)"
  shows "okA E (handle_online t) w (\<lambda>_ w'. world_ok w' \<and> same_transports w w')"
  unfolding handle_online_def by (rule okA_tr_then [OF assms]) (simp add: SetConnectionEstablished_def)

lemma okA_new_connection:
  assumes "world_ok w" "t \<in> dom (w_transport w)"
  shows "okA E (handle_new_connection enq t p) w (\<lambda>_ w'. world_ok w' \<and> same_transports w w')"
  unfolding handle_new_connection_def
  by (intro okA_seq okA_offline_then okA_tr_then okA_parse_banner okA_handle_online)
    (use assms in \<open>auto simp: same_transports_def update_version_def\<close>)

lemma okA_NextKey:
  assumes "world_ok w" "t \<in> dom (w_transport w)" "CheckFailed \<in> E"
  shows "okA E (NextKeyA t) w (\<lambda>_ w'. world_ok w' \<and> same_transports w w')"
proof -
  obtain tr where tr: "w_transport w t = Some tr" using assms(2) by blast
  have "okA E (mod_tr t (\<lambda>_. tr\<lparr>t_keys := ks\<rparr>)) w (\<lambda>_ w'. world_ok w' \<and> same_transports w w')" for ks
    by (rule okA_quiet_then [OF assms(1) okA_mod_tr_quiet [OF tr]]) simp
  with tr assms(3) show ?thesis
    by (auto simp: NextKeyA_def NextKey_def checkR_def Let_def wp_bind wp_deref_tr wp_get wp_lift wp_then wp_ret)
qed

lemma okA_auth_publickey:
  assumes "world_ok w" "t \<in> dom (w_transport w)"
  shows "okA E (send_auth_publickey t) w (\<lambda>_ w'. world_ok w' \<and> same_transports w w')"
  using okA_send_then [OF assms] assms(1) by (simp add: send_auth_publickey_def wp)

lemma okA_auth_response:
  assumes "world_ok w" "t \<in> dom (w_transport w)" "CheckFailed \<in> E"
  shows "okA E (send_auth_response enq token t) w (\<lambda>_ w'. world_ok w' \<and> same_transports w w')"
  unfolding send_auth_response_def wp_bind
proof (rule okA_mono [OF okA_NextKey [OF assms]], goal_cases)
  case (1 key w1)
  then have w1: "world_ok w1" "same_transports w w1" "t \<in> dom (w_transport w1)" using assms(2) by (simp_all add: same_transports_def)
  have none: "okA E (thenA (SetConnectionState enq t kCsUnauthorized)
      (thenA (mod_tr t (SetConnectionEstablished True)) (send_auth_publickey t))) w1 (\<lambda>_ w'. world_ok w' \<and> same_transports w1 w')"
    by (intro okA_seq okA_state_then okA_tr_then okA_auth_publickey)
      (use w1 in \<open>auto simp: same_transports_def SetConnectionEstablished_def\<close>)
  have some: "okA E (bindA (getA f) (\<lambda>result. if result = [] then retA ()
      else send_packet (packet_of A_AUTH ADB_AUTH_SIGNATURE 0 result) (Some t))) w1 (\<lambda>_ w'. world_ok w' \<and> same_transports w1 w')" for f
    using okA_send_then [OF w1(1,3)] w1(1) by (simp add: wp)
  show ?case
    by (rule okA_mono [of _ _ _ "\<lambda>_ w'. world_ok w' \<and> same_transports w1 w'"])
      (use none some w1 same_transports_trans [of w w1] in \<open>auto split: option.split\<close>)
qed

lemma okA_handle_auth:
  assumes "world_ok w" "t \<in> dom (w_transport w)" "CheckFailed \<in> E"
  shows "okA E (handle_auth enq p t) w (\<lambda>_ w'. world_ok w' \<and> same_transports w w')"
proof -
  obtain tr where tr: "w_transport w t = Some tr" using assms(2) by blast
  have a: "okA E (thenA (whenA b (SetConnectionState enq t kCsAuthorizing)) (send_auth_response enq tok t)) w
      (\<lambda>_ w'. world_ok w' \<and> same_transports w w')" for b tok
  proof (rule okA_seq)
    show "okA E (whenA b (SetConnectionState enq t kCsAuthorizing)) w (\<lambda>_ w'. world_ok w' \<and> same_transports w w')"
      using assms(1) okA_state_then [OF assms(1,2)] by (simp add: wp_when)
  qed (use assms same_transports_in in \<open>blast intro: okA_auth_response\<close>)
  have b: "okA E (thenA (SetConnectionState enq t kCsOffline) (handle_offline enq t)) w (\<lambda>_ w'. world_ok w' \<and> same_transports w w')"
    by (intro okA_seq okA_state_then okA_offline_then) (use assms in \<open>auto simp: same_transports_def\<close>)
  from a b assms(1) tr show ?thesis by (simp add: handle_auth_def wp_bind wp_deref_tr wp_ret)
qed

lemma okA_handle_close:
  assumes "world_ok w" "t \<in> dom (w_transport w)"
  shows "okA E (handle_close p t) w (\<lambda>_ w'. world_ok w' \<and> same_transports w w')"
proof -
  obtain tr where tr: "w_transport w t = Some tr" using assms(2) by blast
  have close: "okA E (sock_close s) w (\<lambda>_ w'. world_ok w' \<and> same_transports w w')" if "w_sock w s = Some so" for s so
    by (rule okA_mono [OF okA_sock_close [OF assms(1) that]]) (use same_rest_transports [of w] in \<open>simp add: closed_def same_but_def\<close>)
  have peer: "\<exists>po. w_sock w q = Some po" if "w_sock w s = Some so" "so_peer so = Some q" for s so q
    using world_peer [OF assms(1) that] by metis
  have body: "okA E (case found of None \<Rightarrow> retA () | Some s \<Rightarrow>
      bindA (deref_sock s) (\<lambda>so. bindA (case so_peer so of None \<Rightarrow> retA False
        | Some pr \<Rightarrow> bindA (deref_sock pr) (\<lambda>po. retA (a = 0 \<and> so_transport po \<noteq> Some t))) (\<lambda>foreign.
        if foreign then retA () else sock_close s))) w (\<lambda>_ w'. world_ok w' \<and> same_transports w w')"
    if "\<forall>s. found = Some s \<longrightarrow> (\<exists>so. w_sock w s = Some so)" for found a
  proof (cases found)
    case (Some s)
    with that obtain so where so: "w_sock w s = Some so" by blast
    show ?thesis using Some so close [OF so] peer [OF so] assms(1)
      by (cases "so_peer so") (auto simp: wp)
  qed (simp add: wp assms(1))
  have "okA E (bindA (find_local_socket b a) (\<lambda>found. case found of None \<Rightarrow> retA () | Some s \<Rightarrow>
      bindA (deref_sock s) (\<lambda>so. bindA (case so_peer so of None \<Rightarrow> retA False
        | Some pr \<Rightarrow> bindA (deref_sock pr) (\<lambda>po. retA (a = 0 \<and> so_transport po \<noteq> Some t))) (\<lambda>foreign.
        if foreign then retA () else sock_close s)))) w (\<lambda>_ w'. world_ok w' \<and> same_transports w w')" for a b
    unfolding wp_bind [of _ "find_local_socket b a"]
    by (rule okA_mono [OF okA_find_local_socket [OF assms(1)]]) (use body in blast)
  with tr assms(1) show ?thesis by (simp add: handle_close_def Let_def wp_bind [of _ "deref_tr t"] wp_deref_tr wp_ret)
qed

lemma okA_handle_write:
  assumes "world_ok w" "t \<in> dom (w_transport w)"
  shows "okA E (handle_write enq p t) w (\<lambda>_ w'. world_ok w' \<and> same_transports w w')"
proof -
  obtain tr where tr: "w_transport w t = Some tr" using assms(2) by blast
  have "okA E (enq s data) w (\<lambda>_ w'. world_ok w' \<and> same_transports w w')"
    if s: "w_sock w s = Some so" "is_local so" "so_peer so \<noteq> None" for s so data
  proof -
    obtain q qo where q: "so_peer so = Some q" "w_sock w q = Some qo" "so_peer qo = Some s"
      using s(3) world_peer [OF assms(1) s(1)] by blast
    have "so_enqueue so \<noteq> EnqueueSmart" using world_local [OF assms(1) s(1,2)] by (simp add: local_ok_def)
    then show ?thesis
      by (intro okA_mono [OF sink [OF assms(1) q(2,3) s(1)]])
        (use s(2) same_rest_transports [of w] in \<open>auto simp: same_but_def split: if_splits\<close>)
  qed
  then show ?thesis using tr assms(1)
    by (auto simp: handle_write_def Let_def wp_bind wp_deref_tr wp_ret split: option.split
        intro!: okA_mono [OF okA_find_local_socket [OF assms(1)]])
qed

text \<open>An acknowledgement: the socket's own, or the answer to a request that gets its remote socket.\<close>

lemma okA_ready_then:
  assumes "world_ok w" "w_sock w s = Some so"
  shows "okA E (do_ready enq s) w (\<lambda>_ w'. world_ok w' \<and> same_transports w w')"
  by (rule okA_mono [OF okA_do_ready [OF assms]]) (use same_rest_transports [of w] in \<open>simp add: ready_post_def\<close>)

lemma okA_ack_then:
  assumes "world_ok w" "w_sock w s = Some so" "is_local so"
  shows "okA E (thenA (local_socket_ack enq s acked) (do_ready enq s)) w (\<lambda>_ w'. world_ok w' \<and> same_transports w w')"
  unfolding wp_then
proof (rule okA_mono [OF okA_local_ack [OF assms]], goal_cases)
  case (1 _ w1)
  then obtain so1 where so1: "world_ok w1" "w_sock w1 s = Some so1" "same_rest w w1" using assms(3) by (auto simp: ready_post_def)
  show ?case
    by (rule okA_mono [OF okA_ready_then [OF so1(1,2)]])
      (use same_transports_trans [OF same_rest_transports [OF so1(3)]] in simp)
qed

lemma okA_handle_okay:
  assumes "world_ok w" "t \<in> dom (w_transport w)"
  shows "okA E (handle_okay enq p t) w (\<lambda>_ w'. world_ok w' \<and> same_transports w w')"
proof -
  obtain tr where tr: "w_transport w t = Some tr" using assms(2) by blast
  let ?link = "\<lambda>i s acked. bindA (create_remote_socket i t) (\<lambda>p.
    thenA (mod_sock s (\<lambda>so. so\<lparr>so_peer := Some p\<rparr>)) (thenA (mod_sock p (\<lambda>po. po\<lparr>so_peer := Some s\<rparr>))
      (thenA (local_socket_ack enq s acked) (do_ready enq s))))"
  have link: "okA E (?link i s acked) w (\<lambda>_ w'. world_ok w' \<and> same_transports w w')"
    if "w_sock w s = Some so" "is_local so" "\<not> so_closing so" "so_peer so = None" "i \<noteq> 0" for i s so acked
  proof (rule okA_attach_remote [OF assms(1) that(1,2,4,3) assms(2) that(5)])
    fix p w1
    assume w1: "world_ok w1" "same_env w w1" "w_sock w1 s = Some (so\<lparr>so_peer := Some p\<rparr>)"
    show "okA E (thenA (local_socket_ack enq s acked) (do_ready enq s)) w1 (\<lambda>_ w'. world_ok w' \<and> same_transports w w')"
      by (rule okA_mono [OF okA_ack_then [OF w1(1,3)]])
        (use that(2) same_transports_trans [OF same_env_transports [OF w1(2)]] in simp_all)
  qed
  have ack: "okA E (local_socket_ack enq s acked) w (\<lambda>_ w'. world_ok w' \<and> same_transports w w')"
    if "w_sock w s = Some so" "is_local so" for s so acked
    by (rule okA_mono [OF okA_local_ack [OF assms(1) that]]) (use same_rest_transports [of w] in \<open>simp add: ready_post_def\<close>)
  have peer: "\<exists>po. w_sock w q = Some po" if "w_sock w s = Some so" "so_peer so = Some q" for s so q
    using world_peer [OF assms(1) that] by metis
  have body: "okA E (bindA (deref_sock s) (\<lambda>so. case so_peer so of None \<Rightarrow> ?link i s acked
      | Some pr \<Rightarrow> bindA (deref_sock pr) (\<lambda>po. if so_id po = i then local_socket_ack enq s acked else retA ()))) w
      (\<lambda>_ w'. world_ok w' \<and> same_transports w w')"
    if so: "w_sock w s = Some so" "is_local so" "\<not> so_closing so" and "i \<noteq> 0" for s so acked i
  proof (cases "so_peer so")
    case None
    with so link [OF so None \<open>i \<noteq> 0\<close>] show ?thesis by (simp add: wp_bind [of _ "deref_sock s"] wp_deref_sock)
  next
    case (Some q)
    then obtain po where "w_sock w q = Some po" using peer [OF so(1)] by blast
    with Some so ack [OF so(1,2)] assms(1) show ?thesis by (simp add: wp_bind wp_deref_sock wp_ret)
  qed
  have close: "okA E (send_close l r (Some t)) w (\<lambda>_ w'. world_ok w' \<and> same_transports w w')" for l r
    unfolding send_close_def by (rule okA_send_then [OF assms])
  have "okA E (bindA (find_local_socket b 0) (\<lambda>found. case found of None \<Rightarrow> send_close b a (Some t)
      | Some s \<Rightarrow> (case acked_bytes xs of None \<Rightarrow> retA () | Some acked \<Rightarrow>
          bindA (deref_sock s) (\<lambda>so. case so_peer so of None \<Rightarrow> ?link a s acked
          | Some pr \<Rightarrow> bindA (deref_sock pr) (\<lambda>po. if so_id po = a then local_socket_ack enq s acked else retA ()))))) w
      (\<lambda>_ w'. world_ok w' \<and> same_transports w w')" if "a \<noteq> 0" for a b xs
    unfolding wp_bind [of _ "find_local_socket b 0"]
    by (rule okA_mono [OF okA_find_local_socket [OF assms(1)]])
      (use body [OF _ _ _ that] close assms(1) in \<open>auto simp: wp_ret split: option.split\<close>)
  with tr assms(1) show ?thesis by (simp add: handle_okay_def Let_def wp_bind [of _ "deref_tr t"] wp_deref_tr wp_ret)
qed

text \<open>A request of the device for a service of the host.\<close>

lemma okA_open_service:
  assumes "world_ok w" "t \<in> dom (w_transport w)" "i \<noteq> 0" "LogFatal \<in> E"
  shows "okA E (open_service t i n address) w (\<lambda>r w'. world_ok w' \<and> same_transports w w' \<and> (\<forall>s. r = Some s \<longrightarrow> s \<in> dom (w_sock w')))"
  unfolding open_service_def wp_bind [of _ "create_local_service_socket address t"]
proof (rule okA_mono [OF okA_create_service [OF assms(1,2,4)]], goal_cases)
  case (1 r w1)
  then have w1: "world_ok w1" "same_transports w w1" "t \<in> dom (w_transport w1)" using same_transports_in [OF _ assms(2), of w1] by simp_all
  show ?case
  proof (cases r)
    case None
    have "okA E (send_close 0 i (Some t)) w1 (\<lambda>_ w'. world_ok w' \<and> same_transports w w')"
      unfolding send_close_def by (rule okA_mono [OF okA_send_then [OF w1(1,3)]]) (use same_transports_trans [OF w1(2)] in simp)
    with None show ?thesis by (simp add: wp)
  next
    case (Some s)
    with 1 obtain so where so: "w_sock w1 s = Some so" "is_local so" "so_peer so = None" "\<not> so_closing so" by auto
    let ?rest = "bindA (deref_tr t) (\<lambda>tr. bindA (deref_sock s) (\<lambda>so.
      thenA (if t_delayed_ack tr then thenA (mod_sock s (\<lambda>so. so\<lparr>so_available_send_bytes := Some (uint n)\<rparr>))
               (send_ready (so_id so) i (Some t) (word_of_nat INITIAL_DELAYED_ACK_BYTES))
             else send_ready (so_id so) i (Some t) 0) (retA (Some s))))"
    have "okA E ?rest w2 (\<lambda>r w'. world_ok w' \<and> same_transports w w' \<and> (\<forall>s. r = Some s \<longrightarrow> s \<in> dom (w_sock w')))"
      if w2: "world_ok w2" "same_env w1 w2" "w_sock w2 s = Some (so\<lparr>so_peer := Some p\<rparr>)" for p w2
    proof -
      have t2: "same_transports w w2" by (rule same_transports_trans [OF w1(2) same_env_transports [OF w2(2)]])
      then obtain tr where tr: "w_transport w2 t = Some tr" using same_transports_in [OF t2 assms(2)] by blast
      have ready: "okA E (send_ready a i (Some t) b) w3 (\<lambda>_ w'. world_ok w' \<and> same_transports w w' \<and> s \<in> dom (w_sock w'))"
        if w3: "world_ok w3" "same_transports w w3" "s \<in> dom (w_sock w3)" for a b w3
      proof -
        have "w_transport w3 t \<noteq> None" using same_transports_in [OF w3(2) assms(2)] by auto
        then show ?thesis
        proof (rule okA_mono [OF okA_send_ready], goal_cases)
          case (1 _ w4)
          then have q: "quiet w3 w4" by simp
          then show ?case
            using quiet_ok [OF q w3(1)] quiet_sock [OF q] same_transports_trans [OF w3(2) quiet_transports [OF q]] w3(3) by simp
        qed
      qed
      define w3 where "w3 = w2\<lparr>w_sock := (w_sock w2)(s \<mapsto> so\<lparr>so_peer := Some p, so_available_send_bytes := Some (uint n)\<rparr>)\<rparr>"
      have w3: "world_ok w3" "same_transports w w3" "s \<in> dom (w_sock w3)"
        using wfx_available [OF w2(1) [unfolded world_ok_def] w2(3)] t2 by (simp_all add: world_ok_def w3_def same_transports_def)
      have w2s: "s \<in> dom (w_sock w2)" using w2(3) by auto
      show ?thesis using ready [OF w3, of "so_id so" "word_of_nat INITIAL_DELAYED_ACK_BYTES"] ready [OF w2(1) t2 w2s, of "so_id so" 0] w2(3) tr
        by (simp add: wp_bind wp_deref_tr wp_deref_sock wp_then wp_mod_sock wp_ret w3_def)
    qed
    then show ?thesis unfolding Some option.case by (intro okA_attach_remote [OF w1(1) so w1(3) assms(3)])
  qed
qed

lemma okA_handle_open:
  assumes "world_ok w" "t \<in> dom (w_transport w)" "if CHR 0x00 \<in> set (p_payload p) then LogFatal \<in> E else OutOfRange \<in> E"
  shows "okA E (handle_open enq p t) w (\<lambda>_ w'. world_ok w' \<and> same_transports w w')"
proof -
  obtain tr where tr: "w_transport w t = Some tr" using assms(2) by blast
  have close: "okA E (send_close l r (Some t)) w (\<lambda>_ w'. world_ok w' \<and> same_transports w w')" for l r
    unfolding send_close_def by (rule okA_send_then [OF assms(1,2)])
  have ready: "okA E (do_ready enq s) w1 (\<lambda>_ w'. world_ok w' \<and> same_transports w w')"
    if w1: "world_ok w1" "same_transports w w1" "s \<in> dom (w_sock w1)" for s w1
  proof -
    obtain so where "w_sock w1 s = Some so" using w1(3) by blast
    then show ?thesis
      by (intro okA_mono [OF okA_ready_then [OF w1(1)]]) (use same_transports_trans [OF w1(2)] in auto)
  qed
  have serve: "okA E (bindA (open_service t i n address) (\<lambda>sv. case sv of None \<Rightarrow> retA () | Some s \<Rightarrow> do_ready enq s)) w
      (\<lambda>_ w'. world_ok w' \<and> same_transports w w')" if "i \<noteq> 0" "LogFatal \<in> E" for i n address
    unfolding wp_bind
    by (rule okA_mono [OF okA_open_service [OF assms(1,2) that]]) (use ready in \<open>auto simp: wp_ret split: option.split\<close>)
  show ?thesis using tr assms(1,3) close serve
    by (auto simp: handle_open_def Let_def wp_bind [of _ "deref_tr t"] wp_deref_tr wp_ret wp_stop split: if_splits)
qed

lemma okA_handle_packet:
  assumes "world_ok w" "t \<in> dom (w_transport w)"
  shows "okA (packet_stops p) (handle_packet enq p t) w (\<lambda>_ w'. world_ok w' \<and> same_transports w w')"
proof (cases "length (p_payload p) = unat (m_data_length (p_msg p))")
  case True
  have stls: "okA E (thenA (mod_tr t (\<lambda>tr. tr\<lparr>t_use_tls := True\<rparr>)) (thenA (send_tls_request t) (adb_auth_tls_handshake t))) w
      (\<lambda>_ w'. world_ok w' \<and> same_transports w w')" for E
    unfolding send_tls_request_def adb_auth_tls_handshake_def
    by (intro okA_seq okA_tr_then okA_send_then okA_quiet_then)
      (use assms in \<open>auto simp: same_transports_def wp_mod\<close>)
  from True assms(1) show ?thesis
    using okA_new_connection [OF assms] stls okA_handle_auth [OF assms] okA_handle_open [OF assms] okA_handle_okay [OF assms]
      okA_handle_close [OF assms] okA_handle_write [OF assms]
    by (simp add: handle_packet_def Let_def wp_then [of _ "checkA _"] wp_check wp_ret packet_stops_def A_AUTH_def A_OPEN_def A_CNXN_def A_STLS_def)
qed (simp add: handle_packet_def wp_then wp_check packet_stops_def)

end

end
