(* ===== verification/Request_Safety.thy ===== *)
theory Request_Safety
  imports Device_Safety Host_Request
begin

text \<open>
  Memory safety of client requests (\<^verbatim>\<open>handle_host_request\<close> of \<^verbatim>\<open>adb/adb.cpp\<close>, \<^verbatim>\<open>smart_socket_enqueue\<close> of
  \<^verbatim>\<open>adb/sockets.cpp\<close>) and of registering and removing transports.
\<close>

section \<open>Steps that leave the sockets alone\<close>

definition calm :: "world \<Rightarrow> world \<Rightarrow> bool" where
  "calm w w' \<longleftrightarrow> world_ok w' \<and> w_sock w' = w_sock w \<and> dom (w_transport w) \<subseteq> dom (w_transport w')"

lemma calm_refl: "world_ok w \<Longrightarrow> calm w w"
  by (simp add: calm_def)

lemma calm_trans: "calm w w' \<Longrightarrow> calm w' w'' \<Longrightarrow> calm w w''"
  by (auto simp: calm_def)

lemma calm_quiet: "world_ok w \<Longrightarrow> quiet w w' \<Longrightarrow> calm w w'"
  using quiet_ok [of w w'] quiet_sock [of w w'] quiet_dom [of w w'] by (simp add: calm_def)

lemma calm_listeners: "world_ok w' \<Longrightarrow> listeners_only w w' \<Longrightarrow> calm w w'"
  using listeners_only_dom [of w w'] by (simp add: calm_def listeners_only_def)

lemma calm_ok: "calm w w' \<Longrightarrow> world_ok w'"
  by (simp add: calm_def)

lemma calm_in: "calm w w' \<Longrightarrow> t \<in> dom (w_transport w) \<Longrightarrow> t \<in> dom (w_transport w')"
  by (auto simp: calm_def)

lemma okA_calm_quiet: "world_ok w \<Longrightarrow> okA E m w (\<lambda>_ w'. quiet w w') \<Longrightarrow> okA E m w (\<lambda>_ w'. calm w w')"
  by (erule okA_mono) (rule calm_quiet)

lemma okA_calm_bind:
  assumes "okA E m w (\<lambda>x w'. calm w w' \<and> P x w')" "\<And>x w'. calm w w' \<Longrightarrow> P x w' \<Longrightarrow> okA E (f x) w' (\<lambda>_ w''. calm w' w'')"
  shows "okA E (bindA m f) w (\<lambda>_ w''. calm w w'')"
  unfolding wp_bind
proof (rule okA_mono [OF assms(1)], goal_cases)
  case (1 x w')
  then have "okA E (f x) w' (\<lambda>_ w''. calm w' w'')" using assms(2) by blast
  then show ?case by (rule okA_mono) (use 1 calm_trans [of w w'] in simp)
qed

lemma okA_calm_then:
  assumes "okA E m w (\<lambda>_ w'. calm w w')" "\<And>w'. calm w w' \<Longrightarrow> okA E n w' (\<lambda>_ w''. calm w' w'')"
  shows "okA E (thenA m n) w (\<lambda>_ w''. calm w w'')"
  unfolding thenA_def by (rule okA_calm_bind [where P = "\<lambda>_ _. True"]) (use assms in simp_all)

lemma okA_calm_ret: "world_ok w \<Longrightarrow> okA E (retA x) w (\<lambda>_ w'. calm w w')"
  by (simp add: wp calm_refl)

lemma okA_calm_for:
  assumes "world_ok w" "\<And>x w'. x \<in> set xs \<Longrightarrow> calm w w' \<Longrightarrow> okA E (f x) w' (\<lambda>_ w''. calm w' w'')"
  shows "okA E (forA f xs) w (\<lambda>_ w'. calm w w')"
  using assms
proof (induction xs arbitrary: w)
  case (Cons x xs)
  have "okA E (forA f xs) w' (\<lambda>_ w''. calm w' w'')" if "calm w w'" for w'
    by (rule Cons.IH) (use Cons.prems that calm_trans [OF that] calm_ok in auto)
  then show ?case using Cons.prems calm_refl by (simp add: okA_calm_then)
qed (simp add: okA_calm_ret)

section \<open>Answers\<close>

lemma okA_SendOkayString: "world_ok w \<Longrightarrow> okA E (SendOkayString fd s) w (\<lambda>_ w'. calm w w')"
  unfolding SendOkayString_def
  by (intro okA_calm_then okA_calm_quiet okA_SendOkay okA_SendProtocolString) (auto dest: calm_ok)

lemma okA_calm_SendOkay: "world_ok w \<Longrightarrow> okA E (SendOkayA fd) w (\<lambda>_ w'. calm w w')"
  by (rule okA_calm_quiet [OF _ okA_SendOkay])

lemma okA_calm_SendFail: "world_ok w \<Longrightarrow> okA E (SendFailA fd r) w (\<lambda>_ w'. calm w w')"
  by (rule okA_calm_quiet [OF _ okA_SendFail])

lemma okA_calm_SendString: "world_ok w \<Longrightarrow> okA E (SendProtocolStringA fd r) w (\<lambda>_ w'. calm w w')"
  by (rule okA_calm_quiet [OF _ okA_SendProtocolString])

lemma okA_WriteFd: "world_ok w \<Longrightarrow> okA E (WriteFdExactlyA fd s) w (\<lambda>_ w'. calm w w')"
  unfolding WriteFdExactlyA_def wp_bind wp_ret by (rule okA_calm_quiet [OF _ okA_write_fd])

lemmas calm_answers = okA_SendOkayString okA_calm_SendOkay okA_calm_SendFail okA_calm_SendString okA_WriteFd

section \<open>Choosing a transport\<close>

lemma match_run_stops: "match_run cs ptr = Stop e \<Longrightarrow> e = OutOfRange"
  by (induction cs ptr rule: match_run.induct) (auto split: list.splits if_splits)

lemma qual_match_stops: "qual_match x p q b = Stop e \<Longrightarrow> e = OutOfRange"
  by (auto simp: qual_match_def bindR_Stop_iff split: if_splits option.splits dest: match_run_stops)

lemma MatchesTarget_stops: "MatchesTarget t target = Stop e \<Longrightarrow> e = OutOfRange"
  unfolding MatchesTarget_def or_run_def
  by (auto simp: bindR_Stop_iff split: if_split_asm dest: qual_match_stops)

lemma acquire_loop_chosen:
  "acquire_loop e type serial tid ts result err = Done (Some x, rest) \<Longrightarrow> x \<in> set ts \<or> result = Some x"
proof (induction ts arbitrary: result err)
  case (Cons y ts)
  obtain r t where y: "y = (r, t)" by force
  have "\<exists>err'. acquire_loop e type serial tid ts result err' = Done (Some x, rest) \<or>
      acquire_loop e type serial tid ts (Some (r, t)) err' = Done (Some x, rest) \<or> x = (r, t)"
    using Cons.prems unfolding y acquire_loop.simps(2) by (auto split: if_split_asm option.split_asm)
  then show ?case using Cons.IH by (auto simp: y)
qed simp

lemma acquire_loop_stops: "acquire_loop e type serial tid ts result err = Stop st \<Longrightarrow> st = OutOfRange"
  by (induction e type serial tid ts result err rule: acquire_loop.induct)
    (auto simp: acquire_loop.simps(2) bindR_Stop_iff split: if_split_asm option.split_asm dest: MatchesTarget_stops)

lemma acquire_stops: "acquire_one_transport e ts type serial tid b = Stop st \<Longrightarrow> st = OutOfRange"
  by (auto simp: acquire_one_transport_def bindR_Stop_iff dest: acquire_loop_stops)

lemma acquire_chosen:
  assumes "acquire_one_transport e ts type serial tid b = Done (Some r, rest)"
  shows "r \<in> fst ` set ts"
proof -
  obtain res x y where l: "acquire_loop e type serial tid ts None (initial_error type serial tid) = Done (res, x, y)"
    using assms by (auto simp: acquire_one_transport_def)
  then obtain t where "res = Some (r, t)"
    using assms by (cases res) (auto simp: acquire_one_transport_def split: option.split_asm)
  with l have "acquire_loop e type serial tid ts None (initial_error type serial tid) = Done (Some (r, t), x, y)" by simp
  then have "(r, t) \<in> set ts" using acquire_loop_chosen by fastforce
  then show ?thesis by force
qed

lemma transports_of_dom: "r \<in> fst ` set (transports_of ts w) \<Longrightarrow> r \<in> dom (w_transport w)"
  by (auto simp: transports_of_def)

lemma find_transport_chosen: "find_transport ts serial = Some r \<Longrightarrow> r \<in> fst ` set ts"
  by (auto simp: find_transport_def find_Some_iff) (metis fst_conv image_iff nth_mem)

lemma okA_acquire:
  assumes "world_ok w" "OutOfRange \<in> E"
  shows "okA E (acquireA type serial tid b) w (\<lambda>(t, err) w'. w' = w \<and> (\<forall>r. t = Some r \<longrightarrow> r \<in> dom (w_transport w)))"
  unfolding acquireA_def wp_bind
proof (rule okA_mono [OF okA_deref_list [OF assms(1)]], goal_cases)
  case (2 ts w')
  show ?case
  proof (cases "acquire_one_transport (c_env (w_config w)) ts type serial tid b")
    case (Done y)
    obtain t x where y: "y = (t, x)" by (cases y)
    have "r \<in> dom (w_transport w)" if "t = Some r" for r
    proof -
      have "r \<in> fst ` set ts" by (rule acquire_chosen) (use Done y that in simp)
      with 2 transports_of_dom [of r "transport_list w" w] show ?thesis by simp
    qed
    then show ?thesis using 2 Done y by (simp add: wp case_prod_beta)
  next
    case (Stop e)
    then show ?thesis using 2 acquire_stops [OF Stop] assms(2) by (simp add: wp)
  qed
qed simp

lemma okA_find_transport:
  assumes "world_ok w"
  shows "okA E (find_transportA serial) w (\<lambda>t w'. w' = w \<and> (\<forall>r. t = Some r \<longrightarrow> r \<in> dom (w_transport w)))"
  unfolding find_transportA_def wp_bind
proof (rule okA_mono [OF okA_deref_list [OF assms]], goal_cases)
  case (2 ts w')
  then show ?case
    using transports_of_dom [of _ "transport_list w" w] find_transport_chosen [of ts serial] by (simp add: wp)
qed simp

section \<open>Kicking\<close>

lemma kick_disconnects [simp]:
  "t_disconnects (transport_Kick tr) = t_disconnects tr" "t_disconnects (transport_Reset tr) = t_disconnects tr"
  "t_disconnects (connection_Stop tr) = t_disconnects tr" "t_disconnects (ResetKeys tr) = t_disconnects tr"
  by (simp_all add: transport_Kick_def transport_Reset_def connection_Stop_def ResetKeys_def)

lemma okA_calm_conn:
  assumes "world_ok w" "t \<in> dom (w_transport w)" "\<And>tr. t_disconnects (f tr) = t_disconnects tr"
  shows "okA E (mod_conn t f) w (\<lambda>_ w'. calm w w')"
proof -
  obtain tr where "w_transport w t = Some tr" using assms(2) by blast
  then show ?thesis using assms(1,3) by (intro okA_mono [OF okA_mod_conn [of w t tr f]]) (auto intro: calm_quiet)
qed

lemma okA_calm_tr:
  assumes "world_ok w" "t \<in> dom (w_transport w)" "\<And>tr. t_disconnects (f tr) = t_disconnects tr"
  shows "okA E (mod_tr t f) w (\<lambda>_ w'. calm w w')"
proof -
  obtain tr where "w_transport w t = Some tr" using assms(2) by blast
  then show ?thesis using assms(1,3) by (intro okA_mono [OF okA_mod_tr_quiet [of w t tr f]]) (auto intro: calm_quiet)
qed

lemma world_transports: "world_ok w \<Longrightarrow> t \<in> set (transport_list w) \<Longrightarrow> t \<in> dom (w_transport w)"
  using wfx_parts(4) [of "{}" w] by (auto simp: world_ok_def)

lemma okA_calm_kick: "world_ok w \<Longrightarrow> okA E (kick_transport t reset) w (\<lambda>_ w'. calm w w')"
  by (simp add: kick_transport_def wp_bind wp_get wp_when calm_refl okA_calm_conn world_transports)

lemma okA_calm_each:
  assumes "world_ok w" "\<And>tr. t_disconnects (f tr) = t_disconnects tr"
  shows "okA E (bindA (getA transport_list) (\<lambda>ts. forA (\<lambda>t. bindA (deref_tr t) (\<lambda>tr. whenA (P tr) (mod_conn t f))) ts)) w
    (\<lambda>_ w'. calm w w')"
proof -
  have "okA E (bindA (deref_tr t) (\<lambda>tr. whenA (P tr) (mod_conn t f))) w' (\<lambda>_ w''. calm w' w'')"
    if "t \<in> set (transport_list w)" "calm w w'" for t w'
  proof -
    have d: "t \<in> dom (w_transport w')" using calm_in [OF that(2) world_transports [OF assms(1) that(1)]] .
    then obtain tr where "w_transport w' t = Some tr" by blast
    with okA_calm_conn [OF calm_ok [OF that(2)] d assms(2)] calm_refl [OF calm_ok [OF that(2)]] show ?thesis
      by (simp add: wp_bind wp_deref_tr wp_when)
  qed
  then show ?thesis unfolding wp_bind [of _ "getA transport_list"] wp_get by (rule okA_calm_for [OF assms(1)])
qed

lemma okA_calm_usb: "world_ok w \<Longrightarrow> okA E (close_usb_devices P reset) w (\<lambda>_ w'. calm w w')"
  unfolding close_usb_devices_def by (rule okA_calm_each) simp_all

lemma okA_calm_tcp: "world_ok w \<Longrightarrow> okA E kick_all_tcp_devices w (\<lambda>_ w'. calm w w')"
  unfolding kick_all_tcp_devices_def by (rule okA_calm_each) simp_all

section \<open>New transports\<close>

text \<open>A transport nothing refers to can be deleted.\<close>

definition unreferenced :: "nat \<Rightarrow> world \<Rightarrow> bool" where
  "unreferenced t w \<longleftrightarrow> (\<forall>s so. w_sock w s = Some so \<longrightarrow> so_transport so \<noteq> Some t) \<and>
     t \<notin> set (transport_list w) \<and> t \<notin> set (pending_list w) \<and> disconnects_of w t = Some []"

lemma unreferenced_quiet: "unreferenced t w \<Longrightarrow> quiet w w' \<Longrightarrow> unreferenced t w'"
  by (simp add: unreferenced_def quiet_def same_rest_def)

lemma world_ok_delete:
  assumes "world_ok w" "unreferenced t w"
  shows "world_ok (w\<lparr>w_transport := (w_transport w)(t := None)\<rparr>)"
proof -
  let ?w = "w\<lparr>w_transport := (w_transport w)(t := None)\<rparr>"
  note parts = wfx_parts [OF assms(1) [unfolded world_ok_def]]
  have dis: "disconnects_of ?w = (disconnects_of w)(t := None)" by (auto simp: disconnects_of_def)
  have "socks_ok {} (w_sock w) (inst_of w) (dom (w_transport w) - {t}) (w_next_sock w)"
    using parts(1) assms(2) unfolding socks_ok_def unreferenced_def by blast
  moreover have "listeners_ok (listener_list w) (inst_of w) (disconnects_of ?w) (w_next_listener w)"
  proof (rule listeners_okI, goal_cases)
    case (2 i l)
    have "l_transport l \<noteq> Some t" by (rule listeners_gone [OF assms(1) _ 2]) (use assms(2) in \<open>simp add: unreferenced_def\<close>)
    with listeners_okD(2) [OF parts(5) 2] dis show ?case by (auto simp: listener_ok_def)
  next
    case (3 u ds)
    then have "disconnects_of w u = Some ds" using dis by (auto split: if_splits)
    with listeners_okD(3,4) [OF parts(5)] show ?case by blast
  qed (rule listeners_okD(1) [OF parts(5)])
  ultimately show ?thesis using parts assms(2)
    by (auto simp: world_ok_def wfx_def inst_of_def unreferenced_def)
qed

definition fresh_tr :: "nat \<Rightarrow> world \<Rightarrow> world \<Rightarrow> bool" where
  "fresh_tr t w w' \<longleftrightarrow> calm w w' \<and> unreferenced t w' \<and> t \<notin> dom (w_transport w) \<and> t \<in> dom (w_transport w')"

lemma fresh_tr_quiet: "fresh_tr t w w1 \<Longrightarrow> quiet w1 w2 \<Longrightarrow> fresh_tr t w w2"
  using calm_trans [of w w1 w2] calm_quiet [of w1 w2] unreferenced_quiet [of t w1 w2] quiet_dom [of w1 w2] calm_ok [of w w1]
  by (simp add: fresh_tr_def)

lemma okA_new_tr:
  assumes "world_ok w" "\<And>i. t_disconnects (mk i) = []"
  shows "okA E (new_tr mk) w (\<lambda>t w'. fresh_tr t w w')"
proof -
  note parts = wfx_parts [OF assms(1) [unfolded world_ok_def]]
  define t where "t = w_next_transport w"
  define w' where "w' = w\<lparr>w_transport := (w_transport w)(t \<mapsto> mk t), w_next_transport := Suc t\<rparr>"
  have fresh: "t \<notin> dom (w_transport w)" using parts(4) by (auto simp: t_def)
  have dis: "disconnects_of w' = (disconnects_of w)(t \<mapsto> [])" using assms(2) by (auto simp: w'_def disconnects_of_def)
  have "socks_ok {} (w_sock w) (inst_of w) (insert t (dom (w_transport w))) (w_next_sock w)"
    using parts(1) unfolding socks_ok_def by blast
  moreover have "listeners_ok (listener_list w) (inst_of w) (disconnects_of w') (w_next_listener w)"
  proof (rule listeners_okI, goal_cases)
    case (2 i l)
    have "disconnects_of w t = None" using fresh by (auto simp: disconnects_of_def)
    then have "l_transport l \<noteq> Some t" using listeners_okD(2) [OF parts(5) 2] by (auto simp: listener_ok_def)
    with listeners_okD(2) [OF parts(5) 2] dis show ?case by (auto simp: listener_ok_def)
  next
    case (3 u ds)
    then show ?case using dis listeners_okD(3,4) [OF parts(5)] by (cases "u = t") auto
  qed (rule listeners_okD(1) [OF parts(5)])
  ultimately have "world_ok w'"
    using parts by (auto simp: world_ok_def wfx_def inst_of_def w'_def t_def)
  moreover have "unreferenced t w'"
    using socks_okD(4) [OF parts(1)] parts(4) fresh dis by (auto simp: unreferenced_def w'_def)
  ultimately have "fresh_tr t w w'" using fresh by (auto simp: fresh_tr_def calm_def w'_def)
  then show ?thesis by (simp add: okA_def new_tr_def Let_def w'_def t_def)
qed

lemma okA_delete_tr:
  assumes "world_ok w" "unreferenced t w"
  shows "okA E (delete_tr t) w (\<lambda>_ w'. world_ok w' \<and> w_sock w' = w_sock w \<and> dom (w_transport w') = dom (w_transport w) - {t})"
proof -
  obtain tr where tr: "w_transport w t = Some tr" using assms(2) by (auto simp: unreferenced_def disconnects_of_def)
  have rest: "okA E (bindA (deref_tr t) (\<lambda>tr. thenA (modA (\<lambda>w. w\<lparr>w_transport := (w_transport w)(t := None)\<rparr>))
     (case t_emulator_port tr of None \<Rightarrow> retA ()
      | Some p \<Rightarrow> modA (\<lambda>w. w\<lparr>retry_ports := retry_ports w @ [(p, LOCAL_PORT_RETRY_COUNT)]\<rparr>)))) w1
     (\<lambda>_ w'. world_ok w' \<and> w_sock w' = w_sock w \<and> dom (w_transport w') = dom (w_transport w) - {t})"
    if q: "quiet w w1" for w1
  proof -
    obtain tr1 where tr1: "w_transport w1 t = Some tr1" using quiet_dom [OF q] tr by blast
    define w2 where "w2 = w1\<lparr>w_transport := (w_transport w1)(t := None)\<rparr>"
    have "world_ok w2" using world_ok_delete [OF quiet_ok [OF q assms(1)] unreferenced_quiet [OF assms(2) q]] by (simp add: w2_def)
    moreover from this have "world_ok (w2\<lparr>retry_ports := r\<rparr>)" for r using world_quiet [of w2 "w2\<lparr>retry_ports := r\<rparr>"] by simp
    moreover have "dom (w_transport w2) = dom (w_transport w) - {t}" using quiet_dom [OF q] by (simp add: w2_def)
    ultimately show ?thesis using tr1 quiet_sock [OF q]
      by (simp add: wp w2_def split: option.split)
  qed
  have "okA E (mod_conn t connection_Stop) w (\<lambda>_ w'. quiet w w')"
    by (rule okA_mono [OF okA_mod_conn [OF tr]]) simp_all
  then show ?thesis unfolding delete_tr_def wp_then [of _ "mod_conn t connection_Stop"]
    by (rule okA_mono) (rule rest)
qed

lemma okA_init_socket:
  assumes "world_ok w" "t \<in> dom (w_transport w)"
  shows "okA E (init_socket_transport t port local) w (\<lambda>_ w'. quiet w w')"
proof -
  obtain tr where tr: "w_transport w t = Some tr" using assms(2) by blast
  have "okA E (mod_tr t (\<lambda>tr. set_connection v (tr\<lparr>t_type := kTransportLocal\<rparr>))) w (\<lambda>_ w'. quiet w w')" for v
    by (rule okA_mod_tr_quiet [OF tr]) (simp add: set_connection_def)
  then show ?thesis unfolding init_socket_transport_def wp_then
  proof (rule okA_mono, goal_cases)
    case (1 x w1)
    have "quiet w (w1\<lparr>local_transports := l\<rparr>)" for l using quiet_trans [OF 1(1), of "w1\<lparr>local_transports := l\<rparr>"] by simp
    with 1 show ?case by (simp add: wp)
  qed
qed

lemma fresh_tr_ok: "fresh_tr t w w' \<Longrightarrow> world_ok w' \<and> calm w w' \<and> t \<in> dom (w_transport w')"
  by (simp add: fresh_tr_def calm_def)

lemma okA_delete_fresh:
  assumes "fresh_tr t w w1"
  shows "okA E (delete_tr t) w1 (\<lambda>_ w'. calm w w')"
proof -
  have "world_ok w1" "unreferenced t w1" using assms by (simp_all add: fresh_tr_def calm_def)
  then show ?thesis by (rule okA_mono [OF okA_delete_tr]) (use assms in \<open>auto simp: fresh_tr_def calm_def\<close>)
qed

lemma okA_validate:
  assumes "fresh_tr t w w1" "lst = transport_list \<or> lst = pending_list"
  shows "okA E (validate_transport_list lst serial t) w1 (\<lambda>ok w'. if ok then fresh_tr t w w' else calm w w')"
  unfolding validate_transport_list_def wp_bind
proof (rule okA_mono [OF okA_deref_list [OF _ assms(2)]], goal_cases)
  case 1
  then show ?case using fresh_tr_ok [OF assms(1)] by simp
next
  case (2 ts w')
  show ?case
  proof (cases "list_ex (\<lambda>(r, tr). t_serial tr = serial) ts")
    case True
    then show ?thesis using 2 okA_delete_fresh [OF assms(1)] by (simp add: wp_then wp_ret)
  qed (use 2 assms(1) in \<open>simp add: wp_ret\<close>)
qed

lemma okA_pending:
  assumes "fresh_tr t w w1"
  shows "okA E (thenA (add_pending t) (register_transport t)) w1 (\<lambda>_ w'. calm w w')"
proof -
  define w2 where "w2 = w1\<lparr>pending_list := t # pending_list w1, run_queue := run_queue w1 @ [RunRegister t]\<rparr>"
  have "world_ok w1" "t \<in> dom (w_transport w1)" using fresh_tr_ok [OF assms] by simp_all
  then have "world_ok w2" by (simp add: world_ok_def wfx_def w2_def inst_of_def disconnects_of_def)
  then show ?thesis using assms
    by (simp add: add_pending_def register_transport_def run_on_looper_def wp w2_def fresh_tr_def calm_def)
qed

lemma okA_begin_register:
  assumes "world_ok w"
  shows "okA E (begin_register serial port local reconnect tls) w (\<lambda>_ w'. calm w w')"
proof -
  have pending: "okA E (thenA (add_pending t) (thenA (register_transport t) (retA x))) w1 (\<lambda>_ w'. calm w w')"
    if "fresh_tr t w w1" for t w1 x
    using okA_pending [OF that, of E] by (simp add: wp)
  have listed: "okA E (bindA (validate_transport_list lst serial t) (\<lambda>ok. if \<not> ok then retA v else m)) w1 (\<lambda>_ w'. calm w w')"
    if "fresh_tr t w w1" "lst = transport_list \<or> lst = pending_list" "\<And>w'. fresh_tr t w w' \<Longrightarrow> okA E m w' (\<lambda>_ w'. calm w w')"
    for t w1 lst v m
    unfolding wp_bind by (rule okA_mono [OF okA_validate [OF that(1,2)]]) (auto simp: wp_ret split: if_splits intro: that(3))
  show ?thesis
    unfolding begin_register_def wp_bind [of _ "new_tr _"]
  proof (rule okA_mono [OF okA_new_tr [OF assms]], goal_cases)
    case (2 t w1)
    show ?case unfolding wp_bind [of _ "init_socket_transport _ _ _"]
    proof (rule okA_mono [OF okA_init_socket], goal_cases)
      case (3 ok w2)
      with 2 have f: "fresh_tr t w w2" using fresh_tr_quiet by blast
      then have "okA E (thenA (delete_tr t) (retA v)) w2 (\<lambda>_ w'. calm w w')" for v :: "register_error + nat"
        by (simp add: wp_then wp_ret okA_delete_fresh)
      moreover have "okA E (bindA (validate_transport_list pending_list serial t) (\<lambda>ok. if \<not> ok then retA (Inl EALREADY) else
          bindA (validate_transport_list transport_list serial t) (\<lambda>ok. if \<not> ok then retA (Inl EALREADY)
            else thenA (add_pending t) (thenA (register_transport t) (retA (Inr t)))))) w2 (\<lambda>_ w'. calm w w')"
        by (rule listed [OF f], simp, erule listed, simp, erule pending)
      ultimately show ?case by simp
    qed (use fresh_tr_ok [OF 2] in simp_all)
  qed (simp add: new_atransport_def)
qed

lemma okA_local_connect:
  assumes "world_ok w"
  shows "okA E (local_connect port) w (\<lambda>_ w'. calm w w')"
proof -
  define n where "n = w\<lparr>w_net_calls := Suc (w_net_calls w)\<rparr>"
  have n: "world_ok n" "calm w n" using assms calm_quiet [OF assms, of n] calm_ok [of w n] by (simp_all add: n_def)
  have reg: "okA E (begin_register serial port local reconnect tls) n (\<lambda>_ w'. calm w w')" for serial port local reconnect tls
    by (rule okA_mono [OF okA_begin_register [OF n(1)]]) (rule calm_trans [OF n(2)])
  have new: "okA E (bindA (getA w_config) (\<lambda>c. bindA (on_net (connect_emulator_port c p)) (\<lambda>(err, fd).
      if fd = None then retA (False, err)
      else bindA (begin_register serial p True None False) (\<lambda>r. retA (case r of Inl e \<Rightarrow> (False, err) | Inr t \<Rightarrow> (True, err)))))) w
      (\<lambda>_ w'. calm w w')" for p serial
    using reg [of serial p True None False] n(2) by (simp add: wp n_def case_prod_beta)
  have known: "okA E (if q then retA x else find_emulator_transport_by_console_port c) w (\<lambda>_ w'. w' = w)" for q x c
    using okA_mono [OF okA_deref_list [OF assms, of transport_list E], where Q = "\<lambda>_ w'. w' = w"]
    by (simp add: find_emulator_transport_by_console_port_def wp)
  show ?thesis
    unfolding local_connect_def local_connect_arbitrary_ports_def find_emulator_transport_by_adb_port_def
      wp_bind [of _ "bindA _ _"] wp_bind [of _ "getA _"] wp_get wp_bind [of _ "if _ then _ else _"]
    by (rule okA_mono [OF known]) (use new calm_refl [OF assms] in \<open>simp add: wp_ret case_prod_beta\<close>)
qed

end
