(* ===== verification/Smart_Safety.thy ===== *)
theory Smart_Safety
  imports Request_Safety
begin

text \<open>
  Memory safety of a smart socket: the requests it serves (\<^verbatim>\<open>handle_forward_request\<close> and
  \<^verbatim>\<open>handle_host_request\<close> of \<^verbatim>\<open>adb/adb.cpp\<close>), the services it becomes and its end
  (\<^verbatim>\<open>smart_socket_enqueue\<close> of \<^verbatim>\<open>adb/sockets.cpp\<close>).
\<close>

section \<open>Forwarding\<close>

lemma okA_if: "okA E m w Q \<Longrightarrow> okA E n w Q \<Longrightarrow> okA E (if c then m else n) w Q"
  by simp

lemma okA_option: "okA E m w Q \<Longrightarrow> (\<And>y. okA E (f y) w Q) \<Longrightarrow> okA E (case x of None \<Rightarrow> m | Some y \<Rightarrow> f y) w Q"
  by (simp split: option.split)

lemma okA_calm_listeners: "okA E m w (\<lambda>_ w'. world_ok w' \<and> listeners_only w w') \<Longrightarrow> okA E m w (\<lambda>_ w'. calm w w')"
  by (erule okA_mono) (simp add: calm_listeners)

lemma okA_forward_on:
  assumes "world_ok w" "t \<in> dom (w_transport w)"
  shows "okA E (forward_on kill no_rebind service t fd) w (\<lambda>_ w'. calm w w')"
proof -
  have install: "okA E (if kill then bindA (remove_listener x) (\<lambda>r. retA (r, [], 0)) else install_listener x y (Some t) z) w
      (\<lambda>_ w'. calm w w' \<and> True)" for x y z
    using okA_calm_listeners [OF okA_remove_listener [OF assms(1)]] okA_calm_listeners [OF okA_install_listener [OF assms]]
    by (simp add: wp_bind wp_ret)
  have answer: "okA E (case r of (r, err, port) \<Rightarrow>
      if r = INSTALL_STATUS_OK then thenA (SendOkayA fd) (thenA (SendOkayA fd) (whenA (port \<noteq> 0) (SendProtocolStringA fd (dec_int port))))
      else SendFailA fd (forward_failure r err service)) w' (\<lambda>_ w''. calm w' w'')" if "world_ok w'" for w' r
    using that by (cases r) (auto simp: wp_when intro!: okA_calm_then calm_answers calm_refl dest: calm_ok)
  show ?thesis
    using okA_calm_bind [OF install answer] calm_answers [OF assms(1)]
    by (simp add: forward_on_def Split_def wp_bind [of _ "liftA _"] wp_lift calm_ok)
qed

lemma okA_handle_forward:
  assumes "world_ok w" "okA E acquirer w (\<lambda>(t, err) w'. w' = w \<and> (\<forall>r. t = Some r \<longrightarrow> r \<in> dom (w_transport w)))"
  shows "okA E (handle_forward_request service acquirer fd) w (\<lambda>_ w'. calm w w')"
proof -
  have "okA E (bindA format_listeners (\<lambda>listeners. thenA (SendOkayA fd) (thenA (SendProtocolStringA fd listeners) (retA v)))) w
      (\<lambda>_ w'. calm w w')" for v :: bool
    unfolding wp_bind
    by (rule okA_mono [OF okA_format_listeners [OF assms(1)]])
      (auto intro!: okA_calm_then calm_answers okA_calm_ret assms(1) dest: calm_ok)
  moreover have "okA E (thenA remove_all_listeners (thenA (SendOkayA fd) (thenA (SendOkayA fd) (retA v)))) w (\<lambda>_ w'. calm w w')"
    for v :: bool
    by (auto intro!: okA_calm_then okA_calm_listeners [OF okA_remove_all_listeners] calm_answers okA_calm_ret assms(1) dest: calm_ok)
  moreover have acquired: "okA E (bindA acquirer (\<lambda>(transport, err). case transport of
      None \<Rightarrow> thenA (SendFailA fd err) (retA v) | Some t \<Rightarrow> thenA (m t) (retA v))) w (\<lambda>_ w'. calm w w')"
    if "\<And>t. t \<in> dom (w_transport w) \<Longrightarrow> okA E (m t) w (\<lambda>_ w'. calm w w')" for m and v :: bool
    unfolding wp_bind
    by (rule okA_mono [OF assms(2)])
      (auto intro!: okA_calm_then calm_answers okA_calm_ret assms(1) that dest: calm_ok split: option.split)
  moreover have fwd: "okA E (case ConsumePrefix service ''killforward:'' of Some rest \<Rightarrow> forward_on True False rest t fd
      | None \<Rightarrow> (case ConsumePrefix (drop 8 service) ''norebind:'' of Some rest \<Rightarrow> forward_on False True rest t fd
         | None \<Rightarrow> forward_on False False (drop 8 service) t fd)) w (\<lambda>_ w'. calm w w')" if "t \<in> dom (w_transport w)" for t
    using okA_forward_on [OF assms(1) that] by (simp split: option.split)
  ultimately show ?thesis
    using okA_calm_ret [OF assms(1)]
    by (simp add: handle_forward_request_def) (intro conjI impI acquired fwd, simp_all)
qed

section \<open>A smart socket and its client\<close>

definition smart_pair :: "nat \<Rightarrow> nat \<Rightarrow> world \<Rightarrow> bool" where
  "smart_pair s p w \<longleftrightarrow> world_ok w \<and> (\<exists>so. w_sock w s = Some so \<and> so_close so = CloseSmart \<and> so_peer so = Some p)"

lemma smart_pairE:
  assumes "smart_pair s p w"
  obtains so po where "w_sock w s = Some so" "so_close so = CloseSmart" "so_peer so = Some p" "s \<noteq> p" "w_sock w p = Some po"
    "is_local po" "so_peer po = Some s" "\<not> so_closing po" "so_transport po = None"
proof -
  obtain so where so: "world_ok w" "w_sock w s = Some so" "so_close so = CloseSmart" "so_peer so = Some p"
    using assms by (auto simp: smart_pair_def)
  then have "\<not> is_local so" by (auto simp: is_local_def)
  with so obtain po where po: "p \<noteq> s" "w_sock w p = Some po" "so_peer po = Some s" "is_local po"
    using world_peer [OF so(1,2,4)] by metis
  have "\<not> so_closing po" "so_transport po = None"
    using socks_okD(2) [OF wfx_parts(1) [OF so(1) [unfolded world_ok_def]] po(2)] po so by (auto simp: peer_ok_def)
  with so po that show ?thesis by metis
qed

lemma smart_pair_ok: "smart_pair s p w \<Longrightarrow> world_ok w"
  by (simp add: smart_pair_def)

lemma smart_pair_calm: "smart_pair s p w \<Longrightarrow> calm w w' \<Longrightarrow> smart_pair s p w'"
  by (simp add: smart_pair_def calm_def)

lemma okA_smart_calm:
  assumes "smart_pair s p w" "okA E m w (\<lambda>_ w'. calm w w')"
  shows "okA E m w (\<lambda>_ w'. smart_pair s p w')"
  by (rule okA_mono [OF assms(2)]) (rule smart_pair_calm [OF assms(1)])

lemma okA_smart_then:
  assumes "okA E m w (\<lambda>_ w'. smart_pair s p w')" "\<And>w'. smart_pair s p w' \<Longrightarrow> okA E n w' Q"
  shows "okA E (thenA m n) w Q"
  unfolding wp_then by (rule okA_mono [OF assms(1)]) (rule assms(2))

lemma smart_pair_upd:
  assumes "smart_pair s p w" "w_sock w s = Some so" "\<And>t. v = Some t \<Longrightarrow> t \<in> dom (w_transport w)"
  shows "smart_pair s p (w\<lparr>w_sock := (w_sock w)(s \<mapsto> so\<lparr>so_transport := v, so_smart_socket_data := x\<rparr>)\<rparr>)"
proof (rule smart_pairE [OF assms(1)])
  fix so' po
  assume so: "w_sock w s = Some so'" "so_close so' = CloseSmart" "so_peer so' = Some p" "s \<noteq> p" "w_sock w p = Some po" "is_local po"
  have ok: "world_ok w" using assms(1) by (rule smart_pair_ok)
  have [simp]: "so' = so" using so(1) assms(2) by simp
  have "shape_ok (inst_of w) s so"
    using socks_okD(1) [OF wfx_parts(1) [OF ok [unfolded world_ok_def]] assms(2)] .
  then have "shape_ok (inst_of w) s (so\<lparr>so_transport := v, so_smart_socket_data := x\<rparr>)"
    using so(2) by (simp add: shape_ok_def)
  then have "world_ok (w\<lparr>w_sock := (w_sock w)(s \<mapsto> so\<lparr>so_transport := v, so_smart_socket_data := x\<rparr>)\<rparr>)"
    by (intro world_ok_upd [OF ok assms(2)]) (use so assms(3) in \<open>auto simp: is_local_def\<close>)
  then show ?thesis using so by (simp add: smart_pair_def)
qed

lemma okA_smart_transport:
  assumes "smart_pair s p w" "\<And>t. v = Some t \<Longrightarrow> t \<in> dom (w_transport w)"
  shows "okA E (mod_sock s (\<lambda>so. so\<lparr>so_transport := v\<rparr>)) w
    (\<lambda>_ w'. smart_pair s p w' \<and> dom (w_transport w') = dom (w_transport w) \<and> (\<exists>so'. w_sock w' s = Some so' \<and> so_transport so' = v))"
proof (rule smart_pairE [OF assms(1)])
  fix so
  assume so: "w_sock w s = Some so"
  then show ?thesis using smart_pair_upd [OF assms(1) so, of v "so_smart_socket_data so"] assms(2) by (simp add: wp)
qed

lemma okA_smart_data:
  assumes "smart_pair s p w"
  shows "okA E (mod_sock s (\<lambda>so. so\<lparr>so_smart_socket_data := f so\<rparr>)) w (\<lambda>_ w'. smart_pair s p w')"
proof (rule smart_pairE [OF assms(1)])
  fix so
  assume so: "w_sock w s = Some so"
  then have "so_transport so = Some t \<Longrightarrow> t \<in> dom (w_transport w)" for t
    using socks_okD(4) [OF wfx_parts(1) [OF smart_pair_ok [OF assms, unfolded world_ok_def]] so] by blast
  then show ?thesis using smart_pair_upd [OF assms(1) so, of "so_transport so" "f so"] so by (simp add: wp)
qed

text \<open>Taking the client away from its smart socket, which is then about to be closed.\<close>

lemma unlink_smart:
  assumes "wfx D w" "w_sock w s = Some so" "so_close so = CloseSmart" "so_peer so = Some p" "w_sock w p = Some po"
    and "s \<notin> D" "p \<notin> D" "s \<noteq> p" "so_peer po = Some s" "is_local po"
    and "shape_ok (inst_of w) p po'" "is_local po'" "so_peer po' = None" "so_closing po' = so_closing po"
    and "\<And>t. so_transport po' = Some t \<Longrightarrow> t \<in> dom (w_transport w)"
  shows "wfx (insert s D) (w\<lparr>w_sock := (w_sock w)(p \<mapsto> po')\<rparr>)"
proof -
  note parts = wfx_parts [OF assms(1)]
  have "peer_ok (insert s D) ((w_sock w)(p \<mapsto> po')) x xo" if "w_sock w x = Some xo" "x \<noteq> s" "x \<noteq> p" "x \<notin> D" for x xo
    using socks_okD(2) [OF parts(1) that(1)] that assms(2,4,5,8,9) by (auto simp: peer_ok_def split: option.splits)
  moreover have "peer_ok (insert s D) ((w_sock w)(p \<mapsto> po')) p po'" using assms(12,13) by (simp add: peer_ok_def)
  ultimately have "socks_ok (insert s D) ((w_sock w)(p \<mapsto> po')) (inst_of w) (dom (w_transport w)) (w_next_sock w)"
    using parts(1) assms(5,11,15) unfolding socks_ok_def by auto
  moreover have "lists_ok ((w_sock w)(p \<mapsto> po')) (local_socket_list w) (local_socket_closing_list w) (device_tracker_list w)"
    by (rule lists_ok_same [OF parts(2) assms(5)]) (use assms(10,12,14) in \<open>auto simp: is_local_def\<close>)
  moreover have "owners_ok (inst_of w) ((w_sock w)(p \<mapsto> po')) (listener_list w)"
    by (rule owners_ok_upd [OF parts(6) assms(5,11)]) (use assms(10,12) in simp)
  ultimately show ?thesis using parts(3-5) by (simp add: wfx_def inst_of_def)
qed

section \<open>Host requests\<close>

lemma okA_live:
  assumes "t \<in> dom (w_transport w)" "\<And>tr. okA E (f tr) w Q"
  shows "okA E (bindA (deref_tr t) f) w Q"
proof -
  obtain tr where "w_transport w t = Some tr" using assms(1) by blast
  then show ?thesis using assms(2) by (simp add: wp)
qed

lemma okA_request_transport:
  assumes "smart_pair s p w" "OutOfRange \<in> E"
  shows "okA E (request_transport s type serial tid b) w (\<lambda>(t, err) w'. w' = w \<and> (\<forall>r. t = Some r \<longrightarrow> r \<in> dom (w_transport w)))"
proof (rule smart_pairE [OF assms(1)])
  fix so
  assume so: "w_sock w s = Some so"
  then have "so_transport so = Some t \<Longrightarrow> t \<in> dom (w_transport w)" for t
    using socks_okD(4) [OF wfx_parts(1) [OF smart_pair_ok [OF assms(1), unfolded world_ok_def]] so] by blast
  with so okA_acquire [OF smart_pair_ok [OF assms(1)] assms(2)] show ?thesis
    by (simp add: request_transport_def wp split: option.split)
qed

lemma okA_with_transport:
  assumes "smart_pair s p w" "OutOfRange \<in> E"
    and "\<And>err. okA E (f None err) w Q" "\<And>t err. t \<in> dom (w_transport w) \<Longrightarrow> okA E (f (Some t) err) w Q"
  shows "okA E (bindA (request_transport s type serial tid b) (\<lambda>(t, err). f t err)) w Q"
  unfolding wp_bind
proof (rule okA_mono [OF okA_request_transport [OF assms(1,2)]], goal_cases)
  case (1 x w')
  then show ?case using assms(3,4) by (cases x, cases "fst x") auto
qed

lemma okA_transport_query:
  assumes "smart_pair s p w" "OutOfRange \<in> E"
  shows "okA E (transport_query s type serial tid fd answer) w (\<lambda>_ w'. smart_pair s p w')"
proof -
  have "okA E (bindA (deref_tr t) (\<lambda>tr. SendOkayString fd (answer tr))) w (\<lambda>_ w'. smart_pair s p w')" if "t \<in> dom (w_transport w)" for t
    by (rule okA_live [OF that okA_smart_calm [OF assms(1) okA_SendOkayString [OF smart_pair_ok [OF assms(1)]]]])
  moreover have "okA E (SendFailA fd err) w (\<lambda>_ w'. smart_pair s p w')" for err
    by (rule okA_smart_calm [OF assms(1) okA_calm_SendFail [OF smart_pair_ok [OF assms(1)]]])
  ultimately show ?thesis unfolding transport_query_def
    by (intro okA_with_transport [OF assms]) (auto simp: wp_then wp_ret)
qed

lemma okA_switch_transport:
  assumes "smart_pair s p w" "OutOfRange \<in> E"
  shows "okA E (switch_transport service serial tid fd s) w (\<lambda>_ w'. smart_pair s p w')"
proof -
  note ok = smart_pair_ok [OF assms(1)]
  have fail: "okA E (thenA (SendFailA fd err) (retA v)) w (\<lambda>_ w'. smart_pair s p w')" for err and v :: host_request_result
    using okA_smart_calm [OF assms(1) okA_calm_SendFail [OF ok]] by (simp add: wp_then wp_ret)
  have done_: "okA E (thenA (SendOkayA fd) (thenA (whenA (\<not> legacy) (bindA (deref_tr t) (\<lambda>tr. WriteFdExactlyA fd (le64 (t_id tr)))))
      (retA v))) w1 (\<lambda>_ w'. smart_pair s p w')"
    if "smart_pair s p w1" "t \<in> dom (w_transport w1)" for w1 legacy t and v :: host_request_result
  proof (rule okA_smart_calm [OF that(1)], intro okA_calm_then calm_answers okA_calm_ret smart_pair_ok [OF that(1)])
    fix w2
    assume c: "calm w1 w2"
    have "okA E (bindA (deref_tr t) (\<lambda>tr. WriteFdExactlyA fd (le64 (t_id tr)))) w2 (\<lambda>_ w'. calm w2 w')"
      by (rule okA_live [OF calm_in [OF c that(2)] okA_WriteFd [OF calm_ok [OF c]]])
    then show "okA E (whenA (\<not> legacy) (bindA (deref_tr t) (\<lambda>tr. WriteFdExactlyA fd (le64 (t_id tr))))) w2 (\<lambda>_ w'. calm w2 w')"
      using calm_refl [OF calm_ok [OF c]] by (simp add: wp_when)
  qed (rule calm_ok)
  have sel: "okA E (bindA (acquireA type serial tid False) (\<lambda>(t, err). case t of
      None \<Rightarrow> thenA (SendFailA fd err) (retA u)
    | Some t \<Rightarrow> thenA (mod_sock s (\<lambda>so. so\<lparr>so_transport := Some t\<rparr>))
        (thenA (SendOkayA fd) (thenA (whenA (\<not> legacy) (bindA (deref_tr t) (\<lambda>tr. WriteFdExactlyA fd (le64 (t_id tr)))))
        (retA v))))) w (\<lambda>_ w'. smart_pair s p w')" for type serial tid legacy and u v :: host_request_result
    unfolding wp_bind
  proof (rule okA_mono [OF okA_acquire [OF ok assms(2)]], goal_cases)
    case (1 x w1)
    have "okA E (thenA (mod_sock s (\<lambda>so. so\<lparr>so_transport := Some t\<rparr>)) (thenA (SendOkayA fd)
       (thenA (whenA (\<not> legacy) (bindA (deref_tr t) (\<lambda>tr. WriteFdExactlyA fd (le64 (t_id tr))))) (retA v)))) w
        (\<lambda>_ w'. smart_pair s p w')" if "t \<in> dom (w_transport w)" for t
      unfolding wp_then [of _ "mod_sock _ _"] by (rule okA_mono [OF okA_smart_transport [OF assms(1)]]) (use that done_ in auto)
    with 1 fail show ?case by (cases x, cases "fst x") auto
  qed
  then show ?thesis using fail by (simp add: switch_transport_def split: option.split)
qed

lemma okA_reconnect_offline:
  assumes "world_ok w"
  shows "okA E (reconnect_offline fd) w (\<lambda>_ w'. calm w w')"
  unfolding reconnect_offline_def wp_bind [of _ "deref_list _"] Let_def
  by (rule okA_mono [OF okA_deref_list [OF assms]])
    (auto intro!: okA_calm_then okA_calm_usb okA_SendOkayString assms dest: calm_ok)

lemma okA_disconnect:
  assumes "world_ok w"
  shows "okA E (disconnect_request address fd) w (\<lambda>_ w'. calm w w')"
proof -
  have kick: "okA E (thenA (kick_transport t b) (SendOkayString fd str)) w (\<lambda>_ w'. calm w w')" for t b str
    by (intro okA_calm_then okA_calm_kick okA_SendOkayString assms) (rule calm_ok)
  have found: "okA E (bindA (find_transportA serial) f) w (\<lambda>_ w'. calm w w')"
    if "\<And>t. okA E (f t) w (\<lambda>_ w'. calm w w')" for serial f
    unfolding wp_bind by (rule okA_mono [OF okA_find_transport [OF assms]]) (use that in simp)
  have "okA E (bindA (find_transportA serial) (\<lambda>t. case t of None \<Rightarrow> SendFailA fd x
      | Some t \<Rightarrow> thenA (kick_transport t False) (SendOkayString fd y))) w (\<lambda>_ w'. calm w w')" for serial x y
    by (rule found) (use kick calm_answers [OF assms] in \<open>simp split: option.split\<close>)
  then have other: "okA E (case r of Inl err \<Rightarrow> SendFailA fd (x err) | Inr serial \<Rightarrow> bindA (find_transportA serial) (\<lambda>t. case t of
      None \<Rightarrow> SendFailA fd (y serial) | Some t \<Rightarrow> thenA (kick_transport t False) (SendOkayString fd z))) w (\<lambda>_ w'. calm w w')" for r x y z
    using calm_answers [OF assms] by (simp split: sum.split)
  have all: "okA E (thenA kick_all_tcp_devices (SendOkayString fd str)) w (\<lambda>_ w'. calm w w')" for str
    by (intro okA_calm_then okA_calm_tcp okA_SendOkayString assms) (rule calm_ok)
  show ?thesis
  proof (cases "address = []")
    case False
    show ?thesis unfolding disconnect_request_def if_not_P [OF False]
      by (rule found, split option.split, intro conjI allI impI other kick)
  qed (simp add: disconnect_request_def all)
qed

lemma okA_reconnect:
  assumes "smart_pair s p w" "OutOfRange \<in> E"
  shows "okA E (reconnect_request s type serial tid fd) w (\<lambda>_ w'. smart_pair s p w')"
proof -
  note ok = smart_pair_ok [OF assms(1)]
  have "okA E (thenA (kick_transport t True) (bindA (deref_tr t) (\<lambda>tr.
      bindA (getA (\<lambda>w. c_env (w_config w))) (\<lambda>e. SendOkayString fd (str tr e))))) w (\<lambda>_ w'. calm w w')"
    if t: "t \<in> dom (w_transport w)" for t str
  proof (rule okA_calm_then [OF okA_calm_kick [OF ok]])
    fix w'
    assume c: "calm w w'"
    show "okA E (bindA (deref_tr t) (\<lambda>tr. bindA (getA (\<lambda>w. c_env (w_config w))) (\<lambda>e. SendOkayString fd (str tr e)))) w' (\<lambda>_ w''. calm w' w'')"
      by (rule okA_live [OF calm_in [OF c t]]) (simp add: wp okA_SendOkayString calm_ok [OF c])
  qed
  then show ?thesis unfolding reconnect_request_def
    by (intro okA_with_transport [OF assms]) (simp_all add: okA_smart_calm [OF assms(1)] okA_SendOkayString [OF ok])
qed

lemma okA_send_connect:
  assumes "world_ok w" "t \<in> dom (w_transport w)" "LogFatal \<in> E"
  shows "okA E (send_connect t) w (\<lambda>_ w'. quiet w w')"
  unfolding send_connect_def
  by (rule okA_live [OF assms(2)]) (use assms okA_send_packet [of w t E] in \<open>auto simp: wp\<close>)

lemma okA_attach:
  assumes "smart_pair s p w" "{OutOfRange, LogFatal} \<subseteq> E"
  shows "okA E (attach_request s type serial tid fd) w (\<lambda>_ w'. smart_pair s p w')"
proof -
  note ok = smart_pair_ok [OF assms(1)]
  have attach: "okA E (transport_Attach t) w (\<lambda>_ w'. calm w w')" if t: "t \<in> dom (w_transport w)" for t
  proof -
    have "okA E (case x of Some err \<Rightarrow> retA (Some err) | None \<Rightarrow> thenA (send_connect t) (retA None)) w' (\<lambda>_ w''. calm w' w'')"
      if c: "calm w w'" for w' and x :: "string option"
    proof -
      have "okA E (send_connect t) w' (\<lambda>_ w''. calm w' w'')"
        by (rule okA_calm_quiet [OF calm_ok [OF c] okA_send_connect [OF calm_ok [OF c] calm_in [OF c t]]]) (use assms(2) in simp)
      then show ?thesis using calm_refl [OF calm_ok [OF c]] by (simp add: wp_then wp_ret split: option.split)
    qed
    then have "okA E (thenA (mod_tr t ResetKeys) (case x of Some err \<Rightarrow> retA (Some err) | None \<Rightarrow> thenA (send_connect t) (retA None))) w
        (\<lambda>_ w'. calm w w')" for x :: "string option"
      by (intro okA_calm_then okA_calm_tr [OF ok t]) simp_all
    then show ?thesis unfolding transport_Attach_def by (intro okA_live [OF t]) (simp add: wp_bind wp_get wp_ret calm_refl [OF ok])
  qed
  have "okA E (bindA (transport_Attach t) (\<lambda>r. case r of Some err \<Rightarrow> SendFailA fd err
      | None \<Rightarrow> bindA (deref_tr t) (\<lambda>tr. SendOkayString fd (c_str (serial_name tr) @ str)))) w (\<lambda>_ w'. calm w w')"
    if t: "t \<in> dom (w_transport w)" for t str
  proof (rule okA_calm_bind [where P = "\<lambda>_ _. True"])
    show "okA E (transport_Attach t) w (\<lambda>x w'. calm w w' \<and> True)" using attach [OF t] by simp
  next
    fix r :: "string option" and w'
    assume c: "calm w w'"
    have "okA E (bindA (deref_tr t) (\<lambda>tr. SendOkayString fd (c_str (serial_name tr) @ str))) w' (\<lambda>_ w''. calm w' w'')"
      by (rule okA_live [OF calm_in [OF c t] okA_SendOkayString [OF calm_ok [OF c]]])
    then show "okA E (case r of Some err \<Rightarrow> SendFailA fd err
        | None \<Rightarrow> bindA (deref_tr t) (\<lambda>tr. SendOkayString fd (c_str (serial_name tr) @ str))) w' (\<lambda>_ w''. calm w' w'')"
      using calm_answers [OF calm_ok [OF c]] by (simp split: option.split)
  qed
  then show ?thesis unfolding attach_request_def
    by (intro okA_with_transport [OF assms(1)])
      (use assms(2) in \<open>simp_all add: okA_smart_calm [OF assms(1)] calm_answers [OF ok]\<close>)
qed

lemma smart_pair_kept:
  assumes "smart_pair s p w" "w_sock w s = Some so" "so_transport so = None" "kept t w w'" "world_ok w'"
  shows "smart_pair s p w'"
proof (rule smart_pairE [OF assms(1)])
  fix so' po
  assume so: "w_sock w s = Some so'" "so_close so' = CloseSmart" "so_peer so' = Some p" "w_sock w p = Some po" "so_transport po = None"
  then have "clear_of t w so'" using assms(2,3) by (simp add: clear_of_def)
  then obtain x where "w_sock w' s = Some x" "flushed_to so' x" using assms(4) so(1) unfolding kept_def by blast
  with so assms(5) flushed_to_sel [of so' x] show ?thesis by (simp add: smart_pair_def)
qed

lemma smart_pair_alike:
  assumes "smart_pair s p w" "alike w w'" "world_ok w'"
  shows "smart_pair s p w'"
proof (rule smart_pairE [OF assms(1)])
  fix so
  assume so: "w_sock w s = Some so" "so_close so = CloseSmart" "so_peer so = Some p"
  obtain x where "w_sock w' s = Some x" "flushed_to so x" using assms(2) so(1) by (rule alikeD)
  with so assms(3) flushed_to_sel [of so x] show ?thesis by (simp add: smart_pair_def)
qed

lemma okA_forward_request:
  assumes "smart_pair s p w" "OutOfRange \<in> E"
  shows "okA E (forward_request service s type serial tid fd) w (\<lambda>_ w'. smart_pair s p w')"
proof (rule smart_pairE [OF assms(1)])
  fix so
  assume so: "w_sock w s = Some so"
  note ok = smart_pair_ok [OF assms(1)]
  have tr: "so_transport so = Some t \<Longrightarrow> t \<in> dom (w_transport w)" for t
    using socks_okD(4) [OF wfx_parts(1) [OF ok [unfolded world_ok_def]] so] by blast
  have "okA E (acquireA type serial tid False) w (\<lambda>x w'. w' = w \<and> (\<forall>r. fst x = Some r \<longrightarrow> r \<in> dom (w_transport w)))"
    by (rule okA_mono [OF okA_acquire [OF ok assms(2)]]) (simp add: case_prod_beta)
  then have "okA E (bindA (deref_sock s) (\<lambda>so. case so_transport so of Some t \<Rightarrow> retA (Some t, [])
      | None \<Rightarrow> bindA (acquireA type serial tid False) (\<lambda>(t, err). retA (t, []))) ) w
      (\<lambda>(t, err) w'. w' = w \<and> (\<forall>r. t = Some r \<longrightarrow> r \<in> dom (w_transport w)))"
    using so tr by (simp add: wp case_prod_beta split: option.split)
  then show ?thesis unfolding forward_request_def wp_bind [of _ "handle_forward_request _ _ _"] wp_ret
    by (intro okA_smart_calm [OF assms(1)] okA_handle_forward [OF ok])
qed

context peer_sink
begin

lemma okA_detach:
  assumes "smart_pair s p w" "OutOfRange \<in> E"
  shows "okA E (detach_request enq s type serial tid fd) w (\<lambda>_ w'. smart_pair s p w')"
proof -
  have detach: "okA E (transport_Detach enq t) w1 (\<lambda>_ w'. smart_pair s p w' \<and> t \<in> dom (w_transport w'))"
    if w1: "smart_pair s p w1" "w_sock w1 s = Some so" "so_transport so = None" "t \<in> dom (w_transport w1)" for w1 t so
  proof -
    note ok = smart_pair_ok [OF w1(1)]
    have state: "okA E (case x of Some err \<Rightarrow> retA (Some err) | None \<Rightarrow> thenA (SetConnectionState enq t st) (retA None)) w'
        (\<lambda>_ w''. smart_pair s p w'' \<and> t \<in> dom (w_transport w''))"
      if w': "smart_pair s p w'" "t \<in> dom (w_transport w')" for w' st and x :: "string option"
    proof -
      have "okA E (SetConnectionState enq t st) w' (\<lambda>_ w''. smart_pair s p w'' \<and> t \<in> dom (w_transport w''))"
      proof (rule okA_mono [OF okA_SetConnectionState [OF smart_pair_ok [OF w'(1)] w'(2)]], goal_cases)
        case (1 _ w2)
        then show ?case using smart_pair_alike [OF w'(1), of w2] same_rest_dom [of w' w2] w'(2) by simp
      qed
      with w' show ?thesis by (simp add: wp_then wp_ret split: option.split)
    qed
    obtain tr where tr: "w_transport w1 t = Some tr" using w1(4) by blast
    have "okA E (thenA (handle_offline enq t) (case x of Some err \<Rightarrow> retA (Some err)
        | None \<Rightarrow> thenA (SetConnectionState enq t kCsDetached) (retA None))) w1 (\<lambda>_ w'. smart_pair s p w' \<and> t \<in> dom (w_transport w'))"
      for x :: "string option"
      unfolding wp_then [of _ "handle_offline _ _"]
    proof (rule okA_mono [OF okA_handle_offline [OF ok tr]], goal_cases)
      case (1 _ w2)
      then have "smart_pair s p w2" "t \<in> dom (w_transport w2)"
        using smart_pair_kept [OF w1(1-3), of t w2] same_transports_in [OF _ w1(4), of w2] by (simp_all add: offline_post_def)
      then show ?case by (rule state)
    qed
    with tr w1 show ?thesis by (simp add: transport_Detach_def wp_bind wp_deref_tr wp_get wp_ret)
  qed
  have answer: "okA E (case r of Some err \<Rightarrow> SendFailA fd err
      | None \<Rightarrow> bindA (deref_tr t) (\<lambda>tr. SendOkayString fd (c_str (serial_name tr) @ str))) w' (\<lambda>_ w''. smart_pair s p w'')"
    if w': "smart_pair s p w'" "t \<in> dom (w_transport w')" for w' r t str
    using okA_live [OF w'(2) okA_smart_calm [OF w'(1) okA_SendOkayString [OF smart_pair_ok [OF w'(1)]]]]
      okA_smart_calm [OF w'(1) okA_calm_SendFail [OF smart_pair_ok [OF w'(1)]]] by (simp split: option.split)
  have "okA E (thenA (mod_sock s (\<lambda>so. so\<lparr>so_transport := None\<rparr>)) (bindA (transport_Detach enq t) (\<lambda>r. case r of
      Some err \<Rightarrow> SendFailA fd err | None \<Rightarrow> bindA (deref_tr t) (\<lambda>tr. SendOkayString fd (c_str (serial_name tr) @ str))))) w
      (\<lambda>_ w'. smart_pair s p w')" if t: "t \<in> dom (w_transport w)" for t str
    unfolding wp_then [of _ "mod_sock _ _"] wp_bind [of _ "transport_Detach _ _"]
  proof (rule okA_mono [OF okA_smart_transport [OF assms(1)]], simp, goal_cases)
    case (1 _ w1)
    then obtain so where "smart_pair s p w1" "w_sock w1 s = Some so" "so_transport so = None" "t \<in> dom (w_transport w1)" using t by auto
    then show ?case by (rule okA_mono [OF detach]) (use answer in blast)
  qed
  then show ?thesis unfolding detach_request_def
    by (intro okA_with_transport [OF assms])
      (simp_all add: okA_smart_calm [OF assms(1)] okA_calm_SendFail [OF smart_pair_ok [OF assms(1)]])
qed

lemma okA_host_request:
  assumes "smart_pair s p w" "{OutOfRange, LogFatal} \<subseteq> E"
  shows "okA E (host_request enq service type serial tid fd s) w (\<lambda>_ w'. smart_pair s p w')"
proof -
  note ok = smart_pair_ok [OF assms(1)]
  have E: "OutOfRange \<in> E" "LogFatal \<in> E" using assms(2) by simp_all
  have calm: "okA E (thenA m (retA v)) w (\<lambda>_ w'. smart_pair s p w')" if "okA E m w (\<lambda>_ w'. calm w w')" for m and v :: host_request_result
    using okA_smart_calm [OF assms(1) that] by (simp add: wp_then wp_ret)
  have pair: "okA E (thenA m (retA v)) w (\<lambda>_ w'. smart_pair s p w')" if "okA E m w (\<lambda>_ w'. smart_pair s p w')"
    for m and v :: host_request_result
    using that by (simp add: wp_then wp_ret)
  have devices: "okA E (bindA (list_transportsA x) (SendOkayString fd)) w (\<lambda>_ w'. calm w w')" for x
    unfolding wp_bind by (rule okA_mono [OF okA_list_transports [OF ok]]) (simp add: okA_SendOkayString [OF ok])
  have emulator: "okA E (case r of None \<Rightarrow> retA u | Some n \<Rightarrow> bindA (local_connect (g n)) (\<lambda>_. retA u)) w (\<lambda>_ w'. smart_pair s p w')"
    for r :: "nat option" and u :: host_request_result and g
    using okA_smart_calm [OF assms(1) okA_local_connect [OF ok]] assms(1) by (simp add: wp_bind wp_ret split: option.split)
  note answer = okA_SendOkayString [OF ok] okA_reconnect_offline [OF ok] okA_disconnect [OF ok]
  note special = okA_switch_transport [OF assms(1) E(1)] okA_transport_query [OF assms(1) E(1)] okA_forward_request [OF assms(1) E(1)]
    okA_reconnect [OF assms(1) E(1)] okA_attach [OF assms] okA_detach [OF assms(1) E(1)]
  show ?thesis unfolding host_request_def wp_bind [of _ "getA _"] wp_get Let_def
    by ((rule okA_if) | (rule special) | (rule emulator) | (rule okA_option) | (rule calm, (rule answer | rule devices)) |
      (rule pair, rule special))+
qed

lemma okA_handle_host_request:
  assumes "smart_pair s p w" "{OutOfRange, LogFatal, ProcessExit} \<subseteq> E"
  shows "okA E (handle_host_request enq service type serial tid fd s) w (\<lambda>_ w'. smart_pair s p w')"
proof -
  note ok = smart_pair_ok [OF assms(1)]
  have "okA E (SendFailA fd err) w (\<lambda>_ w'. smart_pair s p w')" for err
    by (rule okA_smart_calm [OF assms(1) okA_calm_SendFail [OF ok]])
  moreover have "okA E (SendOkayA fd) w (\<lambda>_ w'. okA E (stopA ProcessExit :: unit act) w' (\<lambda>_ w'. smart_pair s p w'))"
    by (rule okA_mono [OF okA_SendOkay]) (use assms(2) in \<open>simp add: wp_stop\<close>)
  ultimately have "okA E (whenA (service = ''kill'') (if reject then SendFailA fd err
      else thenA (SendOkayA fd) (stopA ProcessExit))) w (\<lambda>_ w'. smart_pair s p w')" for reject err
    using assms(1) by (simp add: wp_when wp_then)
  then show ?thesis unfolding handle_host_request_def wp_bind [of _ "getA _"] wp_get
    by (rule okA_smart_then) (use okA_host_request assms(2) in simp)
qed

end

section \<open>Services\<close>

definition service_post :: "nat \<Rightarrow> nat \<Rightarrow> nat \<Rightarrow> world \<Rightarrow> bool" where
  "service_post s p a w \<longleftrightarrow> wfx {a} w \<and> a \<noteq> s \<and> a \<noteq> p \<and>
     (\<exists>ao. w_sock w a = Some ao \<and> so_peer ao = None \<and> \<not> so_closing ao \<and> (is_local ao \<or> so_close ao = CloseTracker)) \<and>
     (\<exists>so. w_sock w s = Some so \<and> so_close so = CloseSmart \<and> so_peer so = Some p)"

lemma okA_service_tracker:
  assumes "smart_pair s p w"
  shows "okA E (create_device_tracker out) w (\<lambda>a w'. service_post s p a w')"
proof (rule smart_pairE [OF assms])
  fix so po
  assume so: "w_sock w s = Some so" "so_close so = CloseSmart" "so_peer so = Some p" "w_sock w p = Some po"
  note ok = smart_pair_ok [OF assms]
  define ao where "ao = (new_asocket EnqueueTracker ReadyTracker None CloseTracker)\<lparr>so_update_needed := True, so_output_type := out\<rparr>"
  have "shape_ok (inst_of w) (w_next_sock w) ao" "so_close ao = CloseTracker" "so_transport ao = None" "so_peer ao = None" "\<not> so_closing ao"
    by (simp_all add: ao_def new_asocket_def shape_ok_def)
  moreover from wfx_new_tracker [OF ok this(1-3)]
  have "wfx {w_next_sock w} (w\<lparr>w_sock := (w_sock w)(w_next_sock w \<mapsto> ao), w_next_sock := Suc (w_next_sock w),
    device_tracker_list := w_next_sock w # device_tracker_list w\<rparr>)" .
  moreover have "w_next_sock w \<noteq> s" "w_next_sock w \<noteq> p" using world_next [OF ok] so by auto
  ultimately show ?thesis using so by (auto simp: create_device_tracker_def wp service_post_def ao_def [symmetric])
qed

lemma okA_service_thread:
  assumes "smart_pair s p w" "{LogFatal, CheckFailed} \<subseteq> E"
  shows "okA E (thread_service func) w (\<lambda>r w'. \<exists>a. r = Some a \<and> service_post s p a w')"
proof -
  have socket: "okA E (create_local_socket (Some fd)) w1 (\<lambda>a w'. service_post s p a w')"
    if w1: "smart_pair s p w1" "inst_of w1 fd = None" for fd w1
  proof (rule okA_mono [OF okA_create_local_socket [OF smart_pair_ok [OF w1(1)] w1(2)]], goal_cases)
    case (2 a w2)
    obtain so po where so: "w_sock w1 s = Some so" "so_close so = CloseSmart" "so_peer so = Some p" "w_sock w1 p = Some po"
      using w1(1) by (rule smart_pairE)
    obtain ao where ao: "w_sock w2 a = Some ao" "fresh_local fd ao" using 2 by (auto simp: added_local_def)
    have "wfx {a} w2" by (rule wfx_alone [OF _ ao(1)]) (use 2 ao in \<open>simp_all add: added_local_def fresh_local_def\<close>)
    moreover have "a \<noteq> s" "a \<noteq> p" using 2 so by (auto simp: added_local_def)
    moreover have "w_sock w2 s = Some so" using 2 so \<open>a \<noteq> s\<close> by (simp add: added_local_def)
    ultimately show ?case using so ao by (simp add: service_post_def fresh_local_def is_local_def)
  qed (use assms(2) in simp)
  have none: "okA E (create_local_socket None) w1 Q" for w1 and Q :: "nat \<Rightarrow> world \<Rightarrow> bool"
    using assms(2) by (auto simp: create_local_socket_def install_local_socket_def fdevent_create_def wp)
  show ?thesis unfolding thread_service_def create_service_thread_def wp_bind [of _ "bindA _ _"] wp_bind [of _ new_fd] wp_bind [of _ "create_local_socket _"] wp_ret
  proof (rule okA_mono [OF okA_new_fd], goal_cases)
    case (1 r w1)
    have pair: "smart_pair s p w1" using smart_pair_calm [OF assms(1) calm_quiet [OF smart_pair_ok [OF assms(1)]]] 1 by blast
    show ?case
    proof (cases r)
      case (Some fd)
      define w2 where "w2 = w1\<lparr>w_threads := w_threads w1 @ [func fd]\<rparr>"
      have "quiet w1 w2" by (simp add: w2_def)
      then have "smart_pair s p w2" "inst_of w2 fd = None"
        using smart_pair_calm [OF pair calm_quiet [OF smart_pair_ok [OF pair]]] 1 Some by (simp_all add: w2_def inst_of_def)
      from socket [OF this] Some show ?thesis by (simp add: wp w2_def)
    qed (simp add: wp_ret none)
  qed
qed

lemma okA_host_service:
  assumes "smart_pair s p w" "{LogFatal, CheckFailed} \<subseteq> E"
  shows "okA E (host_service_to_socket name serial tid) w
    (\<lambda>r w'. case r of None \<Rightarrow> smart_pair s p w' | Some a \<Rightarrow> service_post s p a w')"
proof -
  have tracker: "okA E (bindA (create_device_tracker out) (\<lambda>s. retA (Some s))) w
      (\<lambda>r w'. case r of None \<Rightarrow> smart_pair s p w' | Some a \<Rightarrow> service_post s p a w')" for out
    using okA_service_tracker [OF assms(1)] by (simp add: wp)
  have thread: "okA E (thread_service func) w (\<lambda>r w'. case r of None \<Rightarrow> smart_pair s p w' | Some a \<Rightarrow> service_post s p a w')" for func
    by (rule okA_mono [OF okA_service_thread [OF assms]]) auto
  have none: "okA E (retA None) w (\<lambda>r w'. case r of None \<Rightarrow> smart_pair s p w' | Some a \<Rightarrow> service_post s p a w')"
    using assms(1) by (simp add: wp)
  show ?thesis unfolding host_service_to_socket_def
    using tracker thread none by (simp split: option.split)
qed

section \<open>The end of a smart socket\<close>

definition smart_post :: "nat \<Rightarrow> int \<Rightarrow> world \<Rightarrow> bool" where
  "smart_post p r w \<longleftrightarrow> world_ok w \<and> (r \<ge> 0 \<longrightarrow> (\<exists>po. w_sock w p = Some po \<and> is_local po))"

lemma okA_smart_fail:
  assumes "smart_pair s p w"
  shows "okA E (smart_fail s) w (smart_post p)"
proof (rule smart_pairE [OF assms])
  fix so
  assume "w_sock w s = Some so"
  then show ?thesis unfolding smart_fail_def wp_then
    by (intro okA_mono [OF okA_sock_close [OF smart_pair_ok [OF assms]]]) (auto simp: wp_ret smart_post_def closed_def)
qed

lemma okA_peer_fd:
  assumes "smart_pair s p w" "\<And>fd. okA E (f fd) w Q"
  shows "okA E (bindA (peer_fd s) f) w Q"
proof (rule smart_pairE [OF assms(1)])
  fix so po
  assume "w_sock w s = Some so" "so_peer so = Some p" "w_sock w p = Some po"
  then show ?thesis using assms(2) by (simp add: peer_fd_def wp)
qed

text \<open>Closing a smart socket that has lost its client.\<close>

lemma okA_close_smart:
  assumes "wfx {s} w" "w_sock w s = Some so" "so_close so = CloseSmart"
    and rest: "\<And>w'. world_ok w' \<Longrightarrow> (\<forall>x. x \<noteq> s \<longrightarrow> w_sock w' x = w_sock w x) \<Longrightarrow> okA E m w' Q"
  shows "okA E (thenA (mod_sock s (\<lambda>so. so\<lparr>so_peer := None\<rparr>)) (thenA (sock_close s) m)) w Q"
proof -
  define w1 where "w1 = w\<lparr>w_sock := (w_sock w)(s \<mapsto> so\<lparr>so_peer := None\<rparr>)\<rparr>"
  note sk = socks_okD [OF wfx_parts(1) [OF assms(1)] assms(2)]
  have "wfx {s} w1" unfolding w1_def
    by (rule wfx_upd_self [OF assms(1,2)]) (use sk assms(3) in \<open>simp_all add: shape_ok_def\<close>)
  moreover have "w_sock w1 s = Some (so\<lparr>so_peer := None\<rparr>)" by (simp add: w1_def)
  moreover have "close_depth = Suc (Suc 2)" by (simp add: close_depth_def)
  ultimately have "okA E (sock_close s) w1 (\<lambda>_ w'. world_ok w' \<and> same_but {s} w1 w')"
    using okA_mono [OF okA_close_solo [of s "{}" w1 "so\<lparr>so_peer := None\<rparr>" E 2], where Q = "\<lambda>_ w'. world_ok w' \<and> same_but {s} w1 w'"]
    by (simp add: sock_close_def world_ok_def)
  then have "okA E (sock_close s) w1 (\<lambda>_ w'. okA E m w' Q)"
  proof (rule okA_mono, goal_cases)
    case (1 _ w')
    show ?case by (rule rest) (use 1 in \<open>auto simp: same_but_def w1_def\<close>)
  qed
  then show ?thesis using assms(2) by (simp add: wp w1_def)
qed

lemma service_postE:
  assumes "service_post s p a w"
  obtains so po ao where "wfx {a} w" "a \<noteq> s" "a \<noteq> p" "w_sock w a = Some ao" "so_peer ao = None" "\<not> so_closing ao"
    "is_local ao \<or> so_close ao = CloseTracker" "w_sock w s = Some so" "so_close so = CloseSmart" "so_peer so = Some p"
    "s \<noteq> p" "w_sock w p = Some po" "is_local po" "so_peer po = Some s" "\<not> so_closing po"
proof -
  obtain so ao where so: "wfx {a} w" "a \<noteq> s" "a \<noteq> p" "w_sock w a = Some ao" "so_peer ao = None" "\<not> so_closing ao"
    "is_local ao \<or> so_close ao = CloseTracker" "w_sock w s = Some so" "so_close so = CloseSmart" "so_peer so = Some p"
    using assms by (auto simp: service_post_def)
  have "peer_ok {a} (w_sock w) s so" using socks_okD(2) [OF wfx_parts(1) [OF so(1)] so(8)] so(2) by simp
  then obtain po where po: "s \<noteq> p" "w_sock w p = Some po" "so_peer po = Some s" "is_local so \<or> is_local po"
    using so(10) by (auto simp: peer_ok_def)
  have "peer_ok {a} (w_sock w) p po" using socks_okD(2) [OF wfx_parts(1) [OF so(1)] po(2)] so(3) by simp
  then have "\<not> so_closing po" using po(3) by (simp add: peer_ok_def)
  moreover have "is_local po" using po(4) so(9) by (auto simp: is_local_def)
  ultimately show ?thesis using so po that by metis
qed

lemma service_post_quiet: "service_post s p a w \<Longrightarrow> quiet w w' \<Longrightarrow> service_post s p a w'"
  by (simp add: service_post_def quiet_wfx quiet_sock)

lemma shape_callbacks:
  assumes "shape_ok inst s so" "is_local so"
  shows "shape_ok inst s (so\<lparr>so_ready := ReadyLocal, so_shutdown := None, so_close := CloseLocal, so_peer := q\<rparr>)"
    "shape_ok inst s (so\<lparr>so_ready := ReadyNotify, so_shutdown := None, so_close := CloseNotify, so_peer := q, so_transport := v\<rparr>)"
  using assms by (auto simp: shape_ok_def local_ok_def is_local_def split: close_fn.splits)

context peer_sink
begin

lemma okA_join_links:
  assumes "service_post s p a w"
  shows "okA E (thenA (mod_sock p (\<lambda>po. po\<lparr>so_ready := ReadyLocal, so_shutdown := None, so_close := CloseLocal, so_peer := Some a\<rparr>))
    (thenA (mod_sock a (\<lambda>o2. o2\<lparr>so_peer := Some p\<rparr>)) (thenA (mod_sock s (\<lambda>so. so\<lparr>so_peer := None\<rparr>))
    (thenA (sock_close s) (thenA (do_ready enq a) (retA 0)))))) w (smart_post p)"
proof (rule service_postE [OF assms])
  fix so po ao
  assume f: "wfx {a} w" "a \<noteq> s" "a \<noteq> p" "w_sock w a = Some ao" "so_peer ao = None" "\<not> so_closing ao"
    "is_local ao \<or> so_close ao = CloseTracker" "w_sock w s = Some so" "so_close so = CloseSmart" "so_peer so = Some p"
    "s \<noteq> p" "w_sock w p = Some po" "is_local po" "so_peer po = Some s" "\<not> so_closing po"
  define po1 where "po1 = po\<lparr>so_ready := ReadyLocal, so_shutdown := None, so_close := CloseLocal, so_peer := None\<rparr>"
  define w1 where "w1 = w\<lparr>w_sock := (w_sock w)(p \<mapsto> po1)\<rparr>"
  define w2 where "w2 = w\<lparr>w_sock := (w_sock w)(p \<mapsto> po1\<lparr>so_peer := Some a\<rparr>, a \<mapsto> ao\<lparr>so_peer := Some p\<rparr>)\<rparr>"
  note sk = socks_okD [OF wfx_parts(1) [OF f(1)] f(12)]
  have po1: "is_local po1" "so_peer po1 = None" "so_closing po1 = so_closing po" "shape_ok (inst_of w) p po1"
    "so_transport po1 = so_transport po"
    using shape_callbacks(1) [OF sk(1) f(13)] by (simp_all add: po1_def is_local_def)
  have "wfx {s, a} w1" unfolding w1_def
    by (rule unlink_smart [OF f(1) f(8-10) f(12)]) (use f po1 sk(4) in auto)
  then have "wfx (insert a {s}) w1" by (simp add: insert_commute)
  then have "wfx {s} (w1\<lparr>w_sock := (w_sock w1)(p \<mapsto> po1\<lparr>so_peer := Some a\<rparr>, a \<mapsto> ao\<lparr>so_peer := Some p\<rparr>)\<rparr>)"
    by (rule link_peers_in) (use f po1 in \<open>auto simp: w1_def is_local_def\<close>)
  then have w2: "wfx {s} w2" by (simp add: w1_def w2_def)
  have "okA E (thenA (mod_sock s (\<lambda>so. so\<lparr>so_peer := None\<rparr>)) (thenA (sock_close s) (thenA (do_ready enq a) (retA 0)))) w2 (smart_post p)"
  proof (rule okA_close_smart [OF w2])
    fix w3
    assume w3: "world_ok w3" "\<forall>x. x \<noteq> s \<longrightarrow> w_sock w3 x = w_sock w2 x"
    have "okA E (do_ready enq a) w3 (\<lambda>_ w'. world_ok w' \<and> (\<exists>po'. w_sock w' p = Some po' \<and> is_local po'))"
      by (rule okA_do_ready_peer [OF w3(1), where so = "ao\<lparr>so_peer := Some p\<rparr>" and po = "po1\<lparr>so_peer := Some a\<rparr>"])
        (use f w3(2) po1 in \<open>auto simp: w2_def is_local_def\<close>)
    then show "okA E (thenA (do_ready enq a) (retA 0)) w3 (smart_post p)" by (simp add: wp_then wp_ret smart_post_def)
  qed (use f in \<open>simp_all add: w2_def\<close>)
  then show ?thesis using f by (simp add: wp_then wp_mod_sock w2_def po1_def)
qed

lemma okA_join_service:
  assumes "service_post s p a w"
  shows "okA E (join_service enq s a) w (smart_post p)"
proof (rule service_postE [OF assms])
  fix so po ao
  assume f: "w_sock w s = Some so" "so_peer so = Some p" "w_sock w p = Some po"
  have "okA E (SendOkayA (so_fd po)) w (\<lambda>_ w1. okA E (bindA (deref_sock s) (\<lambda>so. bindA (derefp (so_peer so)) (\<lambda>p.
      thenA (mod_sock p (\<lambda>po. po\<lparr>so_ready := ReadyLocal, so_shutdown := None, so_close := CloseLocal, so_peer := Some a\<rparr>))
    (thenA (mod_sock a (\<lambda>o2. o2\<lparr>so_peer := Some p\<rparr>)) (thenA (mod_sock s (\<lambda>so. so\<lparr>so_peer := None\<rparr>))
    (thenA (sock_close s) (thenA (do_ready enq a) (retA 0)))))))) w1 (smart_post p))"
  proof (rule okA_mono [OF okA_SendOkay], goal_cases)
    case (1 _ w1)
    then show ?case using f okA_join_links [OF service_post_quiet [OF assms 1], of E]
      by (simp add: quiet_sock [OF 1] wp_bind wp_deref_sock wp_derefp)
  qed
  then show ?thesis using f by (simp add: join_service_def peer_fd_def wp_bind wp_deref_sock wp_derefp wp_ret wp_then [of _ "SendOkayA _"])
qed

end

lemma okA_smart_refuse:
  assumes "smart_pair s p w"
  shows "okA E (bindA (peer_fd s) (\<lambda>fd. thenA (SendFailA fd err) (smart_fail s))) w (smart_post p)"
  by (intro okA_peer_fd [OF assms] okA_smart_then [OF okA_smart_calm [OF assms okA_calm_SendFail [OF smart_pair_ok [OF assms]]]])
    (rule okA_smart_fail)

lemma okA_smart_connect:
  assumes "smart_pair s p w" "t \<in> dom (w_transport w)" "{LogFatal, CheckFailed} \<subseteq> E"
  shows "okA E (thenA (mod_sock p (\<lambda>po. po\<lparr>so_ready := ReadyNotify, so_shutdown := None, so_close := CloseNotify,
      so_peer := None, so_transport := Some t\<rparr>))
    (thenA (connect_to_remote p destination) (thenA (mod_sock s (\<lambda>so. so\<lparr>so_peer := None\<rparr>)) (thenA (sock_close s) (retA 1))))) w (smart_post p)"
proof (rule smart_pairE [OF assms(1)])
  fix so po
  assume f: "w_sock w s = Some so" "so_close so = CloseSmart" "so_peer so = Some p" "s \<noteq> p" "w_sock w p = Some po"
    "is_local po" "so_peer po = Some s" "\<not> so_closing po"
  define po1 where "po1 = po\<lparr>so_ready := ReadyNotify, so_shutdown := None, so_close := CloseNotify, so_peer := None, so_transport := Some t\<rparr>"
  define w1 where "w1 = w\<lparr>w_sock := (w_sock w)(p \<mapsto> po1)\<rparr>"
  have ok: "wfx {} w" using smart_pair_ok [OF assms(1)] by (simp add: world_ok_def)
  note sk = socks_okD [OF wfx_parts(1) [OF ok] f(5)]
  have po1: "is_local po1" "so_peer po1 = None" "so_transport po1 = Some t" "so_closing po1 = so_closing po" "shape_ok (inst_of w) p po1"
    using shape_callbacks(2) [OF sk(1) f(6)] by (simp_all add: po1_def is_local_def)
  have w1: "wfx {s} w1" "w_sock w1 p = Some po1" "t \<in> dom (w_transport w1)" unfolding w1_def
    by (rule unlink_smart [OF ok f(1-3,5)]) (use f po1 assms(2) in simp_all)
  have "okA E (connect_to_remote p destination) w1 (\<lambda>_ w2. okA E (thenA (mod_sock s (\<lambda>so. so\<lparr>so_peer := None\<rparr>)) (thenA (sock_close s) (retA 1)))
      w2 (smart_post p))"
  proof (rule okA_mono [OF okA_connect_to_remote [OF w1(2) po1(2,3) w1(3)]], goal_cases)
    case (3 _ w2)
    then obtain v where q: "quiet (w1\<lparr>w_sock := (w_sock w1)(p \<mapsto> po1\<lparr>so_available_send_bytes := v\<rparr>)\<rparr>) w2" by blast
    have "wfx {s} w2" using wfx_available [OF w1(1,2), of v] quiet_wfx [OF q] by simp
    then show ?case
      by (rule okA_close_smart) (use quiet_sock [OF q] f po1(1) in \<open>auto simp: w1_def wp_ret smart_post_def is_local_def\<close>)
  qed (use assms(3) in simp_all)
  then show ?thesis using f(5) by (simp add: wp_then wp_mod_sock w1_def po1_def)
qed

lemma okA_smart_device:
  assumes "smart_pair s p w" "{LogFatal, CheckFailed} \<subseteq> E"
  shows "okA E (smart_device_service s destination) w (smart_post p)"
proof (rule smart_pairE [OF assms(1)])
  fix so
  assume f: "w_sock w s = Some so" "so_peer so = Some p"
  have tr: "so_transport so = Some t \<Longrightarrow> t \<in> dom (w_transport w)" for t
    using socks_okD(4) [OF wfx_parts(1) [OF smart_pair_ok [OF assms(1), unfolded world_ok_def]] f(1)] by blast
  show ?thesis
  proof (cases "so_transport so")
    case None
    then show ?thesis using f okA_smart_refuse [OF assms(1)] by (simp add: smart_device_service_def wp_bind [of _ "deref_sock _"] wp_deref_sock)
  next
    case (Some t)
    have "okA E (bindA (deref_tr t) (\<lambda>tr. if \<not> ConnectionStateIsOnline (t_state tr)
        then bindA (peer_fd s) (\<lambda>fd. thenA (SendFailA fd x) (smart_fail s)) else m)) w (smart_post p)"
      if "okA E m w (smart_post p)" for m x
      by (intro okA_live [OF tr [OF Some]] okA_if okA_smart_refuse [OF assms(1)] that)
    then show ?thesis using f Some okA_smart_connect [OF assms(1) tr [OF Some] assms(2)]
      by (simp add: smart_device_service_def wp_bind [of _ "deref_sock _"] wp_deref_sock wp_bind [of _ "derefp _"] wp_derefp)
  qed
qed

lemma smart_prefix_stops: "smart_prefix request = Stop e \<Longrightarrow> e = OutOfRange"
proof (cases "ConsumePrefix request ''host-serial:''")
  case (Some rest)
  assume "smart_prefix request = Stop e"
  then have "parse_host_service rest = Stop e" using Some by (simp add: smart_prefix_def bindR_Stop_iff)
  then show ?thesis using parse_host_service_outcome [of rest] by (auto simp: good_split_def split: if_splits)
qed (simp add: smart_prefix_def)

text \<open>The ways a client's request can stop the server.\<close>

definition request_stops :: "stop set" where
  "request_stops = {LogFatal, CheckFailed, ProcessExit, OutOfRange}"

context peer_sink
begin

lemma okA_smart_host:
  assumes "smart_pair s p w"
  shows "okA request_stops (smart_host_service enq s service serial tid type) w (smart_post p)"
proof -
  have E: "{OutOfRange, LogFatal, ProcessExit} \<subseteq> request_stops" "{LogFatal, CheckFailed} \<subseteq> request_stops" by (auto simp: request_stops_def)
  have switched: "okA E (thenA (mod_sock s (\<lambda>so. so\<lparr>so_smart_socket_data := []\<rparr>)) (retA 0)) w' (smart_post p)"
    if "smart_pair s p w'" for E w'
  proof (rule okA_smart_then [OF okA_smart_data [OF that]])
    fix w2
    assume "smart_pair s p w2"
    then show "okA E (retA 0) w2 (smart_post p)"
      by (rule smart_pairE) (use \<open>smart_pair s p w2\<close> in \<open>auto simp: wp_ret smart_post_def smart_pair_ok\<close>)
  qed
  have unhandled: "okA request_stops (bindA (host_service_to_socket service serial tid) (\<lambda>found. case found of
      None \<Rightarrow> bindA (peer_fd s) (\<lambda>fd. thenA (SendFailA fd x) (smart_fail s)) | Some s2 \<Rightarrow> join_service enq s s2)) w' (smart_post p)"
    if "smart_pair s p w'" for w' x
    unfolding wp_bind [of _ "host_service_to_socket _ _ _"]
    by (rule okA_mono [OF okA_host_service [OF that E(2)]])
      (auto split: option.splits intro: okA_smart_refuse okA_join_service)
  show ?thesis unfolding smart_host_service_def
  proof (rule okA_peer_fd [OF assms])
    fix fd
    show "okA request_stops (bindA (handle_host_request enq service type (if serial = [] then None else Some (c_str serial)) tid fd s)
        (\<lambda>result. case result of Handled \<Rightarrow> smart_fail s
         | SwitchedTransport \<Rightarrow> thenA (mod_sock s (\<lambda>so. so\<lparr>so_smart_socket_data := []\<rparr>)) (retA 0)
         | Unhandled \<Rightarrow> bindA (host_service_to_socket service serial tid) (\<lambda>found. case found of
             None \<Rightarrow> bindA (peer_fd s) (\<lambda>fd. thenA (SendFailA fd (''unknown host service '' @ quoted service)) (smart_fail s))
           | Some s2 \<Rightarrow> join_service enq s s2))) w (smart_post p)"
      unfolding wp_bind [of _ "handle_host_request _ _ _ _ _ _ _"]
    proof (rule okA_mono [OF okA_handle_host_request [OF assms E(1)]], goal_cases)
      case (1 r w')
      then show ?case using okA_smart_fail switched unhandled by (cases r) simp_all
    qed
  qed
qed

lemma okA_smart_socket:
  assumes "smart_pair s p w"
  shows "okA request_stops (smart_socket_enqueue enq s data) w (smart_post p)"
proof -
  have E: "{LogFatal, CheckFailed} \<subseteq> request_stops" by (auto simp: request_stops_def)
  have post: "smart_post p r w'" if "smart_pair s p w'" for r w'
    using that by (rule smart_pairE) (use smart_pair_ok [OF that] in \<open>auto simp: smart_post_def\<close>)
  have request: "okA request_stops (smart_request enq s request) w' (smart_post p)" if "smart_pair s p w'" for w' request
  proof (cases "smart_prefix request")
    case (Done r)
    then show ?thesis using okA_smart_fail [OF that] post [OF that] okA_smart_host [OF that] okA_smart_device [OF that E]
      by (auto simp: smart_request_def wp_bind wp_lift wp_ret split: sum.split smart_error.split)
  next
    case (Stop e)
    then show ?thesis using smart_prefix_stops [OF Stop] by (simp add: smart_request_def wp_bind wp_lift request_stops_def)
  qed
  have deref: "okA request_stops (bindA (deref_sock s) f) w' (smart_post p)"
    if "smart_pair s p w'" "\<And>so. okA request_stops (f so) w' (smart_post p)" for w' f
    using that(1) by (rule smart_pairE) (use that(2) in \<open>simp add: wp_bind wp_deref_sock\<close>)
  show ?thesis unfolding smart_socket_enqueue_def Let_def
    by (rule okA_smart_then [OF okA_smart_data [OF assms]], rule deref, assumption)
      (auto simp: wp_ret post intro!: okA_smart_fail okA_smart_then [OF okA_smart_data] request)
qed

end

end
