(* ===== verification/Reconnect.thy ===== *)
theory Reconnect
  imports Request_Safety "HOL-Library.Multiset"
begin

text \<open>
  The thread that reconnects lost network devices (\<^verbatim>\<open>ReconnectHandler::Run\<close> of \<^verbatim>\<open>adb/transport.cpp\<close>).
  \<open>reconnect_wake\<close> is what it does each time its wait ends: at the time of the next attempt, when it
  is told of a new or a kicked transport, or spuriously.
\<close>

section \<open>The thread\<close>

text \<open>The scan for kicked transports.\<close>

fun scan_kicked :: "reconnect_attempt list \<Rightarrow> reconnect_attempt list act" where
  "scan_kicked [] = retA []"
| "scan_kicked (a # as) =
     bindA (deref_tr (ra_transport a)) (\<lambda>tr.
       if t_kicked tr then thenA (remove_transport (ra_transport a)) (scan_kicked as)
       else bindA (scan_kicked as) (\<lambda>rest. retA (a # rest)))"

definition kDefaultTimeout :: int where
  "kDefaultTimeout = 3000"

text \<open>
  What follows an attempt; \<open>now\<close> is the time after it.  Nothing but the end of the process keeps
  the thread from waiting again.
\<close>

definition after_attempt :: "int \<Rightarrow> reconnect_attempt \<Rightarrow> reconnect_result \<Rightarrow> unit act" where
  "after_attempt now attempt r =
     (case r of
        Retry \<Rightarrow>
          if ra_left attempt = 0 then remove_transport (ra_transport attempt)
          else modA (\<lambda>w. w\<lparr>reconnect_queue := ra_emplace
                 \<lparr>ra_transport = ra_transport attempt, ra_time = now + kDefaultTimeout, ra_left = ra_left attempt - 1\<rparr>
                 (reconnect_queue w)\<rparr>)
      | Success \<Rightarrow> register_transport (ra_transport attempt)
      | Abort \<Rightarrow> remove_transport (ra_transport attempt))"

text \<open>\<open>False\<close> when the thread ends; \<open>later\<close> is the time after the attempt to connect, if one is made.\<close>

definition reconnect_wake :: "u32 \<Rightarrow> int \<Rightarrow> bool act" where
  "reconnect_wake garbage later =
     bindA (getA reconnect_running) (\<lambda>running.
       if \<not> running then retA False
       else
         bindA (getA reconnect_queue) (\<lambda>q.
         bindA (scan_kicked q) (\<lambda>q.
         thenA (modA (\<lambda>w. w\<lparr>reconnect_queue := q\<rparr>))
         (bindA (getA w_now) (\<lambda>now.
           case q of
             [] \<Rightarrow> retA True
           | attempt # rest \<Rightarrow>
               if ra_time attempt > now then retA True
               else
                 thenA (modA (\<lambda>w. w\<lparr>reconnect_queue := rest\<rparr>))
                 (bindA (transport_Reconnect garbage (ra_transport attempt)) (\<lambda>r.
                 thenA (after_attempt later attempt r)
                 (retA True))))))))"

section \<open>The queue\<close>

text \<open>
  A queue in order, in which no transport waits twice; the number of attempts it still stands for.
\<close>

definition attempts_ok :: "reconnect_attempt list \<Rightarrow> bool" where
  "attempts_ok q \<longleftrightarrow> sorted_wrt ra_less q \<and> distinct (map ra_transport q)"

definition attempts_left :: "reconnect_attempt list \<Rightarrow> nat" where
  "attempts_left q = sum_list (map (\<lambda>a. Suc (ra_left a)) q)"

lemma ra_less_trans: "ra_less a b \<Longrightarrow> ra_less b c \<Longrightarrow> ra_less a c"
  by (auto simp: ra_less_def split: if_splits)

lemma mset_emplace:
  assumes "ra_transport a \<notin> ra_transport ` set bs"
  shows "mset (ra_emplace a bs) = add_mset a (mset bs)"
  using assms
proof (induction bs)
  case (Cons b bs)
  then have "ra_less a b \<or> ra_less b a" by (auto simp: ra_less_def)
  with Cons show ?case by auto
qed simp

lemma sorted_emplace:
  assumes "ra_transport a \<notin> ra_transport ` set bs" "sorted_wrt ra_less bs"
  shows "sorted_wrt ra_less (ra_emplace a bs)"
  using assms
proof (induction bs)
  case (Cons b bs)
  then have "set (ra_emplace a bs) = insert a (set bs)" using arg_cong [OF mset_emplace [of a bs], of set_mset] by simp
  with Cons show ?case using ra_less_trans [of a b] by auto
qed simp

lemma attempts_ok_emplace:
  assumes "ra_transport a \<notin> ra_transport ` set q" "attempts_ok q"
  shows "attempts_ok (ra_emplace a q)" "attempts_left (ra_emplace a q) = Suc (ra_left a) + attempts_left q"
proof -
  have m: "mset (ra_emplace a q) = add_mset a (mset q)" by (rule mset_emplace [OF assms(1)])
  then have "mset (map ra_transport (ra_emplace a q)) = add_mset (ra_transport a) (mset (map ra_transport q))" by simp
  then have "mset (map ra_transport (ra_emplace a q)) = mset (ra_transport a # map ra_transport q)" by simp
  from mset_eq_imp_distinct_iff [OF this] have "distinct (map ra_transport (ra_emplace a q))"
    using assms by (simp add: attempts_ok_def)
  then show "attempts_ok (ra_emplace a q)" using sorted_emplace [OF assms(1)] assms(2) by (simp add: attempts_ok_def)
  have "attempts_left xs = sum_mset (image_mset (\<lambda>a. Suc (ra_left a)) (mset xs))" for xs
    by (simp add: attempts_left_def sum_mset_sum_list [symmetric])
  then show "attempts_left (ra_emplace a q) = Suc (ra_left a) + attempts_left q" by (simp add: m)
qed

section \<open>One wake-up\<close>

text \<open>The functions that a wake-up queues hand transports to the loop: to be registered again, or removed.\<close>

fun task_hands :: "looper_task \<Rightarrow> nat option" where
  "task_hands (RunRegister t) = Some t"
| "task_hands (RunUnregister t) = Some t"
| "task_hands _ = None"

definition hands_over :: "nat list \<Rightarrow> world \<Rightarrow> world \<Rightarrow> bool" where
  "hands_over ts w w' \<longleftrightarrow> (\<exists>tasks. run_queue w' = run_queue w @ tasks \<and> map task_hands tasks = map Some ts)"

lemma hands_over_refl [simp]: "run_queue w' = run_queue w \<Longrightarrow> hands_over [] w w'"
  by (simp add: hands_over_def)

lemma hands_over_trans: "hands_over ts w w1 \<Longrightarrow> hands_over us w1 w2 \<Longrightarrow> hands_over (ts @ us) w w2"
  by (auto simp: hands_over_def)

lemma okA_remove: "okA E (remove_transport t) w (\<lambda>_ w'. quiet w w' \<and> hands_over [t] w w' \<and> reconnect_queue w' = reconnect_queue w)"
  by (simp add: remove_transport_def run_on_looper_def wp hands_over_def quiet_def same_rest_def disconnects_of_def)

lemma okA_register: "okA E (register_transport t) w (\<lambda>_ w'. quiet w w' \<and> hands_over [t] w w' \<and> reconnect_queue w' = reconnect_queue w)"
  by (simp add: register_transport_def run_on_looper_def wp hands_over_def quiet_def same_rest_def disconnects_of_def)

definition kicked_in :: "world \<Rightarrow> reconnect_attempt \<Rightarrow> bool" where
  "kicked_in w a \<longleftrightarrow> (case w_transport w (ra_transport a) of None \<Rightarrow> False | Some tr \<Rightarrow> t_kicked tr)"

lemma okA_scan:
  assumes "ra_transport ` set q \<subseteq> dom (w_transport w)"
  shows "okA E (scan_kicked q) w (\<lambda>r w'. quiet w w' \<and> w_transport w' = w_transport w \<and> r = filter (\<lambda>a. \<not> kicked_in w a) q \<and>
    hands_over (map ra_transport (filter (kicked_in w) q)) w w' \<and> w_now w' = w_now w)"
  using assms
proof (induction q arbitrary: w)
  case (Cons a q)
  obtain tr where tr: "w_transport w (ra_transport a) = Some tr" using Cons.prems by auto
  have k: "kicked_in w a \<longleftrightarrow> t_kicked tr" using tr by (simp add: kicked_in_def)
  let ?w = "w\<lparr>run_queue := run_queue w @ [RunUnregister (ra_transport a)]\<rparr>"
  have q: "quiet w ?w" "hands_over [ra_transport a] w ?w" "kicked_in ?w = kicked_in w"
    by (auto simp: quiet_def same_rest_def disconnects_of_def hands_over_def kicked_in_def)
  have "okA E (scan_kicked q) ?w (\<lambda>r w'. quiet w w' \<and> w_transport w' = w_transport w \<and> r = filter (\<lambda>a. \<not> kicked_in w a) q \<and>
      hands_over (ra_transport a # map ra_transport (filter (kicked_in w) q)) w w' \<and> w_now w' = w_now w)"
    by (rule okA_mono [OF Cons.IH]) (use Cons.prems quiet_trans [OF q(1)] hands_over_trans [OF q(2)] q(3) in auto)
  moreover have "okA E (scan_kicked q) w (\<lambda>r w'. quiet w w' \<and> w_transport w' = w_transport w \<and> r = filter (\<lambda>a. \<not> kicked_in w a) q \<and>
      hands_over (map ra_transport (filter (kicked_in w) q)) w w' \<and> w_now w' = w_now w)"
    using Cons by simp
  ultimately show ?case using tr k by (cases "t_kicked tr") (simp_all add: wp remove_transport_def run_on_looper_def)
qed (simp add: wp)

lemma okA_Reconnect:
  assumes "world_ok w" "t \<in> dom (w_transport w)"
  shows "okA E (transport_Reconnect garbage t) w (\<lambda>r w'. quiet w w' \<and> run_queue w' = run_queue w \<and> reconnect_queue w' = reconnect_queue w)"
proof -
  obtain tr where tr: "w_transport w t = Some tr" using assms(2) by blast
  let ?n = "w\<lparr>w_net_calls := Suc (w_net_calls w)\<rparr>"
  have r: "\<exists>r. socket_spec_connect (c_net (w_config w) (w_net_calls w)) a garbage = Done r" for a
    using connect_total by blast
  have n: "world_ok ?n" "quiet w ?n" using world_quiet [of w ?n] assms(1) by simp_all
  have "okA E (init_socket_transport t port False) ?n (\<lambda>_ w'. quiet w w' \<and> run_queue w' = run_queue w \<and> reconnect_queue w' = reconnect_queue w)" for port
    using okA_init_socket [of ?n t E port False] n(1) assms(2) quiet_trans [OF n(2)] tr
    by (auto simp: init_socket_transport_def wp)
  with tr n(2) show ?thesis
    using r [of "the (t_reconnect tr)"] by (cases "t_reconnect tr") (auto simp: transport_Reconnect_def wp)
qed

lemma okA_after_attempt:
  assumes "ra_transport a \<notin> ra_transport ` set (reconnect_queue w)" "attempts_ok (reconnect_queue w)"
  shows "okA E (after_attempt now a r) w (\<lambda>_ w'. quiet w w' \<and> attempts_ok (reconnect_queue w') \<and>
    attempts_left (reconnect_queue w') \<le> ra_left a + attempts_left (reconnect_queue w) \<and>
    (\<exists>ts. hands_over ts w w' \<and> mset (ra_transport a # map ra_transport (reconnect_queue w)) = mset (map ra_transport (reconnect_queue w')) + mset ts))"
proof -
  have handed: "okA E m w (\<lambda>_ w'. quiet w w' \<and> hands_over [ra_transport a] w w' \<and> reconnect_queue w' = reconnect_queue w) \<Longrightarrow> ?thesis"
    if "after_attempt now a r = m" for m
    unfolding that by (erule okA_mono) (use assms(2) in \<open>auto intro!: exI [of _ "[ra_transport a]"]\<close>)
  let ?a = "\<lparr>ra_transport = ra_transport a, ra_time = now + kDefaultTimeout, ra_left = ra_left a - 1\<rparr>"
  have a: "ra_transport ?a \<notin> ra_transport ` set (reconnect_queue w)" using assms(1) by simp
  have again: ?thesis if "r = Retry" "ra_left a \<noteq> 0"
    using that attempts_ok_emplace [OF a assms(2)] mset_emplace [OF a]
    by (auto simp: after_attempt_def wp quiet_def same_rest_def disconnects_of_def intro!: exI [of _ "[]"])
  show ?thesis
  proof (cases r)
    case Retry
    then show ?thesis using again handed [OF _ okA_remove] by (cases "ra_left a = 0") (simp_all add: after_attempt_def)
  qed (use handed [OF _ okA_register] handed [OF _ okA_remove] in \<open>simp_all add: after_attempt_def\<close>)
qed

definition wake_post :: "world \<Rightarrow> bool \<Rightarrow> world \<Rightarrow> bool" where
  "wake_post w r w' \<longleftrightarrow> quiet w w' \<and> r = reconnect_running w \<and>
     (r \<longrightarrow> attempts_ok (reconnect_queue w') \<and>
       attempts_left (reconnect_queue w') \<le> attempts_left (reconnect_queue w) \<and>
       (\<forall>a q. reconnect_queue w = a # q \<longrightarrow> ra_time a \<le> w_now w \<longrightarrow> attempts_left (reconnect_queue w') < attempts_left (reconnect_queue w)) \<and>
       (\<exists>ts. hands_over ts w w' \<and> mset (map ra_transport (reconnect_queue w)) = mset (map ra_transport (reconnect_queue w')) + mset ts))"

lemma attempts_ok_filter: "attempts_ok q \<Longrightarrow> attempts_ok (filter P q)"
  by (auto simp: attempts_ok_def sorted_wrt_filter distinct_map_filter)

lemma attempts_left_filter: "attempts_left (filter P q) \<le> attempts_left q"
  by (induction q) (auto simp: attempts_left_def)

lemma attempts_left_dropped: "\<not> P a \<Longrightarrow> attempts_left (filter P (a # q)) < attempts_left (a # q)"
  using attempts_left_filter [of P q] by (simp add: attempts_left_def)

lemma mset_scan: "mset (map ra_transport q) = mset (map ra_transport (filter (\<lambda>a. \<not> P a) q)) + mset (map ra_transport (filter P q))"
  by (induction q) auto

lemma wake_postI:
  assumes "quiet w w'" "reconnect_running w" "attempts_ok (reconnect_queue w')" "hands_over ts w w'"
    and "mset (map ra_transport (reconnect_queue w)) = mset (map ra_transport (reconnect_queue w')) + mset ts"
    and "attempts_left (reconnect_queue w') \<le> attempts_left (reconnect_queue w)"
    and "\<And>a q. reconnect_queue w = a # q \<Longrightarrow> ra_time a \<le> w_now w \<Longrightarrow> attempts_left (reconnect_queue w') < attempts_left (reconnect_queue w)"
  shows "wake_post w True w'"
  using assms unfolding wake_post_def by blast

text \<open>The attempt itself: the first of the queue \<open>q1\<close> that the scan left.\<close>

lemma okA_attempt:
  assumes "world_ok w1" "reconnect_queue w1 = a # rest" "attempts_ok (a # rest)" "ra_transport a \<in> dom (w_transport w1)"
  shows "okA E (thenA (modA (\<lambda>w. w\<lparr>reconnect_queue := rest\<rparr>)) (bindA (transport_Reconnect garbage (ra_transport a)) (\<lambda>r.
      thenA (after_attempt later a r) (retA True)))) w1
    (\<lambda>r w'. r \<and> quiet w1 w' \<and> attempts_ok (reconnect_queue w') \<and> attempts_left (reconnect_queue w') < attempts_left (a # rest) \<and>
      (\<exists>ts. hands_over ts w1 w' \<and> mset (map ra_transport (a # rest)) = mset (map ra_transport (reconnect_queue w')) + mset ts))"
proof -
  let ?w = "w1\<lparr>reconnect_queue := rest\<rparr>"
  have q: "quiet w1 ?w" by (simp add: quiet_def same_rest_def disconnects_of_def)
  have rest: "ra_transport a \<notin> ra_transport ` set rest" "attempts_ok rest" using assms(3) by (simp_all add: attempts_ok_def)
  have ok: "world_ok ?w" using quiet_ok q assms(1) by blast
  have "okA E (transport_Reconnect garbage (ra_transport a)) ?w (\<lambda>r w2. okA E (after_attempt later a r) w2
    (\<lambda>_ w'. quiet w1 w' \<and> attempts_ok (reconnect_queue w') \<and> attempts_left (reconnect_queue w') < attempts_left (a # rest) \<and>
      (\<exists>ts. hands_over ts w1 w' \<and> mset (map ra_transport (a # rest)) = mset (map ra_transport (reconnect_queue w')) + mset ts)))"
  proof (rule okA_mono [OF okA_Reconnect [OF ok]], goal_cases)
    case (2 r w2)
    then have w2: "reconnect_queue w2 = rest" "quiet w1 w2" "run_queue w2 = run_queue w1" using quiet_trans [OF q] by simp_all
    show ?case
      by (rule okA_mono [OF okA_after_attempt]) (use w2 rest quiet_trans [OF w2(2)] in \<open>auto simp: attempts_left_def hands_over_def\<close>)
  qed (use assms(4) in simp)
  then show ?thesis by (simp add: wp)
qed

lemma okA_wake:
  assumes "world_ok w" "attempts_ok (reconnect_queue w)" "ra_transport ` set (reconnect_queue w) \<subseteq> dom (w_transport w)"
  shows "okA E (reconnect_wake garbage later) w (wake_post w)"
proof (cases "reconnect_running w")
  case False
  then show ?thesis by (simp add: reconnect_wake_def wp wake_post_def)
next
  case True
  let ?q = "filter (\<lambda>a. \<not> kicked_in w a) (reconnect_queue w)" and ?k = "map ra_transport (filter (kicked_in w) (reconnect_queue w))"
  have ok: "attempts_ok ?q" by (rule attempts_ok_filter [OF assms(2)])
  note m = mset_scan [of "reconnect_queue w" "kicked_in w"] and le = attempts_left_filter [of "\<lambda>a. \<not> kicked_in w a" "reconnect_queue w"]
  have "okA E (case ?q of [] \<Rightarrow> retA True | attempt # rest \<Rightarrow> if ra_time attempt > w_now w then retA True
      else thenA (modA (\<lambda>w. w\<lparr>reconnect_queue := rest\<rparr>)) (bindA (transport_Reconnect garbage (ra_transport attempt)) (\<lambda>r.
        thenA (after_attempt later attempt r) (retA True)))) (w1\<lparr>reconnect_queue := ?q\<rparr>) (wake_post w)"
    if w1: "quiet w w1" "w_transport w1 = w_transport w" "hands_over ?k w w1" for w1
  proof -
    let ?w1 = "w1\<lparr>reconnect_queue := ?q\<rparr>"
    have q1: "quiet w ?w1" "hands_over ?k w ?w1" using w1(1,3) by (simp_all add: quiet_def same_rest_def disconnects_of_def hands_over_def)
    have idle: "wake_post w True ?w1" if kick: "\<And>a q. reconnect_queue w = a # q \<Longrightarrow> ra_time a \<le> w_now w \<Longrightarrow> kicked_in w a"
      using attempts_left_dropped [of "\<lambda>a. \<not> kicked_in w a"] kick by (intro wake_postI [OF q1(1) True _ q1(2)]) (use ok m le in auto)
    show ?thesis
    proof (cases ?q)
      case Nil
      have "wake_post w True ?w1" by (rule idle) (use Nil in \<open>auto split: if_splits\<close>)
      then show ?thesis by (simp add: Nil wp)
    next
      case (Cons a rest)
      show ?thesis
      proof (cases "ra_time a > w_now w")
        case True
        have "wake_post w True ?w1" by (rule idle) (use Cons True in \<open>auto split: if_splits\<close>)
        with True show ?thesis by (simp add: Cons wp)
      next
        case due: False
        have "a \<in> set ?q" unfolding Cons by simp
        then have live: "ra_transport a \<in> dom (w_transport ?w1)" using assms(3) w1(2) by auto
        have ok1: "world_ok ?w1" using quiet_ok q1(1) assms(1) by blast
        have post: "wake_post w True w'" if "quiet ?w1 w'" "attempts_ok (reconnect_queue w')" "attempts_left (reconnect_queue w') < attempts_left (a # rest)"
            "hands_over ts ?w1 w'" "mset (map ra_transport (a # rest)) = mset (map ra_transport (reconnect_queue w')) + mset ts" for w' ts
        proof (rule wake_postI [OF quiet_trans [OF q1(1) that(1)] True that(2) hands_over_trans [OF q1(2) that(4)]])
          show "mset (map ra_transport (reconnect_queue w)) = mset (map ra_transport (reconnect_queue w')) + mset (?k @ ts)"
            using m that(5) by (simp add: Cons)
        qed (use that(3) le [unfolded Cons] in linarith)+
        have "okA E (thenA (modA (\<lambda>w. w\<lparr>reconnect_queue := rest\<rparr>)) (bindA (transport_Reconnect garbage (ra_transport a)) (\<lambda>r.
            thenA (after_attempt later a r) (retA True)))) ?w1 (wake_post w)"
          by (rule okA_mono [OF okA_attempt [OF ok1 _ _ live]]) (use Cons ok post in \<open>auto simp del: mset_map\<close>)
        then show ?thesis using Cons due by simp
      qed
    qed
  qed
  note attempt = this
  show ?thesis using True
    by (simp add: reconnect_wake_def wp)
      (rule okA_mono [OF okA_scan [OF assms(3)]], use attempt in \<open>simp cong: list.case_cong\<close>)
qed

end
