(* ===== verification/Server.thy ===== *)
theory Server
  imports Smart_Safety Reconnect
begin

text \<open>
  The server as a whole.  The queues of the sockets satisfy the contracts the handlers were verified
  against, so every event the loop delivers and every task other threads queue keeps the state well
  formed; the steps of the server and the states it can reach.
\<close>

section \<open>The loop\<close>

text \<open>
  \<^verbatim>\<open>fdevent_context_epoll::Loop\<close>: the events of one \<^verbatim>\<open>epoll_wait\<close> with what the kernel answered,
  \<^verbatim>\<open>HandleEvents\<close>, which calls the first event that is still installed and no other, and
  \<^verbatim>\<open>FlushRunQueue\<close> with the number of functions it may run.
\<close>

definition poll :: "int \<Rightarrow> (nat \<times> epoll_flag set) list \<Rightarrow> (nat \<times> fde_flag set) list act" where
  "poll post_poll answers w =
     bindR (poll_events post_poll answers (w_context w)) (\<lambda>(es, c). Done (es, w\<lparr>w_context := c, w_now := post_poll\<rparr>))"

definition invoke_fde :: "(nat \<times> fde_flag set) list \<Rightarrow> unit act" where
  "invoke_fde events =
     bindA (getA (\<lambda>w. event_to_invoke events (w_context w))) (\<lambda>r.
       case r of None \<Rightarrow> retA () | Some (fd, ev) \<Rightarrow> deliver_event fd ev)"

primrec FlushRunQueue :: "nat \<Rightarrow> unit act" where
  "FlushRunQueue 0 = bindA (getA run_queue) (\<lambda>q. if q = [] then retA () else stopA OutOfFuel)"
| "FlushRunQueue (Suc n) =
     bindA (getA run_queue) (\<lambda>q.
       case q of
         [] \<Rightarrow> retA ()
       | fn # rest \<Rightarrow>
           thenA (modA (\<lambda>w. w\<lparr>run_queue := rest\<rparr>))
           (thenA (run_task sock_enqueue fn)
           (FlushRunQueue n)))"

definition HandleEvents :: "nat \<Rightarrow> (nat \<times> fde_flag set) list \<Rightarrow> unit act" where
  "HandleEvents n events = thenA (invoke_fde events) (FlushRunQueue n)"

text \<open>The globals before the first turn.\<close>

definition initial_world :: "config \<Rightarrow> (nat \<Rightarrow> fd_io) \<Rightarrow> nat option list \<Rightarrow> world" where
  "initial_world c io fds =
     \<lparr>w_sock = (\<lambda>_. None), w_next_sock = 0, local_socket_list = [], local_socket_closing_list = [],
      local_socket_next_id = 1, w_io = io, w_context = new_context, w_transport = (\<lambda>_. None), transport_list = [],
      pending_list = [], device_tracker_list = [], listener_list = [], w_next_listener = 0, run_queue = [],
      reconnect_queue = [], reconnect_running = True, local_transports = [], retry_ports = [], w_next_transport = 1,
      w_threads = [], transports_ready = False, device_scan_complete = False, reject_kill_server = False,
      w_new_fds = fds, w_net_calls = 0, w_now = 0, w_config = c\<rparr>"

section \<open>Handing data to any socket\<close>

lemma enqueue_sink: "peer_sink (enqueue_with smart)"
proof (unfold_locales, goal_cases)
  case (1 w s so p po data E)
  have ready: "so_close po = CloseRemote \<longleftrightarrow> so_enqueue po = EnqueueRemote" "so_close po = CloseTracker \<longleftrightarrow> so_enqueue po = EnqueueTracker"
    "is_local po \<longleftrightarrow> so_enqueue po = EnqueueLocal"
    using socks_okD(1) [OF wfx_parts(1) [OF 1(1) [unfolded world_ok_def]] 1(4)]
    by (auto simp: shape_ok_def local_ok_def is_local_def split: close_fn.splits)
  note sk = socks_okD(2) [OF wfx_parts(1) [OF 1(1) [unfolded world_ok_def]]]
  have "so_peer po = Some s" using sk [OF 1(2)] 1(3,4) by (simp add: peer_ok_def)
  then have open_: "\<not> so_closing po" using sk [OF 1(4)] by (simp add: peer_ok_def)
  show ?case
  proof (cases "so_enqueue po")
    case EnqueueLocal
    then have loc: "is_local po" using ready by simp
    then obtain fd where fd: "so_fd po = Some fd" using world_local [OF 1(1,4)] by (auto simp: local_ok_def)
    have "okA E (local_socket_enqueue p data) w (\<lambda>r w'. world_ok w' \<and> (if r < 0 then \<not> is_local po \<and> closed p po w w'
       else same_but {p} w w' \<and> device_tracker_list w' = device_tracker_list w \<and> (\<exists>po'. w_sock w' p = Some po' \<and> flushed_to po po')))"
      by (rule okA_mono [OF okA_local_enqueue [OF 1(1,4) loc fd]]) (use open_ in \<open>auto simp: enqueue_post_def split: if_splits\<close>)
    then show ?thesis using EnqueueLocal 1(4) by (simp add: enqueue_with_def wp_bind wp_deref_sock)
  next
    case EnqueueRemote
    then have rem: "so_close po = CloseRemote" "\<not> is_local po" using ready by simp_all
    have "okA E (remote_socket_enqueue p data) w (\<lambda>r w'. world_ok w' \<and> (if r < 0 then \<not> is_local po \<and> closed p po w w'
       else same_but {p} w w' \<and> device_tracker_list w' = device_tracker_list w \<and> (\<exists>po'. w_sock w' p = Some po' \<and> flushed_to po po')))"
    proof (rule okA_mono [OF okA_remote_enqueue [OF 1(1,4) rem(1)]], goal_cases)
      case (1 r w')
      then have "quiet w w'" "r = 1" using \<open>length data \<le> MAX_PAYLOAD \<or> is_local po\<close> rem(2) by auto
      then show ?case using \<open>world_ok w\<close> \<open>w_sock w p = Some po\<close> quiet_ok [of w w'] quiet_sock [of w w'] quiet_same_but [of w w' "{p}"]
        by (simp add: quiet_def)
    qed
    then show ?thesis using EnqueueRemote 1(4) by (simp add: enqueue_with_def wp_bind wp_deref_sock)
  next
    case EnqueueTracker
    then have "so_close po = CloseTracker" "\<not> is_local po" using ready by simp_all
    then have "okA E (device_tracker_enqueue p data) w (\<lambda>r w'. world_ok w' \<and> (if r < 0 then \<not> is_local po \<and> closed p po w w'
       else same_but {p} w w' \<and> device_tracker_list w' = device_tracker_list w \<and> (\<exists>po'. w_sock w' p = Some po' \<and> flushed_to po po')))"
      by (intro okA_mono [OF okA_tracker_enqueue [OF 1(1,4)]]) (auto simp: closed_def)
    then show ?thesis using EnqueueTracker 1(4) by (simp add: enqueue_with_def wp_bind wp_deref_sock)
  qed (use 1(5) in simp)
qed

interpretation queued: peer_sink "enqueue_n n" for n
  by (cases n) (simp_all add: enqueue_sink)

lemma enqueue_smart: "smart_sink (enqueue_n (Suc n)) request_stops"
proof (unfold_locales, goal_cases)
  case (1 w s so p po data)
  have "so_close po = CloseSmart"
    using socks_okD(1) [OF wfx_parts(1) [OF 1(1) [unfolded world_ok_def]] 1(5)] 1(6)
    by (auto simp: shape_ok_def local_ok_def split: close_fn.splits)
  moreover have "so_peer po = Some s" using world_peer [OF 1(1,2,4)] 1(5) by auto
  ultimately have "smart_pair p s w" using 1(1,5) by (simp add: smart_pair_def)
  then have "okA request_stops (smart_socket_enqueue (enqueue_n n) p data) w (smart_post s)" by (rule queued.okA_smart_socket)
  then have "okA request_stops (smart_socket_enqueue (enqueue_n n) p data) w
      (\<lambda>r w'. world_ok w' \<and> (r \<ge> 0 \<longrightarrow> (\<exists>so'. w_sock w' s = Some so' \<and> is_local so')))"
    by (rule okA_mono) (simp add: smart_post_def)
  then show ?case using 1(5,6) by (simp add: enqueue_with_def wp_bind wp_deref_sock)
qed

interpretation server: smart_sink sock_enqueue request_stops
  unfolding sock_enqueue_def One_nat_def by (rule enqueue_smart)

section \<open>Events\<close>

text \<open>An event no socket and no listener owns can be released.\<close>

lemma okA_release_drain:
  assumes "world_ok w" "inst_of w fd = Some e" "fde_owner e = DrainEvent n"
  shows "okA E (on_context (fdevent_release fd)) w (\<lambda>_ w'. world_ok w')"
proof -
  note parts = wfx_parts [OF assms(1) [unfolded world_ok_def]]
  obtain c where c: "fdevent_release fd (w_context w) = Done c" "context_ok c" "map_of (installed_fdevents c) = (inst_of w)(fd := None)"
    using fdevent_release_ok [OF parts(3), of fd] assms(2) by (auto simp: inst_of_def)
  have "shape_ok ((inst_of w)(fd := v)) x xo" if "shape_ok (inst_of w) x xo" for x xo v
    using that assms(2,3) by (auto simp: shape_ok_def local_ok_def split: close_fn.splits)
  then have "socks_ok {} (w_sock w) ((inst_of w)(fd := None)) (dom (w_transport w)) (w_next_sock w)"
    using parts(1) unfolding socks_ok_def by blast
  moreover have "listener_ok ((inst_of w)(fd := v)) dis i l" if "listener_ok (inst_of w) dis i l" for dis i l v
    using that assms(2,3) by (auto simp: listener_ok_def)
  then have "listeners_ok (listener_list w) ((inst_of w)(fd := None)) (disconnects_of w) (w_next_listener w)"
    using parts(5) unfolding listeners_ok_def by blast
  moreover have "owners_ok ((inst_of w)(fd := None)) (w_sock w) (listener_list w)"
    using parts(6) by (simp add: owners_ok_def)
  ultimately have "world_ok (w\<lparr>w_context := c\<rparr>)"
    using parts(2,4) c(2,3) by (simp add: world_ok_def wfx_def inst_of_def)
  with c(1) show ?thesis by (simp add: wp)
qed

lemma okA_drain_event:
  assumes "world_ok w" "inst_of w fd = Some e" "fde_owner e = DrainEvent n"
  shows "okA E (drain_event_func n fd ev) w (\<lambda>_ w'. world_ok w')"
proof -
  have "okA E (on_context (fdevent_release fd)) (w\<lparr>w_io := io\<rparr>) (\<lambda>_ w'. world_ok w')" "world_ok (w\<lparr>w_io := io\<rparr>)" for io
    using okA_release_drain [of "w\<lparr>w_io := io\<rparr>" fd e n] assms world_quiet [of w "w\<lparr>w_io := io\<rparr>"] by (simp_all add: inst_of_def)
  then show ?thesis using okA_release_drain [OF assms]
    by (simp add: drain_event_func_def wp_bind wp_get wp_then wp_mod wp_ret case_prod_beta)
qed

lemma okA_smart_listener:
  assumes "world_ok w" "LogFatal \<in> E"
  shows "okA E (ss_listener_event_func sock_enqueue ev) w (\<lambda>_ w'. world_ok w')"
proof -
  have connect: "okA E (connect_to_smartsocket sock_enqueue s) w1 (\<lambda>_ w'. world_ok w')"
    if w1: "world_ok w1" "w_sock w1 s = Some so" "is_local so" "so_peer so = None" "\<not> so_closing so" "so_transport so = None" for w1 s so
  proof -
    define p where "p = w_next_sock w1"
    define po where "po = new_asocket EnqueueSmart ReadySmart None CloseSmart"
    define w2 where "w2 = w1\<lparr>w_sock := (w_sock w1)(p \<mapsto> po), w_next_sock := Suc p\<rparr>"
    define w3 where "w3 = w2\<lparr>w_sock := (w_sock w2)(s \<mapsto> so\<lparr>so_peer := Some p\<rparr>, p \<mapsto> po\<lparr>so_peer := Some s\<rparr>)\<rparr>"
    have po: "so_close po = CloseSmart" "shape_ok inst x po" "so_transport po = None" "\<not> so_closing po" for inst x
      by (simp_all add: po_def new_asocket_def shape_ok_def)
    have "p \<noteq> s" using world_next [OF w1(1)] w1(2) by (auto simp: p_def)
    have "wfx {p} w2" using wfx_new [OF w1(1) po(2)] po by (simp add: w2_def p_def)
    then have "world_ok w3" unfolding w3_def
      by (rule link_peers) (use w1 po \<open>p \<noteq> s\<close> in \<open>simp_all add: w2_def\<close>)
    moreover have "w_sock w3 s = Some (so\<lparr>so_peer := Some p\<rparr>)" using \<open>p \<noteq> s\<close> by (simp add: w3_def)
    ultimately have "okA E (do_ready sock_enqueue s) w3 (\<lambda>_ w'. world_ok w')"
      by (rule okA_mono [OF server.okA_do_ready]) (rule ready_post_ok)
    then show ?thesis using w1(2) \<open>p \<noteq> s\<close>
      by (simp add: connect_to_smartsocket_def create_smart_socket_def wp p_def [symmetric] po_def [symmetric] w3_def w2_def)
  qed
  have "okA E (bindA new_fd (\<lambda>fd. if fd = None then retA () else bindA (create_local_socket fd) (\<lambda>s. connect_to_smartsocket sock_enqueue s))) w
      (\<lambda>_ w'. world_ok w')"
    unfolding wp_bind [of _ new_fd]
  proof (rule okA_mono [OF okA_new_fd], goal_cases)
    case (1 r w1)
    then have ok: "world_ok w1" using quiet_ok [of w w1] assms(1) by simp
    show ?case
    proof (cases r)
      case (Some fd)
      have "okA E (create_local_socket (Some fd)) w1 (\<lambda>s w2. okA E (connect_to_smartsocket sock_enqueue s) w2 (\<lambda>_ w'. world_ok w'))"
      proof (rule okA_mono [OF okA_create_local_socket [OF ok _ assms(2)]])
        fix s w2
        assume new: "added_local s fd w1 w2"
        obtain so where "w_sock w2 s = Some so" "is_local so" "so_peer so = None" "\<not> so_closing so" "so_transport so = None"
          by (rule added_local_sock [OF new])
        moreover have "world_ok w2" using new by (simp add: added_local_def)
        ultimately show "okA E (connect_to_smartsocket sock_enqueue s) w2 (\<lambda>_ w'. world_ok w')" by (intro connect)
      qed (use 1 Some in simp)
      with Some show ?thesis by (simp add: wp_bind)
    qed (simp add: wp_ret ok)
  qed
  then show ?thesis using assms(1) by (simp add: ss_listener_event_func_def wp_ret)
qed

lemma okA_deliver_event:
  assumes "world_ok w"
  shows "okA request_stops (deliver_event fd ev) w (\<lambda>_ w'. world_ok w')"
proof (cases "inst_of w fd")
  case (Some e)
  note own = owners_okD [OF wfx_parts(6) [OF assms [unfolded world_ok_def]] Some]
  have E: "LogFatal \<in> request_stops" "{LogFatal, CheckFailed} \<subseteq> request_stops" by (auto simp: request_stops_def)
  have "okA request_stops (case fde_owner e of
      SocketEvent s \<Rightarrow> local_socket_event_func sock_enqueue s ev | DrainEvent t0 \<Rightarrow> drain_event_func t0 fd ev
    | ListenerEvent i \<Rightarrow> listener_event_func i ev | SmartListenerEvent i \<Rightarrow> ss_listener_event_func sock_enqueue ev) w (\<lambda>_ w'. world_ok w')"
  proof (cases "fde_owner e")
    case (SocketEvent s)
    then obtain so where "w_sock w s = Some so" "is_local so" using own(1) by blast
    from server.okA_event_func [OF assms this] SocketEvent show ?thesis by simp
  next
    case (ListenerEvent i)
    then obtain l where "map_of (listener_list w) i = Some l" "l_transport l \<noteq> None" using own(2) by blast
    from okA_weaken [OF okA_listener_event_func [OF assms this] E(2)] ListenerEvent show ?thesis by simp
  qed (use okA_drain_event [OF assms Some] okA_smart_listener [OF assms E(1)] in simp_all)
  then show ?thesis using Some by (simp add: deliver_event_def wp_bind wp_get inst_of_def)
qed (use assms in \<open>simp add: deliver_event_def wp inst_of_def\<close>)

section \<open>Polling\<close>

text \<open>A poll changes nothing in the installed events but the times of their last activity.\<close>

definition untimed :: "'o fdevent \<Rightarrow> 'o fdevent" where
  "untimed e = e\<lparr>fde_last_active := 0\<rparr>"

lemma untimed_touch [simp]: "untimed (e\<lparr>fde_last_active := t\<rparr>) = untimed e"
  by (simp add: untimed_def)

lemma untimed_sel: "untimed e' = untimed e \<Longrightarrow> fde_owner e' = fde_owner e \<and> fde_state e' = fde_state e"
  by (cases e; cases e') (simp add: untimed_def)

lemma collect_events_untimed:
  "collect_events t answers c = Done (es, c') \<Longrightarrow>
   map_option untimed (map_of (installed_fdevents c') fd) = map_option untimed (map_of (installed_fdevents c) fd)"
proof (induction t answers c arbitrary: es c' rule: collect_events.induct)
  case (2 t fd' evs rest c)
  from "2.prems" obtain fde events es' where fde: "map_of (installed_fdevents c) fd' = Some fde" "epoll_to_fde fde evs = Done events"
    and rec: "collect_events t rest (c\<lparr>installed_fdevents :=
      AList.update fd' (fde\<lparr>fde_last_active := t\<rparr>) (installed_fdevents c)\<rparr>) = Done (es', c')"
    by (auto split: option.splits)
  from "2.IH" [OF fde rec] fde(1) show ?case by (simp add: update_conv')
qed simp

lemma collect_timeouts_untimed:
  "map (\<lambda>(fd, e). (fd, untimed e)) (snd (collect_timeouts t seen inst)) = map (\<lambda>(fd, e). (fd, untimed e)) inst"
  by (induction t seen inst rule: collect_timeouts.induct) (auto simp: Let_def split: prod.splits)

lemma poll_events_untimed:
  assumes "context_ok c" "poll_events t answers c = Done (es, c')"
  shows "map_option untimed (map_of (installed_fdevents c') fd) = map_option untimed (map_of (installed_fdevents c) fd)"
proof -
  from assms(2) obtain es1 c1 where c1: "collect_events t answers c = Done (es1, c1)"
    and c': "installed_fdevents c' = snd (collect_timeouts t es1 (sort_key fst (installed_fdevents c1)))"
    by (auto simp: poll_events_def case_prod_beta)
  have d: "distinct (map fst (installed_fdevents c1))" using collect_events_ok [OF assms(1) c1] by (simp add: context_ok_def)
  then have d': "distinct (map fst (sort_key fst (installed_fdevents c1)))" by (simp add: distinct_map distinct_sort inj_on_def)
  then have "map_of (sort_key fst (installed_fdevents c1)) = map_of (installed_fdevents c1)"
    by (intro map_of_inject_set [THEN iffD2, rotated 2, OF _ d' d]) simp
  then have "map_option untimed (map_of (installed_fdevents c') fd) = map_option untimed (map_of (installed_fdevents c1) fd)"
    using collect_timeouts_untimed [of t es1 "sort_key fst (installed_fdevents c1)"] map_of_map_snd [of untimed "installed_fdevents c'" fd]
      map_of_map_snd [of untimed "sort_key fst (installed_fdevents c1)" fd] by (simp add: c')
  with collect_events_untimed [OF c1, of fd] show ?thesis by simp
qed

lemma world_ok_untimed:
  assumes "world_ok w" "context_ok c" "\<And>fd. map_option untimed (map_of (installed_fdevents c) fd) = map_option untimed (inst_of w fd)"
  shows "world_ok (w\<lparr>w_context := c, w_now := n\<rparr>)"
proof -
  note parts = wfx_parts [OF assms(1) [unfolded world_ok_def]]
  let ?i = "map_of (installed_fdevents c)"
  have fwd: "\<exists>e'. ?i fd = Some e' \<and> fde_owner e' = fde_owner e \<and> fde_state e' = fde_state e" if "inst_of w fd = Some e" for fd e
    using assms(3) [of fd] that by (auto simp: map_option_case dest: untimed_sel split: option.splits)
  have bwd: "\<exists>e'. inst_of w fd = Some e' \<and> fde_owner e' = fde_owner e" if "?i fd = Some e" for fd e
    using assms(3) [of fd] that by (auto simp: map_option_case dest: untimed_sel split: option.splits)
  have loc: "local_ok b ?i s so" if lo: "local_ok b (inst_of w) s so" for b s so
  proof -
    obtain fd e where e: "so_fd so = Some fd" "so_fde so = Some fd" "inst_of w fd = Some e" "fde_owner e = SocketEvent s"
      "b \<and> \<not> iov_empty (so_packet_queue so) \<and> \<not> so_has_write_error so \<longrightarrow> FDE_WRITE \<in> fde_state e"
      using lo unfolding local_ok_def by blast
    with fwd [OF e(3)] lo show ?thesis by (auto simp: local_ok_def)
  qed
  have "shape_ok ?i s so" if "shape_ok (inst_of w) s so" for s so
    using that loc by (auto simp: shape_ok_def split: close_fn.splits)
  then have "socks_ok {} (w_sock w) ?i (dom (w_transport w)) (w_next_sock w)" using parts(1) unfolding socks_ok_def by blast
  moreover have "listener_ok ?i dis i l" if li: "listener_ok (inst_of w) dis i l" for dis i l
  proof -
    obtain fd e where e: "l_fde l = Some fd" "inst_of w fd = Some e" "fde_owner e \<in> {ListenerEvent i, SmartListenerEvent i}"
      using li unfolding listener_ok_def by blast
    with fwd [OF e(2)] li show ?thesis by (auto simp: listener_ok_def)
  qed
  then have "listeners_ok (listener_list w) ?i (disconnects_of w) (w_next_listener w)" using parts(5) unfolding listeners_ok_def by blast
  moreover have "owners_ok ?i (w_sock w) (listener_list w)"
    unfolding owners_ok_def
  proof (intro allI impI)
    fix fd e
    assume "?i fd = Some e"
    with bwd parts(6) show "owner_ok (w_sock w) (listener_list w) fd (fde_owner e)" by (fastforce simp: owners_ok_def)
  qed
  ultimately show ?thesis using parts(2,4) assms(2) by (simp add: world_ok_def wfx_def inst_of_def disconnects_of_def)
qed

lemma okA_poll:
  assumes "world_ok w" "kernel_answers (epoll_interest (w_context w)) answers"
  shows "okA E (poll n answers) w (\<lambda>_ w'. world_ok w')"
proof -
  note parts = wfx_parts [OF assms(1) [unfolded world_ok_def]]
  obtain es c where c: "poll_events n answers (w_context w) = Done (es, c)"
    using collect_events_safe [OF parts(3) assms(2), of n] by (auto simp: poll_events_def case_prod_beta)
  have "world_ok (w\<lparr>w_context := c, w_now := n\<rparr>)"
    by (rule world_ok_untimed [OF assms(1) poll_events_context_ok [OF parts(3) c]])
      (simp add: poll_events_untimed [OF parts(3) c] inst_of_def)
  then show ?thesis using c by (simp add: okA_def poll_def)
qed

lemma okA_invoke:
  assumes "world_ok w"
  shows "okA request_stops (invoke_fde es) w (\<lambda>_ w'. world_ok w')"
  using okA_deliver_event [OF assms] assms
  by (auto simp: invoke_fde_def wp_bind wp_get wp_ret split: option.split)

section \<open>Tasks\<close>

text \<open>
  What a queued function relies on: its transport exists, and a transport that is to be destroyed is
  on no list but the one it is taken off, and no socket and no listener refers to it any more.
\<close>

fun task_live :: "looper_task \<Rightarrow> world \<Rightarrow> bool" where
  "task_live (RunRegister t) w \<longleftrightarrow> t \<in> dom (w_transport w)"
| "task_live (RunUnregister t) w \<longleftrightarrow> unreferenced t (w\<lparr>transport_list := filter (\<lambda>x. x \<noteq> t) (transport_list w)\<rparr>)"
| "task_live (RunHandlePacket p t) w \<longleftrightarrow> t \<in> dom (w_transport w)"
| "task_live (RunHandleError t) w \<longleftrightarrow> t \<in> dom (w_transport w)"

lemma quiet_run_queue [simp]: "quiet w (w\<lparr>run_queue := q\<rparr>)"
  by (simp add: quiet_def same_rest_def)

lemma okA_register_transport:
  assumes "world_ok w" "t \<in> dom (w_transport w)" "LogFatal \<in> E"
  shows "okA E (fdevent_register_transport sock_enqueue t) w (\<lambda>_ w'. world_ok w')"
proof -
  have step: "okA E (whenA b (if x then SetConnectionState sock_enqueue t st else thenA (connection_Start t) (send_connect t))) w
      (\<lambda>_ w'. world_ok w' \<and> same_transports w w')" for b x st
  proof -
    have "okA E (thenA (connection_Start t) (send_connect t)) w (\<lambda>_ w'. world_ok w' \<and> same_transports w w')"
    proof (rule server.okA_seq)
      show "okA E (connection_Start t) w (\<lambda>_ w'. world_ok w' \<and> same_transports w w')"
        unfolding connection_Start_def
        by (rule okA_live [OF assms(2)]) (use assms server.okA_tr_then [OF assms(1,2)] in \<open>simp add: wp_stop\<close>)
      fix w'
      assume w': "world_ok w'" "same_transports w w'"
      show "okA E (send_connect t) w' (\<lambda>_ w''. world_ok w'' \<and> same_transports w' w'')"
        by (rule server.okA_quiet_then [OF w'(1) okA_send_connect [OF w'(1) same_transports_in [OF w'(2) assms(2)] assms(3)]])
    qed
    then show ?thesis using server.okA_state_then [OF assms(1,2)] assms(1) by (simp add: wp_when)
  qed
  have move: "world_ok (if t \<in> set (pending_list w') then w'\<lparr>pending_list := filter (\<lambda>x. x \<noteq> t) (pending_list w'), transport_list := t # transport_list w'\<rparr> else w')"
    if "world_ok w'" "t \<in> dom (w_transport w')" for w'
    using that by (auto simp: world_ok_def wfx_def inst_of_def disconnects_of_def)
  have update: "okA E (update_transports sock_enqueue) w' (\<lambda>_ w''. world_ok w'')" if "world_ok w'" for w'
    by (rule okA_mono [OF server.okA_update_transports [OF that]]) simp
  show ?thesis unfolding fdevent_register_transport_def
  proof (rule okA_live [OF assms(2)], unfold wp_bind [of _ "getA _"] wp_get wp_then [of _ "whenA _ _"], rule okA_mono [OF step], goal_cases)
    case (1 tr x w1)
    then have "world_ok w1" "t \<in> dom (w_transport w1)" using same_transports_in [OF _ assms(2), of w1] by simp_all
    then show ?case unfolding wp_then [of _ "modA _"] wp_mod by (intro update move)
  qed
qed

lemma okA_unregister_transport:
  assumes "world_ok w" "task_live (RunUnregister t) w"
  shows "okA E (fdevent_unregister_transport sock_enqueue t) w (\<lambda>_ w'. world_ok w')"
proof -
  define w1 where "w1 = w\<lparr>transport_list := filter (\<lambda>x. x \<noteq> t) (transport_list w)\<rparr>"
  have "world_ok w1" using assms(1) by (auto simp: w1_def world_ok_def wfx_def inst_of_def disconnects_of_def)
  moreover have "unreferenced t w1" using assms(2) by (simp add: w1_def)
  moreover have "okA E (update_transports sock_enqueue) w' (\<lambda>_ w''. world_ok w'')" if "world_ok w'" for w'
    by (rule okA_mono [OF server.okA_update_transports [OF that]]) simp
  ultimately have "okA E (delete_tr t) w1 (\<lambda>_ w'. okA E (update_transports sock_enqueue) w' (\<lambda>_ w''. world_ok w''))"
    by (intro okA_mono [OF okA_delete_tr]) simp_all
  then show ?thesis by (simp add: fdevent_unregister_transport_def wp_then wp_mod w1_def)
qed

lemma okA_transport_destroy:
  assumes "world_ok w" "t \<in> dom (w_transport w)"
  shows "okA E (transport_destroy t) w (\<lambda>_ w'. calm w w')"
  unfolding transport_destroy_def
proof (rule okA_calm_then [OF okA_calm_conn [OF assms]])
  fix w1
  assume c: "calm w w1"
  have run: "okA E (remove_transport t) w2 (\<lambda>_ w'. calm w2 w')" if "world_ok w2" for w2
    using calm_quiet [OF that quiet_run_queue] by (simp add: remove_transport_def run_on_looper_def wp)
  have "quiet w2 (w2\<lparr>reconnect_queue := q\<rparr>)" for w2 q by (simp add: quiet_def same_rest_def)
  then have track: "okA E (TrackTransport t) w2 (\<lambda>_ w'. calm w2 w')" if "world_ok w2" for w2
    using calm_quiet [OF that] calm_refl [OF that] by (simp add: TrackTransport_def wp)
  have "okA E (thenA (mod_tr t ResetKeys) (TrackTransport t)) w1 (\<lambda>_ w'. calm w1 w')"
    by (rule okA_calm_then [OF okA_calm_tr [OF calm_ok [OF c] calm_in [OF c assms(2)]]]) (simp_all add: track calm_ok)
  with run [OF calm_ok [OF c]] show "okA E (bindA (deref_tr t) (\<lambda>tr. if IsTcpDevice tr \<and> \<not> t_kicked tr
      then thenA (mod_tr t ResetKeys) (TrackTransport t) else remove_transport t)) w1 (\<lambda>_ w'. calm w1 w')"
    by (intro okA_live [OF calm_in [OF c assms(2)]]) simp
qed simp

lemma packet_stops_request: "packet_stops p \<subseteq> request_stops"
  by (auto simp: packet_stops_def request_stops_def)

lemma okA_run_task:
  assumes "world_ok w" "task_live task w"
  shows "okA request_stops (run_task sock_enqueue task) w (\<lambda>_ w'. world_ok w')"
proof (cases task)
  case (RunHandlePacket p t)
  then have "okA request_stops (handle_packet sock_enqueue p t) w (\<lambda>_ w'. world_ok w')"
    by (intro okA_mono [OF okA_weaken [OF server.okA_handle_packet [OF assms(1)] packet_stops_request]]) (use assms(2) in simp_all)
  with RunHandlePacket show ?thesis by (simp add: run_task_def)
next
  case (RunHandleError t)
  have t: "t \<in> dom (w_transport w)" using assms(2) RunHandleError by simp
  have "okA request_stops (handle_offline sock_enqueue t) w (\<lambda>_ w1. okA request_stops (transport_destroy t) w1 (\<lambda>_ w'. world_ok w'))"
  proof (rule okA_mono [OF server.okA_offline_then [OF assms(1) t]], goal_cases)
    case (1 _ w1)
    show ?case by (rule okA_mono [OF okA_transport_destroy]) (use 1 same_transports_in [OF _ t, of w1] calm_ok in blast)+
  qed
  with RunHandleError show ?thesis by (simp add: run_task_def wp_then)
qed (use assms okA_register_transport [OF assms(1)] okA_unregister_transport [OF assms(1)] in \<open>simp_all add: run_task_def request_stops_def\<close>)

section \<open>Steps of the server\<close>

text \<open>
  A turn of the loop that calls one event, a queued function whose transport is still what it was
  queued for, a thread that registers or kicks a transport or tries an emulator, the reconnect
  thread while the transports it waits for exist, and whatever
  leaves sockets, listeners, lists and events alone: the kernel, the clock, a thread that queues.
\<close>

inductive server_step :: "world \<Rightarrow> world \<Rightarrow> bool" where
  turn: "kernel_answers (epoll_interest (w_context w)) answers \<Longrightarrow> poll n answers w = Done (es, w1) \<Longrightarrow>
    invoke_fde es w1 = Done (u, w') \<Longrightarrow> server_step w w'"
| task: "run_queue w = fn # rest \<Longrightarrow> task_live fn w \<Longrightarrow> run_task sock_enqueue fn (w\<lparr>run_queue := rest\<rparr>) = Done (u, w') \<Longrightarrow>
    server_step w w'"
| register: "begin_register serial port local reconnect tls w = Done (r, w') \<Longrightarrow> server_step w w'"
| emulator: "local_connect port w = Done (b, w') \<Longrightarrow> server_step w w'"
| kick: "kick_transport t reset w = Done (u, w') \<Longrightarrow> server_step w w'"
| reconnect: "attempts_ok (reconnect_queue w) \<Longrightarrow> ra_transport ` set (reconnect_queue w) \<subseteq> dom (w_transport w) \<Longrightarrow>
    reconnect_wake garbage later w = Done (b, w') \<Longrightarrow> server_step w w'"
| outside: "quiet w w' \<Longrightarrow> server_step w w'"

inductive server_reachable :: "config \<Rightarrow> world \<Rightarrow> bool" for c where
  start: "install_listener name kSmartSocketConnectTo None flags (initial_world c io fds) = Done (r, w) \<Longrightarrow> server_reachable c w"
| step: "server_reachable c w \<Longrightarrow> server_step w w' \<Longrightarrow> server_reachable c w'"

lemma task_live_pop: "task_live fn w \<Longrightarrow> task_live fn (w\<lparr>run_queue := q\<rparr>)"
  by (cases fn) (simp_all add: unreferenced_def disconnects_of_def)

lemma server_step_ok:
  assumes "server_step w w'" "world_ok w"
  shows "world_ok w'"
  using assms
proof (induction rule: server_step.induct)
  case (turn w answers n es w1 u w')
  have "world_ok w1" using okA_Done [OF okA_poll [OF turn.prems turn.hyps(1)] turn.hyps(2)] .
  from okA_Done [OF okA_invoke [OF this] turn.hyps(3)] show ?case .
next
  case (task w fn rest u w')
  have "world_ok (w\<lparr>run_queue := rest\<rparr>)" using world_quiet [OF quiet_run_queue] task.prems by blast
  from okA_Done [OF okA_run_task [OF this task_live_pop [OF task.hyps(2)]] task.hyps(3)] show ?case .
next
  case (register serial port local reconnect tls w r w')
  from okA_Done [OF okA_begin_register [OF register.prems, where E = "{}"] register.hyps] show ?case by (rule calm_ok)
next
  case (emulator port w b w')
  from okA_Done [OF okA_local_connect [OF emulator.prems, where E = "{}"] emulator.hyps] show ?case by (rule calm_ok)
next
  case (kick t reset w u w')
  from okA_Done [OF okA_calm_kick [OF kick.prems, where E = "{}"] kick.hyps] show ?case by (rule calm_ok)
next
  case (reconnect w garbage later b w')
  from okA_Done [OF okA_wake [OF reconnect.prems reconnect.hyps(1,2), where E = "{}"] reconnect.hyps(3)]
  show ?case using quiet_ok reconnect.prems by (auto simp: wake_post_def)
next
  case (outside w w')
  then show ?case using quiet_ok by blast
qed

lemma world_ok_initial: "world_ok (initial_world c io fds)"
  by (simp add: world_ok_def wfx_def initial_world_def socks_ok_def lists_ok_def listeners_ok_def owners_ok_def inst_of_def
      new_context_def disconnects_of_def context_ok_def)

lemma okA_start: "okA E (install_listener name kSmartSocketConnectTo None flags) (initial_world c io fds) (\<lambda>_ w'. world_ok w')"
proof -
  let ?w = "initial_world c io fds"
  define w1 where "w1 = ?w\<lparr>w_net_calls := Suc 0\<rparr>"
  obtain r where r: "socket_spec_listen (c_net c 0) (c_listen_all c) name = Done r" using listen_total by blast
  have ok: "world_ok w1" using world_quiet [of ?w w1] world_ok_initial by (simp add: w1_def)
  have add: "okA E (add_listener fd x kSmartSocketConnectTo None flags) w1 (\<lambda>_ w'. world_ok w')" for fd x
    by (rule okA_mono [OF okA_add_listener [OF ok]]) (simp_all add: w1_def initial_world_def inst_of_def new_context_def)
  have "inst_of w1 fd = None" for fd by (simp add: w1_def initial_world_def inst_of_def new_context_def)
  moreover have "listener_list ?w = []" "w_config ?w = c" "w_net_calls ?w = 0" by (simp_all add: initial_world_def)
  ultimately show ?thesis using r ok add
    by (cases r) (auto simp: install_listener_def wp w1_def [symmetric] split: sum.split)
qed

lemma reachable_ok: "server_reachable c w \<Longrightarrow> world_ok w"
proof (induction rule: server_reachable.induct)
  case (start name flags io fds r w)
  from okA_Done [OF okA_start [where E = "{}"] start.hyps] show ?case .
qed (rule server_step_ok)

section \<open>Turns of the loop\<close>

text \<open>Every function that \<^const>\<open>FlushRunQueue\<close> comes to finds its transport as it was queued for.\<close>

primrec flush_live :: "nat \<Rightarrow> world \<Rightarrow> bool" where
  "flush_live 0 w \<longleftrightarrow> True"
| "flush_live (Suc n) w \<longleftrightarrow>
     (case run_queue w of
        [] \<Rightarrow> True
      | fn # rest \<Rightarrow> task_live fn w \<and>
          (case run_task sock_enqueue fn (w\<lparr>run_queue := rest\<rparr>) of
             Done (u, w') \<Rightarrow> flush_live n w'
           | Stop e \<Rightarrow> True))"

lemma flush_steps: "FlushRunQueue n w = Done (u, w') \<Longrightarrow> flush_live n w \<Longrightarrow> server_step\<^sup>*\<^sup>* w w'"
proof (induction n arbitrary: w)
  case 0
  then show ?case by (simp add: bindA_def getA_def retA_def stopA_def split: if_splits)
next
  case (Suc n)
  show ?case
  proof (cases "run_queue w")
    case Nil
    with Suc.prems show ?thesis by (simp add: bindA_def getA_def retA_def)
  next
    case (Cons fn rest)
    with Suc.prems obtain v x where v: "run_task sock_enqueue fn (w\<lparr>run_queue := rest\<rparr>) = Done (x, v)" "FlushRunQueue n v = Done (u, w')"
      by (auto simp: bindA_def thenA_def getA_def modA_def)
    with Suc.prems(2) Cons have "task_live fn w" "flush_live n v" by simp_all
    with Suc.IH [OF v(2)] server_step.task [OF Cons _ v(1)] show ?thesis by (meson converse_rtranclp_into_rtranclp)
  qed
qed

lemma turn_steps:
  assumes "kernel_answers (epoll_interest (w_context w)) answers" "poll n answers w = Done (es, w1)"
    and "invoke_fde es w1 = Done (x, w2)" "FlushRunQueue k w2 = Done (u, w')" "flush_live k w2"
  shows "server_step\<^sup>*\<^sup>* w w'"
  using server_step.turn [OF assms(1-3)] flush_steps [OF assms(4,5)] by (rule converse_rtranclp_into_rtranclp)

end
