(* ===== verification/Socket_Progress.thy ===== *)
theory Socket_Progress
  imports Socket_Flow
begin

text \<open>
  Progress of a local socket's output.  A descriptor that takes some bytes at every write gets the
  whole queue: each write event shortens it, and the event stays armed until it is empty.
\<close>

lemma okA_conj:
  assumes "okA E m w P" "okA E m w Q"
  shows "okA E m w (\<lambda>x w'. P x w' \<and> Q x w')"
  using assms by (auto simp: okA_def split: run.splits)

text \<open>Every write that is still to come is accepted, if only for one byte.\<close>

definition accepting :: "wr_event list \<Rightarrow> bool" where
  "accepting es \<longleftrightarrow> (\<forall>e\<in>set es. \<exists>k. e = Accept (Suc k))"

lemma accepting_write:
  assumes "accepting es" "p \<noteq> []"
  shows "\<exists>k es'. adb_write es p = (WrBytes (Suc k), es') \<and> Suc k \<le> length p \<and> accepting es'"
  using assms
proof (induction es p rule: adb_write.induct)
  case (2 k es p)
  then have "k \<noteq> 0" "p \<noteq> []" "accepting es" by (auto simp: accepting_def)
  then obtain n where "min k (length p) = Suc n" by (cases k; cases p) auto
  moreover from this have "Suc n \<le> length p" by (metis min.cobounded2)
  ultimately show ?case using \<open>accepting es\<close> by simp
qed (auto simp: accepting_def neq_Nil_conv)

definition advanced :: "nat \<Rightarrow> nat \<Rightarrow> asocket \<Rightarrow> world \<Rightarrow> world \<Rightarrow> bool" where
  "advanced s fd so w w' \<longleftrightarrow> accepting (io_out (w_io w' fd)) \<and>
     (\<exists>so'. w_sock w' s = Some so' \<and> \<not> so_has_write_error so') \<and>
     (if iov_empty (so_packet_queue so) then io_log (w_io w' fd) = io_log (w_io w fd) else length (io_log (w_io w fd)) < length (io_log (w_io w' fd)))"

lemma okA_flush_accepted:
  assumes "unsettled s so w" "so_fd so = Some fd" "\<not> so_has_write_error so" "accepting (io_out (w_io w fd))"
  shows "okA E (flush_queue s) w (\<lambda>n w'. advanced s fd so w w')"
proof (cases "iov_empty (so_packet_queue so)")
  case True
  with assms show ?thesis by (simp add: flush_queue_def wp unsettled_def advanced_def)
next
  case False
  have so: "w_sock w s = Some so" and inv: "iov_inv (so_packet_queue so)" using assms(1) by (simp_all add: unsettled_def)
  obtain iov where iov: "iovecs (so_packet_queue so) = Done iov" "concat iov = iov_bytes (so_packet_queue so)"
    using iterate_blocks_ok [OF inv] by (auto simp: iovecs_def ends_def)
  let ?p = "take MAX_RW_COUNT (iov_bytes (so_packet_queue so))"
  have p: "?p \<noteq> []" using False inv by (simp add: iov_empty_bytes MAX_RW_COUNT_def)
  obtain k es where k: "adb_write (io_out (w_io w fd)) ?p = (WrBytes (Suc k), es)" and le: "Suc k \<le> length ?p" and es: "accepting es"
    using accepting_write [OF assms(4) p] by blast
  define w1 where "w1 = w\<lparr>w_io := (w_io w)(fd := (w_io w fd)\<lparr>io_out := es, io_log := io_log (w_io w fd) @ take (Suc k) ?p\<rparr>)\<rparr>"
  have io: "accepting (io_out (w_io w1 fd))" "length (io_log (w_io w fd)) < length (io_log (w_io w1 fd))" "w_sock w1 = w_sock w"
    using es p by (simp_all add: w1_def)
  have writev: "okA E (adb_writev (Some fd) iov) w Q \<longleftrightarrow> Q (WrBytes (Suc k)) w1" for Q
    using k by (simp add: okA_def adb_writev_def Let_def iov(2) w1_def)
  have "\<exists>q'. drop_front (so_packet_queue so) (Suc k) = Done q'" if "Suc k \<noteq> iov_size (so_packet_queue so)"
    using flush_bytes [OF inv, of "Suc k"] le that by auto
  with False so iov(1) assms(2,3) io show ?thesis
    by (auto simp: flush_queue_def wp writev flush_wrote_def advanced_def)
qed

lemma okA_outcome_events:
  assumes "unsettled s so w" "\<not> so_closing so" "\<not> full \<longrightarrow> iov_empty (so_packet_queue so) \<or> so_has_write_error so"
  shows "okA E (flush_outcome s so full) w (\<lambda>_ w'. events_only w w')"
  using okA_mono [OF okA_add_event [OF assms(1), of "{FDE_WRITE}"], of "\<lambda>_. events_only w" E]
    okA_mono [OF okA_del_event [OF assms(1), of "{FDE_WRITE}"], of "\<lambda>_. events_only w" E] assms(2,3)
  by (simp add: flush_outcome_def wp)

lemma advanced_events: "advanced s fd so w w1 \<Longrightarrow> events_only w1 w2 \<Longrightarrow> advanced s fd so w w2"
  by (auto simp: advanced_def events_only_def)

lemma advanced_quiet: "advanced s fd so w w1 \<Longrightarrow> quiet w1 w2 \<Longrightarrow> w_io w2 = w_io w1 \<Longrightarrow> advanced s fd so w w2"
  by (simp add: advanced_def quiet_sock)

lemma okA_flush_advances:
  assumes "unsettled s so w" "so_fd so = Some fd" "\<not> so_has_write_error so" "\<not> so_closing so" "accepting (io_out (w_io w fd))"
  shows "okA E (local_socket_flush_incoming s) w (\<lambda>r w'. flush_post s fd so w r w' \<and> advanced s fd so w w')"
proof (rule okA_conj [OF okA_flush_incoming [OF assms(1,2)]], unfold local_socket_flush_incoming_def wp_bind wp_deref_sock wp_then,
    rule okA_mono [OF okA_conj [OF okA_flush_queue [OF assms(1,2)] okA_flush_accepted [OF assms(1-3,5)]]], goal_cases)
  case (1 n w1)
  then obtain so1 where so1: "unsettled s so1 w1" "flushed_to so so1" and adv: "advanced s fd so w w1" by (auto simp: flushed_def)
  have open1: "\<not> so_closing so1" using flushed_to_sel(3) [OF so1(2)] assms(4) by simp
  have "okA E (acknowledge s n) w1 (\<lambda>_ w2. okA E
    (flush_outcome s so1 (\<not> iov_empty (so_packet_queue so1) \<and> \<not> so_has_write_error so1)) w2 (\<lambda>_. advanced s fd so w))"
  proof (rule okA_mono [OF okA_acknowledge [OF so1(1)]], goal_cases)
    case (1 _ w2)
    show ?case
      by (rule okA_mono [OF okA_outcome_events [OF unsettled_quiet [OF so1(1)] open1]])
        (use 1 advanced_events [OF advanced_quiet [OF adv]] in blast)+
  qed
  with so1(1) show ?case by (simp add: unsettled_def)
qed

section \<open>The whole queue\<close>

text \<open>Up to \<open>n\<close> write events of a socket, until one does not ask for another.\<close>

primrec flush_turns :: "nat \<Rightarrow> nat \<Rightarrow> flush_result act" where
  "flush_turns 0 s = retA TryAgain"
| "flush_turns (Suc n) s =
     bindA (local_socket_flush_incoming s) (\<lambda>r. if r = TryAgain then flush_turns n s else retA r)"

lemma world_ok_settled:
  assumes "world_ok w" "w_sock w s = Some so" "is_local so"
  shows "unsettled s so w"
  using world_ok_unsettled [OF assms, of "so_packet_queue so"] world_local [OF assms] assms(2) by (simp add: local_ok_def fun_upd_idem)

lemma okA_flush_turns:
  assumes "unsettled s so w" "so_fd so = Some fd" "\<not> so_has_write_error so" "\<not> so_closing so" "accepting (io_out (w_io w fd))"
    and "length (iov_bytes (so_packet_queue so)) < n"
  shows "okA E (flush_turns n s) w (\<lambda>r w'. r = Completed \<and> world_ok w' \<and> io_log (w_io w' fd) = stream_of w fd so \<and>
    (\<exists>so'. w_sock w' s = Some so' \<and> iov_empty (so_packet_queue so') \<and> flushed_to so so'))"
  using assms
proof (induction n arbitrary: w so)
  case (Suc n)
  show ?case unfolding flush_turns.simps wp_bind
  proof (rule okA_mono [OF okA_flush_advances [OF Suc.prems(1-5)]], goal_cases)
    case (1 r w1)
    then have r: "r \<noteq> Destroyed" using Suc.prems(4) by (auto simp: flush_post_def)
    with 1 obtain so1 where so1: "world_ok w1" "w_sock w1 s = Some so1" "flushed_to so so1" "stream_of w1 fd so1 = stream_of w fd so"
      "r = Completed \<longleftrightarrow> iov_empty (so_packet_queue so1)" "\<not> so_has_write_error so1" "accepting (io_out (w_io w1 fd))"
      "if iov_empty (so_packet_queue so) then io_log (w_io w1 fd) = io_log (w_io w fd) else length (io_log (w_io w fd)) < length (io_log (w_io w1 fd))"
      unfolding flush_post_def advanced_def by auto
    note sel = flushed_to_sel [OF so1(3)]
    have loc: "is_local so1" using sel Suc.prems(1) by (simp add: unsettled_def is_local_def)
    then have un: "unsettled s so1 w1" using world_ok_settled so1(1,2) by blast
    show ?case
    proof (cases "r = Completed")
      case True
      then show ?thesis using so1 un by (simp add: wp stream_of_def iov_empty_bytes unsettled_def)
    next
      case False
      have len: "length (io_log (w_io w1 fd)) + length (iov_bytes (so_packet_queue so1)) =
          length (io_log (w_io w fd)) + length (iov_bytes (so_packet_queue so))"
        using arg_cong [OF so1(4), of length] by (simp add: stream_of_def)
      have "length (iov_bytes (so_packet_queue so1)) < n"
        using len False so1(5,8) Suc.prems(1,6) un by (auto simp: iov_empty_bytes unsettled_def split: if_splits)
      then have "okA E (flush_turns n s) w1 (\<lambda>r w'. r = Completed \<and> world_ok w' \<and> io_log (w_io w' fd) = stream_of w1 fd so1 \<and>
          (\<exists>so'. w_sock w' s = Some so' \<and> iov_empty (so_packet_queue so') \<and> flushed_to so1 so'))"
        using un sel Suc.prems(2,4) so1(6,7) by (intro Suc.IH) simp_all
      then show ?thesis using False r so1(3,4) flushed_to_trans by (cases r) (auto elim!: okA_mono)
    qed
  qed
qed simp

end
