(* ===== verification/Samples.thy ===== *)
theory Samples
  imports Server Socket_Progress
begin

text \<open>
  Concrete states of the server on which its properties are instantiated: a client connected to a
  service of a device, a client at a smart socket, and a socket with pending output.
\<close>

definition sample_net :: net where
  "sample_net = \<lparr>network_loopback_client = (\<lambda>_. Inl ''refused''), network_connect = (\<lambda>_ _. Inl ''refused''),
     network_local_client = (\<lambda>_ _. Inl ''refused''), network_inaddr_any_server = (\<lambda>_. Inl ''in use''),
     network_loopback_server = (\<lambda>_ _. Inl ''in use''), network_local_server = (\<lambda>_ _. Inr 3),
     adb_socket_get_local_port = (\<lambda>_. 5037), vsock_socket = Inl ''no vsock'', vsock_connect = (\<lambda>_ _ _. False),
     vsock_bind_listen = (\<lambda>_ _. None), fd_cloexec_flag = (\<lambda>_. Inl ''bad''), fd_is_socket = (\<lambda>_. False), fd_dup = (\<lambda>_. Inl ''bad'')\<rparr>"

definition sample_config :: config where
  "sample_config = \<lparr>c_env = sample_env, c_net = (\<lambda>_. sample_net), c_listen_all = False, c_libusb_enabled = False,
     c_start_detached = False, c_to_proto = (\<lambda>_ _. []), c_private_keys = [], c_sign = (\<lambda>_ _. []), c_userkey = [],
     c_attach = (\<lambda>_. None), c_detach = (\<lambda>_. None), c_server_status = [], c_adbhost = None\<rparr>"

definition sample_io :: "nat \<Rightarrow> fd_io" where
  "sample_io = (\<lambda>_. \<lparr>io_in = [], io_out = [], io_log = []\<rparr>)"

definition sample_event :: "nat \<Rightarrow> fde_flag set \<Rightarrow> fde_owner_t fdevent" where
  "sample_event s st = \<lparr>fde_id = 0, fde_state = st, fde_timeout = None, fde_last_active = 0, fde_owner = SocketEvent s\<rparr>"

text \<open>Socket 0 on descriptor 5, with the given fields changed, and socket 1, its peer of the given kind.\<close>

definition sample_client :: "nat option \<Rightarrow> nat option \<Rightarrow> asocket" where
  "sample_client p t = (new_asocket EnqueueLocal ReadyLocal None CloseLocal)
     \<lparr>so_id := 1, so_fd := Some 5, so_fde := Some 5, so_peer := p, so_transport := t\<rparr>"

definition sample_remote :: asocket where
  "sample_remote = (new_asocket EnqueueRemote ReadyRemote (Some ShutdownRemote) CloseRemote)
     \<lparr>so_id := 9, so_transport := Some 1, so_peer := Some 0\<rparr>"

definition sample_smart :: asocket where
  "sample_smart = (new_asocket EnqueueSmart ReadySmart None CloseSmart)\<lparr>so_peer := Some 0\<rparr>"

definition sample_state :: "connection_state \<Rightarrow> asocket \<Rightarrow> asocket option \<Rightarrow> fde_flag set \<Rightarrow> world" where
  "sample_state st so po ev = (initial_world sample_config sample_io [])
     \<lparr>w_sock := (\<lambda>s. if s = 0 then Some so else if s = 1 then po else None), w_next_sock := 2,
      local_socket_list := (if so_closing so then [] else [0]), local_socket_closing_list := (if so_closing so then [0] else []),
      w_context := \<lparr>installed_fdevents = [(5, sample_event 0 ev)], fdevent_next_id = 1,
        epoll_interest = [(5, calculate_epoll_event (sample_event 0 ev))]\<rparr>,
      w_transport := (\<lambda>t. if t = 1 then Some (sample_device 1 ''A'' st) else None), transport_list := [1],
      w_next_transport := 2\<rparr>"

lemma iov_empty_new [simp]: "iov_empty empty_iov"
  by (simp add: iov_empty_def iov_size_def empty_iov_def)

lemma sample_state_ok:
  assumes "so = sample_client (if po = None then None else Some 1) t \<or> so = (sample_client None t)\<lparr>so_closing := True\<rparr> \<and> po = None"
    and "po = None \<or> po = Some sample_remote \<or> po = Some sample_smart \<and> t = None" "t = None \<or> t = Some 1"
  shows "world_ok (sample_state st so po ev)"
  using assms
  by (auto simp: world_ok_def wfx_def sample_state_def initial_world_def socks_ok_def lists_ok_def listeners_ok_def owners_ok_def owner_ok_def
      inst_of_def disconnects_of_def context_ok_def sample_event_def shape_ok_def local_ok_def peer_ok_def is_local_def
      sample_client_def sample_remote_def sample_smart_def new_asocket_def iov_inv_empty iov_empty_new sample_device_def new_atransport_def
      split: if_splits)

text \<open>A client with bytes in its queue, waiting for its descriptor.\<close>

definition queue_of :: "string \<Rightarrow> iovector" where
  "queue_of d = (case iov_put empty_iov d of Done q \<Rightarrow> q | Stop e \<Rightarrow> empty_iov)"

lemma sample_queue: "iov_inv (queue_of d)" "iov_bytes (queue_of d) = d"
  using iovq.put [of empty_iov d] by (auto simp: queue_of_def ends_def)

definition sample_busy :: "string \<Rightarrow> asocket" where
  "sample_busy d = (sample_client (Some 1) (Some 1))\<lparr>so_packet_queue := queue_of d\<rparr>"

lemma sample_busy_ok: "world_ok (sample_state st (sample_busy d) (Some sample_remote) {FDE_WRITE})"
  by (auto simp: world_ok_def wfx_def sample_state_def initial_world_def socks_ok_def lists_ok_def listeners_ok_def owners_ok_def owner_ok_def
      inst_of_def disconnects_of_def context_ok_def sample_event_def shape_ok_def local_ok_def peer_ok_def is_local_def sample_busy_def
      sample_client_def sample_remote_def new_asocket_def sample_queue sample_device_def new_atransport_def
      split: if_splits)

text \<open>Running a computation on a concrete state.\<close>

lemma okA_run:
  assumes "okA {} m w Q"
  obtains x w' where "m w = Done (x, w')" "Q x w'"
  using assms by (auto simp: okA_def split: run.splits)

lemma sample_listen: "socket_spec_listen sample_net False ''localabstract:adb'' = Done (Inr (3, 0))"
  by code_simp

end
