(* ===== verification/Spec2Isabelle.thy ===== *)
theory Spec2Isabelle
  imports Shell_Protocol Nonblocking Client Samples
begin

text \<open>
  Verification of the host side of the Android debug bridge, adb, as built for Linux with \<^verbatim>\<open>ADB_HOST\<close>
  set and the epoll backend of the event loop (\<^verbatim>\<open>adb/CMakeLists.txt\<close>).

  \<^bold>\<open>The program.\<close>  The server is one event loop (\<^verbatim>\<open>adb/fdevent\<close>) over file descriptors.  Listeners
  (\<^verbatim>\<open>adb/adb_listeners.cpp\<close>) accept clients; each client gets a local socket (\<^verbatim>\<open>adb/sockets.cpp\<close>) whose
  peer is first a smart socket, which reads a request and serves it itself (\<^verbatim>\<open>adb/adb.cpp\<close>,
  \<^verbatim>\<open>adb/services.cpp\<close>) or replaces itself by a socket of the service or of the device.  A transport
  (\<^verbatim>\<open>adb/transport.cpp\<close>, \<^verbatim>\<open>adb/client/transport_local.cpp\<close>) is a connection to a device; its threads
  queue the packets they read for the loop, where \<^verbatim>\<open>handle_packet\<close> routes them to the sockets.

  \<^bold>\<open>How it is modelled.\<close>  A computation that may end the process has type \<^typ>\<open>'a run\<close>: a result, or the
  reason it stopped.  \<^verbatim>\<open>OutOfRange\<close> is an index past the end, \<^verbatim>\<open>BadAccess\<close> the use of a null or freed
  pointer.  The state of the server is the record \<^typ>\<open>world\<close>; a handler is a function of type
  \<^typ>\<open>'a act\<close> on it.  Objects live in heaps indexed by numbers, a function pointer is a value of a
  datatype, and a deleted object is absent from its heap, so that using it is an observable stop.  What the kernel
  answers to reads, writes, polls and connects is data in the state: scripts over which
  every statement is quantified.

  \<^item> \<^verbatim>\<open>Prelude\<close>, \<^verbatim>\<open>C_Text\<close>, \<^verbatim>\<open>Libbase\<close>: computations that stop, C number formats, the text functions of
    \<^verbatim>\<open>libbase\<close>.
  \<^item> \<^verbatim>\<open>IO_Vector\<close> (\<^verbatim>\<open>adb/types.h\<close>, \<^verbatim>\<open>adb/types.cpp\<close>): \<^verbatim>\<open>Block\<close> and \<^verbatim>\<open>IOVector\<close>.  The contract of a byte
    queue is the locale \<^verbatim>\<open>byte_queue\<close>; the vector is shown to satisfy it.
  \<^item> \<^verbatim>\<open>Adb_IO\<close>, \<^verbatim>\<open>Packet\<close>, \<^verbatim>\<open>Shell_Protocol\<close> (\<^verbatim>\<open>adb/adb_io.cpp\<close>, \<^verbatim>\<open>adb/types.h\<close>, \<^verbatim>\<open>adb/transport.cpp\<close>,
    \<^verbatim>\<open>adb/shell_service_protocol.cpp\<close>): exact reads and writes, protocol strings, packets, shell packets,
    with round trips over every way the kernel may cut the bytes up; the locales \<^verbatim>\<open>byte_source\<close> and
    \<^verbatim>\<open>framing\<close> hold what they share.
  \<^item> \<^verbatim>\<open>Adb_Utils\<close>, \<^verbatim>\<open>Host_Service\<close>, \<^verbatim>\<open>Socket_Spec\<close> (\<^verbatim>\<open>adb/adb_utils.cpp\<close>, \<^verbatim>\<open>adb/sockets.cpp\<close>,
    \<^verbatim>\<open>adb/socket_spec.cpp\<close>): shell quoting, the text of requests, addresses.
  \<^item> \<^verbatim>\<open>Transport\<close> (\<^verbatim>\<open>adb/transport.cpp\<close>, \<^verbatim>\<open>adb/transport.h\<close>): the state of a transport, features, device selection
    and listing.
  \<^item> \<^verbatim>\<open>Fdevent\<close>: installed events, the kernel's interest list, a turn of the loop.
  \<^item> \<^verbatim>\<open>World\<close>, \<^verbatim>\<open>Sockets\<close>, \<^verbatim>\<open>Listeners\<close>, \<^verbatim>\<open>Services\<close>, \<^verbatim>\<open>Device\<close>, \<^verbatim>\<open>Lifecycle\<close>, \<^verbatim>\<open>Host_Request\<close>: the state, and
    the operations of the server, handler by handler.
  \<^item> \<^verbatim>\<open>Socket_Safety\<close>, \<^verbatim>\<open>Socket_Flow\<close>, \<^verbatim>\<open>Socket_Progress\<close>, \<^verbatim>\<open>Connect_Safety\<close>, \<^verbatim>\<open>Device_Safety\<close>, \<^verbatim>\<open>Request_Safety\<close>,
    \<^verbatim>\<open>Smart_Safety\<close>: a weakest-precondition calculus (\<^verbatim>\<open>okA\<close>, rules in \<^verbatim>\<open>wp\<close>), the invariant \<^verbatim>\<open>world_ok\<close>, and
    that every operation keeps it.  \<^verbatim>\<open>peer_sink\<close> and \<^verbatim>\<open>smart_sink\<close> are the contracts of handing
    data to a peer, against which the handlers that do so are verified.
  \<^item> \<^verbatim>\<open>Server\<close>: these contracts discharged for the program's own enqueue functions, the loop, and the step
    relation with the reachable states.  \<^verbatim>\<open>Samples\<close>: concrete states.
  \<^item> \<^verbatim>\<open>Reconnect\<close> (\<^verbatim>\<open>ReconnectHandler::Run\<close>): a round of the thread that reconnects lost transports.
  \<^item> \<^verbatim>\<open>Connections\<close>, \<^verbatim>\<open>Nonblocking\<close> (\<^verbatim>\<open>BlockingConnectionAdapter\<close> in \<^verbatim>\<open>adb/transport.cpp\<close>, \<^verbatim>\<open>adb/transport_fd.cpp\<close>): the threads
    that read and write the packets of a connection, as step relations that interleave them with
    their callers.  \<^verbatim>\<open>blocking_connection\<close> is the contract of the connection underneath, with
    \<^verbatim>\<open>FdConnection\<close> as its instance.
  \<^item> \<^verbatim>\<open>Client\<close> (\<^verbatim>\<open>adb/client/adb_client.cpp\<close>): the client's end: selecting a device, requests and answers, the
    version of the server.

  \<^bold>\<open>What is shown.\<close>  In this theory: no reachable state is malformed and no event or live queued function
  uses freed memory; turns of the loop are steps of the server; what device packets, client requests,
  closing and disconnecting do; that output is conserved, waited for and delivered; that reconnecting
  makes progress; and that the server runs what the client asked for.  In the component
  theories: queue refinement, round trips of all wire formats, delivery between the two ends of a connection
  and its orderly stop, selection of devices, the conversation of client and server, bounds, and the
  places where the code does not do what it means to.

  \<^bold>\<open>Bounds.\<close>  Recursion that follows function pointers is bounded by \<^verbatim>\<open>close_depth\<close> (a socket, its peer, and
  the notifying variants: no close nests deeper, since peers are detached before they are closed) and by one
  level of smart sockets in \<^verbatim>\<open>sock_enqueue\<close> (the peer of a smart socket is local); the safety theorems show that
  \<^verbatim>\<open>OutOfFuel\<close> is not among the outcomes.  \<^verbatim>\<open>close_all_sockets\<close> restarts at most once per listed socket.
  \<^verbatim>\<open>FlushRunQueue\<close> takes the number of functions it may run, as functions may queue others.

  \<^bold>\<open>Not modelled.\<close>  Trace and log output, locks (handlers run on the looper thread; steps of other threads
  are interleaved between them), and allocation failure.  The build leaves out mdns, pairing and Wi-Fi
  support.  TLS, RSA keys, USB and the protobuf of the server's status are parameters or absent: they
  are calls into libraries and the kernel.  Of the client, the command line, file transfer, bug reports
  and installing are not modelled; they work on the terminal, the file system and compression libraries, and
  reach the server through \<^verbatim>\<open>Client\<close>.  The daemon side, the Windows and macOS variants, and the
  libraries that only other tools use are not part of this build of the host.
\<close>

section \<open>The server as a whole\<close>





text \<open>
  C3: A packet from a device, whatever it contains, leaves the state well formed and the transports
  the ones there were; it can stop the server only if its payload has not the announced length, if
  it is an authentication request, or if it asks to open a service (the name is not
  terminated, is not one configured for reverse connections, or no socket id is left).
\<close>

theorem handle_packet_type_safe:
  assumes "world_ok w" "w_transport w t = Some tr"
  shows "case handle_packet sock_enqueue p t w of
      Done (_, w') \<Rightarrow> world_ok w' \<and> dom (w_transport w') = dom (w_transport w) \<and> transport_list w' = transport_list w
    | Stop e \<Rightarrow> e \<in> packet_stops p"
proof -
  have "t \<in> dom (w_transport w)" using assms(2) by blast
  from server.okA_handle_packet [OF assms(1) this, of p] show ?thesis
    by (auto simp: okA_def same_transports_def split: run.splits)
qed

theorem handle_packet_type_safe_witness:
  "\<exists>w'. handle_packet sock_enqueue (packet_of A_CLSE 9 0 []) 1
      (sample_state kCsDevice (sample_client (Some 1) (Some 1)) (Some sample_remote) {FDE_READ}) = Done ((), w') \<and> world_ok w'"
proof -
  let ?w = "sample_state kCsDevice (sample_client (Some 1) (Some 1)) (Some sample_remote) {FDE_READ}"
  have "world_ok ?w" by (rule sample_state_ok [where t = "Some 1"]) simp_all
  moreover have "w_transport ?w 1 = Some (sample_device 1 ''A'' kCsDevice)" by (simp add: sample_state_def)
  moreover have "packet_stops (packet_of A_CLSE 9 0 []) = {}"
    by (simp add: packet_stops_def packet_of_def A_CLSE_def A_AUTH_def A_OPEN_def)
  ultimately show ?thesis using handle_packet_type_safe [of ?w 1 "sample_device 1 ''A'' kCsDevice" "packet_of A_CLSE 9 0 []"]
    by (auto split: run.splits)
qed

section \<open>Sockets\<close>

text \<open>
  C4: Closing a socket always ends: the socket and its peer are freed, or wait on the closing list for
  their last bytes with no peer; no other socket is touched and the state is well formed.
\<close>

theorem sock_close_closes_both:
  assumes "world_ok w" "w_sock w s = Some so"
  shows "\<exists>w'. sock_close s w = Done ((), w') \<and> world_ok w' \<and>
    (\<forall>x. x = s \<or> so_peer so = Some x \<longrightarrow> (case w_sock w' x of None \<Rightarrow> True | Some xo \<Rightarrow> so_closing xo \<and> so_peer xo = None)) \<and>
    (\<forall>x. x \<noteq> s \<longrightarrow> so_peer so \<noteq> Some x \<longrightarrow> w_sock w' x = w_sock w x)"
proof -
  obtain u w' where w': "sock_close s w = Done (u, w')" "closed s so w w'"
    by (rule okA_run [OF okA_sock_close [OF assms, where E = "{}"]])
  have "case w_sock w' x of None \<Rightarrow> True | Some xo \<Rightarrow> so_closing xo \<and> so_peer xo = None" if "x = s \<or> so_peer so = Some x" for x
    using w'(2) that by (auto simp: closed_def gone_def peer_set_def split: option.splits)
  moreover have "w_sock w' x = w_sock w x" if "x \<noteq> s" "so_peer so \<noteq> Some x" for x
    using w'(2) that by (auto simp: closed_def same_but_def peer_set_def split: option.splits)
  ultimately show ?thesis using w' by (auto simp: closed_def)
qed

theorem sock_close_closes_both_witness:
  "\<exists>w'. sock_close 0 (sample_state kCsDevice (sample_client (Some 1) (Some 1)) (Some sample_remote) {FDE_READ}) = Done ((), w') \<and>
     (case w_sock w' 1 of None \<Rightarrow> True | Some xo \<Rightarrow> so_closing xo \<and> so_peer xo = None)"
proof -
  let ?w = "sample_state kCsDevice (sample_client (Some 1) (Some 1)) (Some sample_remote) {FDE_READ}"
  have "world_ok ?w" by (rule sample_state_ok [where t = "Some 1"]) simp_all
  moreover have "w_sock ?w 0 = Some (sample_client (Some 1) (Some 1))" "so_peer (sample_client (Some 1) (Some 1)) = Some 1"
    by (simp_all add: sample_state_def sample_client_def)
  ultimately show ?thesis using sock_close_closes_both [of ?w 0 "sample_client (Some 1) (Some 1)"] by blast
qed

text \<open>
  C5: When a device that was not offline goes offline, no open socket and no listener is on its
  transport any more, and every socket that has nothing to do with the transport is still there,
  with its peer.
\<close>

theorem handle_offline_clears:
  assumes "world_ok w" "w_transport w t = Some tr" "t_state tr \<noteq> kCsOffline"
  shows "\<exists>w'. handle_offline sock_enqueue t w = Done ((), w') \<and> world_ok w' \<and>
    (\<forall>s so. w_sock w' s = Some so \<longrightarrow> \<not> so_closing so \<longrightarrow> so_transport so \<noteq> Some t) \<and>
    (\<forall>i l. (i, l) \<in> set (listener_list w') \<longrightarrow> l_transport l \<noteq> Some t) \<and>
    (\<forall>x xo. w_sock w x = Some xo \<longrightarrow> clear_of t w xo \<longrightarrow> (\<exists>xo'. w_sock w' x = Some xo' \<and> so_peer xo' = so_peer xo))"
proof -
  obtain u w' where w': "handle_offline sock_enqueue t w = Done (u, w')" "offline_post t False w w'"
    by (rule okA_run [OF server.okA_handle_offline [OF assms(1,2), where E = "{}"]]) (use assms(3) in simp)
  have "\<exists>xo'. w_sock w' x = Some xo' \<and> so_peer xo' = so_peer xo" if x: "w_sock w x = Some xo" "clear_of t w xo" for x xo
  proof -
    obtain xo' where "w_sock w' x = Some xo'" "flushed_to xo xo'"
      using w'(2) x unfolding offline_post_def kept_def by blast
    then show ?thesis using flushed_to_sel(2) by blast
  qed
  with w' show ?thesis by (simp add: offline_post_def deserted_def)
qed

theorem handle_offline_clears_witness:
  "\<exists>w'. handle_offline sock_enqueue 1
      (sample_state kCsDevice (sample_client (Some 1) (Some 1)) (Some sample_remote) {FDE_READ}) = Done ((), w') \<and>
    (\<forall>s so. w_sock w' s = Some so \<longrightarrow> \<not> so_closing so \<longrightarrow> so_transport so \<noteq> Some 1)"
proof -
  let ?w = "sample_state kCsDevice (sample_client (Some 1) (Some 1)) (Some sample_remote) {FDE_READ}"
  have "world_ok ?w" by (rule sample_state_ok [where t = "Some 1"]) simp_all
  moreover have "w_transport ?w 1 = Some (sample_device 1 ''A'' kCsDevice)" "t_state (sample_device 1 ''A'' kCsDevice) \<noteq> kCsOffline"
    by (simp_all add: sample_state_def sample_device_def new_atransport_def)
  ultimately show ?thesis using handle_offline_clears [of ?w 1 "sample_device 1 ''A'' kCsDevice"] by blast
qed

text \<open>
  C8: Bytes handed to a local socket are neither lost nor reordered: what its descriptor took followed
  by what is queued is what it was, followed by the new bytes, and no other socket changes.
\<close>

theorem enqueue_conserves:
  assumes "world_ok w" "w_sock w s = Some so" "is_local so" "so_fd so = Some fd" "\<not> so_closing so"
  shows "\<exists>r w' so'. local_socket_enqueue s data w = Done (r, w') \<and> r \<in> {0, 1} \<and> world_ok w' \<and> w_sock w' s = Some so' \<and>
    io_log (w_io w' fd) @ iov_bytes (so_packet_queue so') = io_log (w_io w fd) @ iov_bytes (so_packet_queue so) @ data \<and>
    (\<forall>x. x \<noteq> s \<longrightarrow> w_sock w' x = w_sock w x)"
proof -
  obtain r w' where w': "local_socket_enqueue s data w = Done (r, w')" "enqueue_post s fd so data w r w'"
    by (rule okA_run [OF okA_local_enqueue [OF assms(1-4), where E = "{}"]])
  then have r: "r \<noteq> - 1" using assms(5) by (auto simp: enqueue_post_def)
  with w'(2) obtain so' where "w_sock w' s = Some so'" "stream_of w' fd so' = stream_of w fd so @ data"
    by (auto simp: enqueue_post_def)
  with w' r show ?thesis by (auto simp: enqueue_post_def stream_of_def same_but_def)
qed

theorem enqueue_conserves_witness:
  "\<exists>r w' so'. local_socket_enqueue 0 ''hi'' (sample_state kCsDevice (sample_client (Some 1) (Some 1)) (Some sample_remote) {FDE_READ}) = Done (r, w') \<and>
     w_sock w' 0 = Some so' \<and> io_log (w_io w' 5) @ iov_bytes (so_packet_queue so') = ''hi''"
proof -
  let ?w = "sample_state kCsDevice (sample_client (Some 1) (Some 1)) (Some sample_remote) {FDE_READ}"
  have "world_ok ?w" by (rule sample_state_ok [where t = "Some 1"]) simp_all
  moreover have "w_sock ?w 0 = Some (sample_client (Some 1) (Some 1))" "is_local (sample_client (Some 1) (Some 1))"
      "so_fd (sample_client (Some 1) (Some 1)) = Some 5" "\<not> so_closing (sample_client (Some 1) (Some 1))"
    by (simp_all add: sample_state_def sample_client_def new_asocket_def is_local_def)
  moreover have "io_log (w_io ?w 5) = []" "iov_bytes (so_packet_queue (sample_client (Some 1) (Some 1))) = []"
    by (simp_all add: sample_state_def initial_world_def sample_io_def sample_client_def new_asocket_def)
  ultimately show ?thesis using enqueue_conserves [of ?w 0 "sample_client (Some 1) (Some 1)" 5 "''hi''"] by auto
qed

text \<open>
  C9: Output gets out: when every write to the descriptor of an open local socket is accepted, if only
  for one byte, then after at most one write event for each queued byte and one more the queue is
  empty and the descriptor has all of it, in order, after what it had.
\<close>

theorem output_delivered:
  assumes "world_ok w" "w_sock w s = Some so" "is_local so" "so_fd so = Some fd" "\<not> so_closing so" "\<not> so_has_write_error so"
    and "accepting (io_out (w_io w fd))" "length (iov_bytes (so_packet_queue so)) < n"
  shows "\<exists>w' so'. flush_turns n s w = Done (Completed, w') \<and> world_ok w' \<and> w_sock w' s = Some so' \<and>
    iov_empty (so_packet_queue so') \<and> io_log (w_io w' fd) = io_log (w_io w fd) @ iov_bytes (so_packet_queue so)"
proof -
  have "okA {} (flush_turns n s) w (\<lambda>r w'. r = Completed \<and> world_ok w' \<and> io_log (w_io w' fd) = stream_of w fd so \<and>
    (\<exists>so'. w_sock w' s = Some so' \<and> iov_empty (so_packet_queue so') \<and> flushed_to so so'))"
    by (rule okA_flush_turns [OF world_ok_settled [OF assms(1-3)] assms(4,6,5,7,8)])
  then show ?thesis by (rule okA_run) (auto simp: stream_of_def)
qed

theorem output_delivered_witness:
  "\<exists>w' so'. flush_turns 3 0 (sample_state kCsDevice (sample_busy ''hi'') (Some sample_remote) {FDE_WRITE}) = Done (Completed, w') \<and>
     w_sock w' 0 = Some so' \<and> io_log (w_io w' 5) = ''hi''"
proof -
  let ?so = "sample_busy ''hi''"
  let ?w = "sample_state kCsDevice ?so (Some sample_remote) {FDE_WRITE}"
  have "world_ok ?w" by (rule sample_busy_ok)
  moreover have "w_sock ?w 0 = Some ?so" "is_local ?so" "so_fd ?so = Some 5" "\<not> so_closing ?so" "\<not> so_has_write_error ?so"
      "iov_bytes (so_packet_queue ?so) = ''hi''"
    by (simp_all add: sample_state_def sample_busy_def sample_client_def new_asocket_def is_local_def sample_queue)
  moreover have "io_log (w_io ?w 5) = []" "accepting (io_out (w_io ?w 5))"
    by (simp_all add: sample_state_def initial_world_def sample_io_def accepting_def)
  ultimately show ?thesis using output_delivered [of ?w 0 ?so 5 3] by auto
qed



text \<open>
  C34: When a socket is closed with output pending it stays on the closing list, off the list that is
  searched when its device goes away, and keeps its transport; once the transport is freed, the
  hang-up event the kernel always reports makes the server use the freed transport.
\<close>

theorem pending_close_dangles:
  assumes "w_sock w s = Some so" "so_transport so = Some t" "\<not> so_closing so" "\<not> so_has_write_error so" "\<not> iov_empty (so_packet_queue so)"
    and "local_socket_finish s w = Done (u, w1)" "w_sock w2 s = w_sock w1 s" "w_transport w2 t = None"
  shows "s \<in> set (local_socket_closing_list w1) \<and> s \<notin> set (local_socket_list w1) \<and>
    local_socket_event_func enq s {FDE_READ, FDE_ERROR} w2 = Stop BadAccess"
proof -
  have "w_sock w1 s = Some (so\<lparr>so_closing := True\<rparr>) \<and> s \<in> set (local_socket_closing_list w1) \<and> s \<notin> set (local_socket_list w1)"
    using assms(1-6)
    by (auto simp: local_socket_finish_def bindA_def thenA_def retA_def stopA_def deref_sock_def mod_sock_def fdevent_delA_def derefp_def
        on_context_def remove_socket_def modA_def getA_def checkA_def liftA_def checkR_def split: run.splits option.splits if_splits)
  with assms(2,7,8) show ?thesis
    by (simp add: local_socket_event_func_def local_socket_flush_outgoing_def get_max_payload_def bindA_def thenA_def retA_def stopA_def deref_sock_def
        deref_tr_def derefp_def getA_def)
qed

theorem pending_close_dangles_witness:
  "\<exists>w1. local_socket_finish 0 (sample_state kCsDevice (sample_busy ''hi'') (Some sample_remote) {FDE_WRITE}) = Done ((), w1) \<and>
     local_socket_event_func sock_enqueue 0 {FDE_READ, FDE_ERROR} (w1\<lparr>w_transport := Map.empty\<rparr>) = Stop BadAccess"
proof -
  let ?so = "sample_busy ''hi''"
  let ?w = "sample_state kCsDevice ?so (Some sample_remote) {FDE_WRITE}"
  have so: "w_sock ?w 0 = Some ?so" "so_transport ?so = Some 1" "so_fde ?so = Some 5" "\<not> so_closing ?so" "\<not> so_has_write_error ?so"
      "\<not> iov_empty (so_packet_queue ?so)"
    by (simp_all add: sample_state_def sample_busy_def sample_client_def new_asocket_def sample_queue iov_empty_bytes)
  have "okA {} (local_socket_finish 0) ?w (\<lambda>_ _. True)"
    using so by (simp add: local_socket_finish_def wp remove_socket_def fdevent_delA_def sample_state_def fdevent_del_def fdevent_set_def sample_event_def Let_def checkR_def)
  then obtain u w1 where "local_socket_finish 0 ?w = Done (u, w1)" by (rule okA_run)
  with pending_close_dangles [OF so(1,2,4,5,6), of u w1 "w1\<lparr>w_transport := Map.empty\<rparr>"] show ?thesis by simp
qed

text \<open>
  C6: A client's request, whatever its text, never makes the server use a freed socket or transport:
  the state stays well formed, and unless the client's connection was given up its socket is still there; the
  process stops only at a fatal message, a failed check, a kill request, or a text read past its end.
\<close>

theorem smart_request_safe:
  assumes "world_ok w" "w_sock w s = Some so" "so_close so = CloseSmart" "so_peer so = Some p"
  shows "case smart_socket_enqueue (enqueue_n n) s data w of
      Done (r, w') \<Rightarrow> world_ok w' \<and> (r \<ge> 0 \<longrightarrow> (\<exists>po. w_sock w' p = Some po \<and> is_local po))
    | Stop e \<Rightarrow> e \<in> {LogFatal, CheckFailed, ProcessExit, OutOfRange}"
proof -
  have "smart_pair s p w" using assms by (simp add: smart_pair_def)
  from queued.okA_smart_socket [OF this, of n data] show ?thesis
    by (auto simp: okA_def smart_post_def request_stops_def split: run.splits)
qed

theorem smart_request_safe_witness:
  "smart_socket_enqueue (enqueue_n 2) 1 ''000chost:version''
     (sample_state kCsDevice (sample_client (Some 1) None) (Some sample_smart) {FDE_READ}) \<noteq> Stop BadAccess"
proof -
  let ?w = "sample_state kCsDevice (sample_client (Some 1) None) (Some sample_smart) {FDE_READ}"
  have "world_ok ?w" by (rule sample_state_ok [where t = None]) simp_all
  moreover have "w_sock ?w 1 = Some sample_smart" "so_close sample_smart = CloseSmart" "so_peer sample_smart = Some 0"
    by (simp_all add: sample_state_def sample_smart_def new_asocket_def)
  ultimately show ?thesis using smart_request_safe [of ?w 1 sample_smart 0 2 "''000chost:version''"] by auto
qed

section \<open>Reconnecting\<close>

text \<open>
  C14: Each time the reconnect thread wakes up, every transport that waited is still waiting or has
  been handed to the loop, once, to be registered again or removed; an attempt that is due uses up one of
  a bounded number, so that no transport waits forever.
\<close>

theorem reconnect_wake_progress:
  assumes "world_ok w" "reconnect_running w" "attempts_ok (reconnect_queue w)" "ra_transport ` set (reconnect_queue w) \<subseteq> dom (w_transport w)"
  shows "\<exists>w' tasks. reconnect_wake garbage later w = Done (True, w') \<and> world_ok w' \<and> attempts_ok (reconnect_queue w') \<and>
    run_queue w' = run_queue w @ tasks \<and>
    mset (map (Some \<circ> ra_transport) (reconnect_queue w)) = mset (map (Some \<circ> ra_transport) (reconnect_queue w')) + mset (map task_hands tasks) \<and>
    attempts_left (reconnect_queue w') \<le> attempts_left (reconnect_queue w) \<and>
    (\<forall>a q. reconnect_queue w = a # q \<longrightarrow> ra_time a \<le> w_now w \<longrightarrow> attempts_left (reconnect_queue w') < attempts_left (reconnect_queue w))"
proof -
  obtain r w' where w': "reconnect_wake garbage later w = Done (r, w')" "wake_post w r w'"
    by (rule okA_run [OF okA_wake [OF assms(1,3,4), where E = "{}"]])
  then obtain ts tasks where ts: "run_queue w' = run_queue w @ tasks" "map task_hands tasks = map Some ts"
      "mset (map ra_transport (reconnect_queue w)) = mset (map ra_transport (reconnect_queue w')) + mset ts" and r: r
    using assms(2) by (auto simp: wake_post_def hands_over_def simp del: mset_map)
  have "mset (map (Some \<circ> ra_transport) (reconnect_queue w)) = image_mset Some (mset (map ra_transport (reconnect_queue w)))"
    by (simp add: multiset.map_comp)
  also have "\<dots> = mset (map (Some \<circ> ra_transport) (reconnect_queue w')) + mset (map task_hands tasks)"
    unfolding ts(2,3) by (simp add: multiset.map_comp)
  finally have "mset (map (Some \<circ> ra_transport) (reconnect_queue w)) =
      mset (map (Some \<circ> ra_transport) (reconnect_queue w')) + mset (map task_hands tasks)" .
  moreover have "world_ok w'" using w'(2) quiet_ok [of w w'] assms(1) by (simp add: wake_post_def)
  ultimately show ?thesis using w' ts(1) r by (intro exI [of _ w'] exI [of _ tasks]) (simp add: wake_post_def)
qed

theorem reconnect_wake_progress_witness:
  "\<exists>w' tasks. reconnect_wake 0 7 ((sample_state kCsOffline (sample_client None None) None {FDE_READ})
      \<lparr>reconnect_queue := [\<lparr>ra_transport = 1, ra_time = 0, ra_left = 0\<rparr>]\<rparr>) = Done (True, w') \<and>
    reconnect_queue w' = [] \<and> run_queue w' = tasks \<and> mset (map task_hands tasks) = {#Some 1#}"
proof -
  let ?s = "sample_state kCsOffline (sample_client None None) None {FDE_READ}"
  let ?q = "[\<lparr>ra_transport = 1, ra_time = 0, ra_left = 0\<rparr>]"
  let ?w = "?s\<lparr>reconnect_queue := ?q\<rparr>"
  have "world_ok ?s" by (rule sample_state_ok [where t = None]) simp_all
  moreover have "quiet ?s ?w" by (simp add: quiet_def same_rest_def disconnects_of_def)
  ultimately have ok: "world_ok ?w" using quiet_ok by blast
  have "reconnect_running ?w" "attempts_ok (reconnect_queue ?w)" "ra_transport ` set (reconnect_queue ?w) \<subseteq> dom (w_transport ?w)"
      "run_queue ?w = []" "w_now ?w = 0"
    by (simp_all add: sample_state_def initial_world_def attempts_ok_def dom_def)
  with reconnect_wake_progress [OF ok, of 0 7] obtain w' tasks where w': "reconnect_wake 0 7 ?w = Done (True, w')" "run_queue w' = tasks"
      "{#Some 1#} = mset (map (Some \<circ> ra_transport) (reconnect_queue w')) + mset (map task_hands tasks)"
      "attempts_left (reconnect_queue w') < 1"
    by (auto simp: attempts_left_def)
  then have "reconnect_queue w' = []" by (cases "reconnect_queue w'") (simp_all add: attempts_left_def)
  with w' show ?thesis by auto
qed

section \<open>Client and server\<close>

text \<open>
  C7: What the client writes for a command about the selected device, in whatever two pieces it reaches the
  smart socket, makes the server run exactly that command with the serial, transport id and type the
  user selected.
\<close>

theorem client_request_served:
  assumes "no_hard_error (cn_out c)" "w_sock w s = Some so" "so_smart_socket_data so = []" "adb_transport_id cl < 2 ^ 64"
    and "\<forall>sn. adb_serial cl = Some sn \<longrightarrow> clean_serial sn" "clean_command cmd" "length (format_host_command cl cmd) < 65536"
  shows "\<exists>c'. send_string (format_host_command cl cmd) c = (True, c') \<and>
    (\<forall>a b. cn_sent c' = cn_sent c @ a @ b \<longrightarrow> b \<noteq> [] \<longrightarrow>
      thenA (smart_socket_enqueue enq s a) (smart_socket_enqueue enq s b) w =
      (case selected cl of (serial, tid, type) \<Rightarrow> smart_host_service enq s cmd serial tid type (with_data s (a @ b) w)))"
proof -
  let ?req = "format_host_command cl cmd"
  have "length ?req \<le> MAX_PAYLOAD - 4" using assms(7) by (simp add: MAX_PAYLOAD_def)
  from send_string_ok [OF assms(1) this] obtain es where
    sent: "send_string ?req c = (True, c\<lparr>cn_out := es, cn_sent := cn_sent c @ protocol_string ?req\<rparr>)" by blast
  have req: "?req \<noteq> []" by (simp add: format_host_command_def split: option.split)
  have cmd: "cmd \<noteq> []" using assms(6) by (simp add: clean_command_def)
  show ?thesis
  proof (intro exI [of _ "c\<lparr>cn_out := es, cn_sent := cn_sent c @ protocol_string ?req\<rparr>"] conjI allI impI sent)
    fix a b :: string
    assume "cn_sent (c\<lparr>cn_out := es, cn_sent := cn_sent c @ protocol_string ?req\<rparr>) = cn_sent c @ a @ b" "b \<noteq> []"
    then have p: "protocol_string ?req = a @ b" and b: "b \<noteq> []" by simp_all
    from smart_enqueue_pieces [OF assms(2,3) p b req assms(7), of enq] smart_prefix_format [OF assms(4-6)] cmd
    show "thenA (smart_socket_enqueue enq s a) (smart_socket_enqueue enq s b) w =
      (case selected cl of (serial, tid, type) \<Rightarrow> smart_host_service enq s cmd serial tid type (with_data s (a @ b) w))"
      by (cases "selected cl") (simp add: p smart_request_def bindA_def liftA_def)
  qed
qed

theorem client_request_served_witness:
  "\<forall>enq. \<exists>c'. send_string ''host-serial:emulator-5554:get-state'' \<lparr>cn_in = [], cn_out = [], cn_sent = []\<rparr> = (True, c') \<and>
     thenA (smart_socket_enqueue enq 1 (take 9 (cn_sent c'))) (smart_socket_enqueue enq 1 (drop 9 (cn_sent c')))
       (sample_state kCsDevice (sample_client (Some 1) None) (Some sample_smart) {FDE_READ}) =
     smart_host_service enq 1 ''get-state'' ''emulator-5554'' 0 kTransportAny
       (with_data 1 (cn_sent c') (sample_state kCsDevice (sample_client (Some 1) None) (Some sample_smart) {FDE_READ}))"
proof
  fix enq
  let ?w = "sample_state kCsDevice (sample_client (Some 1) None) (Some sample_smart) {FDE_READ}" and ?cl = "sample_user (Some ''emulator-5554'')"
  let ?c = "\<lparr>cn_in = [], cn_out = [], cn_sent = []\<rparr> :: conn"
  have f: "format_host_command ?cl ''get-state'' = ''host-serial:emulator-5554:get-state''" by (simp add: format_host_command_def sample_user_def)
  have "clean_serial ''emulator-5554''" by (simp add: clean_serial_def known_host_def)
  moreover have "clean_command ''get-state''" by (simp add: clean_command_def is_digit_in_def digit_value_def)
  moreover have "w_sock ?w 1 = Some sample_smart" "so_smart_socket_data sample_smart = []"
    by (simp_all add: sample_state_def sample_smart_def new_asocket_def)
  ultimately obtain c' where c: "send_string ''host-serial:emulator-5554:get-state'' ?c = (True, c')"
      "cn_sent c' = a @ b \<Longrightarrow> b \<noteq> [] \<Longrightarrow> thenA (smart_socket_enqueue enq 1 a) (smart_socket_enqueue enq 1 b) ?w =
        smart_host_service enq 1 ''get-state'' ''emulator-5554'' 0 kTransportAny (with_data 1 (a @ b) ?w)" for a b
    using client_request_served [of ?c ?w 1 sample_smart ?cl "''get-state''" enq] unfolding f
    by (auto simp: no_hard_error_def sample_user_def selected_def)
  have "length (cn_sent c') = 39"
    using c(1) by (auto simp: send_string_def SendProtocolString_def MAX_PAYLOAD_def WriteFdExactly.simps length_hex04 Let_def)
  then have "drop 9 (cn_sent c') \<noteq> []" by simp
  with c(1) c(2) [of "take 9 (cn_sent c')" "drop 9 (cn_sent c')"] show "\<exists>c'. send_string ''host-serial:emulator-5554:get-state'' ?c = (True, c') \<and>
     thenA (smart_socket_enqueue enq 1 (take 9 (cn_sent c'))) (smart_socket_enqueue enq 1 (drop 9 (cn_sent c'))) ?w =
     smart_host_service enq 1 ''get-state'' ''emulator-5554'' 0 kTransportAny (with_data 1 (cn_sent c') ?w)" by auto
qed

end
